(* ===== verification/Go_Prelude.thy ===== *)
theory Go_Prelude
  imports Main "HOL-Library.Word" "HOL-Library.AList" "HOL-Library.Sublist"
begin

text \<open>
  The prelude of the development: the Go values the server is written with (bytes, fixed-width
  integers, byte strings, errors, maps), the sequencing of operations that return an error, the
  two byte orders of \<^verbatim>\<open>encoding/binary\<close>, and the lemmas every component uses.
  A Go string and a Go \<^verbatim>\<open>[]byte\<close> are both lists of bytes. A Go map is an association list with
  distinct keys; the list's order is the unspecified iteration order of the map.
\<close>

unbundle bit_operations_syntax

named_theorems go_simps \<comment> \<open>evaluation of operations that return an error\<close>
named_theorems recognise_intros \<comment> \<open>what a reader accepts, one rule per way to build a reader\<close>
named_theorems wire_defs \<comment> \<open>the wire formats\<close>

section \<open>Values\<close>

type_synonym byte = "8 word"
type_synonym u16 = "16 word"
type_synonym u32 = "32 word"
type_synonym u64 = "64 word"
type_synonym bytes = "byte list"
type_synonym gostring = "byte list"

abbreviation MaxUint32 :: nat where
  "MaxUint32 \<equiv> 4294967295"

text \<open>A string literal of the source, as the bytes Go stores for it.\<close>

definition ascii :: "string \<Rightarrow> gostring" where
  "ascii s = map (\<lambda>c. word_of_nat (of_char c)) s"

section \<open>Errors\<close>

text \<open>The sentinel errors, one datatype per \<^verbatim>\<open>var\<close> block of the source.\<close>

datatype io_err = EOF | ErrUnexpectedEOF | ErrShortWrite | ErrClosedPipe | NetErrClosed | NetTimeout
  | ErrNotExist

datatype bytebuffer_err = ErrEmbeddedNUL | ErrMissingNUL | ErrUnexpectedType | ErrValueTooLarge

datatype frame_err = ErrFrameTooLarge | ErrReservedFrameBodySize

datatype crypto_err = ErrInvalidSessionKey | ErrInvalidBlockLength

datatype stun_err =
    ErrMalformedRequest | ErrUnsupportedMessageType | ErrUnsupportedAttribute
  | ErrUnsupportedChangeRequest | ErrInvalidEndpoint | ErrIPv4Only

datatype account_store_err =
    ErrAccountLimit | ErrAccountSourceLimit | ErrAccountHashCollision | ErrInvalidAccountSource

datatype lobby_session_err =
    ErrLobbySessionLimit | ErrLobbySessionAccountLimit | ErrLobbySessionSeedCollision
  | ErrInvalidLobbySession

datatype create_account_err =
    ErrMalformedMessage | ErrEncryptedCreateAccount | ErrUnexpectedMessageType
  | ErrTypeCheckingRequired | ErrUnexpectedTitle | ErrUnsupportedLicenseHash
  | ErrInvalidAccountBlock | ErrInvalidUsername

datatype auth_handler_err = AuthErrRecordLimit | ErrUnsupportedAuthMessage

datatype matchmaking_err =
    ErrMalformedMatchmakingRequest | ErrMatchmakingIdentity | ErrUnsupportedMatchmakingTask
  | ErrUnsupportedMatchmakingQuery

datatype matchmaking_store_err =
    ErrMatchmakingSessionLimit | ErrMatchmakingOwnerSessionLimit | ErrMatchmakingSessionID
  | ErrMatchmakingSessionOwner | ErrMatchmakingSessionMiss

datatype envelope_err = ErrMalformedEncryptedEnvelope | ErrInvalidRequestHMAC

datatype eventlog_err = ErrMalformedEventLogRequest | ErrUnsupportedEventLogTask

datatype messaging_err =
    ErrMalformedMessagingRequest | ErrUnsupportedMessagingTask | ErrInvalidGlobalInstantMessage

datatype lsg_err =
    ErrMalformedLSGLogin | ErrInvalidLSGIdentity | ErrUnsupportedLobbyMessage
  | LobbyErrRecordLimit | ErrProvisionalControlLimit

datatype router_err = ErrUnsupportedInitialMessage

datatype server_err = ErrAlreadyServing | ErrShuttingDown

text \<open>
  A Go error. \<open>TypeErr expected actual\<close> is the struct \<^verbatim>\<open>bitdemon.TypeError\<close>, \<open>Message\<close> an inline
  \<^verbatim>\<open>errors.New\<close>, and \<open>Context s e\<close> the result of \<^verbatim>\<open>fmt.Errorf\<close> that wraps \<open>e\<close> with \<^verbatim>\<open>%w\<close>.
  The text that only \<^verbatim>\<open>%v\<close> and \<^verbatim>\<open>%d\<close> add to a message is not kept: no code inspects it.
\<close>

datatype go_error =
    IoErr io_err
  | ByteBufferErr bytebuffer_err
  | TypeErr byte byte
  | FrameErr frame_err
  | CryptoErr crypto_err
  | StunErr stun_err
  | AccountStoreErr account_store_err
  | LobbySessionErr lobby_session_err
  | CreateAccountErr create_account_err
  | AuthHandlerErr auth_handler_err
  | MatchmakingErr matchmaking_err
  | MatchmakingStoreErr matchmaking_store_err
  | EnvelopeErr envelope_err
  | EventLogErr eventlog_err
  | MessagingErr messaging_err
  | LsgErr lsg_err
  | RouterErr router_err
  | ServerErr server_err
  | Message string
  | Context string go_error

text \<open>\<^verbatim>\<open>errors.Is\<close>: a wrapped error is what it wraps, and \<^verbatim>\<open>TypeError.Unwrap\<close> is
  \<^verbatim>\<open>ErrUnexpectedType\<close>.\<close>

fun errors_is :: "go_error \<Rightarrow> go_error \<Rightarrow> bool" where
  "errors_is (Context s e) t = (Context s e = t \<or> errors_is e t)"
| "errors_is (TypeErr x y) t = (TypeErr x y = t \<or> t = ByteBufferErr ErrUnexpectedType)"
| "errors_is e t = (e = t)"

lemma errors_is_refl [simp]: "errors_is e e"
  by (cases e) auto

section \<open>Operations that return an error\<close>

text \<open>
  An operation on a state \<open>'s\<close> that returns \<^verbatim>\<open>(value, error)\<close>: \<open>Inl\<close> carries the error. The
  state is returned on both paths, as a Go method may have changed its receiver before it fails.
\<close>

type_synonym ('s, 'a) go = "'s \<Rightarrow> (go_error + 'a) \<times> 's"

definition go_return :: "'a \<Rightarrow> ('s, 'a) go" where
  "go_return a s = (Inr a, s)"

definition go_fail :: "go_error \<Rightarrow> ('s, 'a) go" where
  "go_fail e s = (Inl e, s)"

definition go_bind :: "('s, 'a) go \<Rightarrow> ('a \<Rightarrow> ('s, 'b) go) \<Rightarrow> ('s, 'b) go" where
  "go_bind m f s = (case m s of (Inl e, s') \<Rightarrow> (Inl e, s') | (Inr a, s') \<Rightarrow> f a s')"

text \<open>\<^verbatim>\<open>if err != nil { return ..., wrap(err) }\<close>: the error is replaced, the state is kept.\<close>

definition go_wrap :: "(go_error \<Rightarrow> go_error) \<Rightarrow> ('s, 'a) go \<Rightarrow> ('s, 'a) go" where
  "go_wrap w m s = (case m s of (Inl e, s') \<Rightarrow> (Inl (w e), s') | (Inr a, s') \<Rightarrow> (Inr a, s'))"

lemma go_bind_Inr [go_simps]: "m s = (Inr a, s') \<Longrightarrow> go_bind m f s = f a s'"
  by (simp add: go_bind_def)

lemma go_bind_Inl [go_simps]: "m s = (Inl e, s') \<Longrightarrow> go_bind m f s = (Inl e, s')"
  by (simp add: go_bind_def)

lemma go_return_apply [simp]: "go_return a s = (Inr a, s)"
  by (simp add: go_return_def)

lemma go_fail_apply [simp]: "go_fail e s = (Inl e, s)"
  by (simp add: go_fail_def)

lemma go_bind_eq_Inr:
  "go_bind m f s = (Inr b, s'') \<longleftrightarrow> (\<exists>a s'. m s = (Inr a, s') \<and> f a s' = (Inr b, s''))"
  by (auto simp: go_bind_def split: prod.splits sum.splits)

lemma go_bind_eq_Inl:
  "go_bind m f s = (Inl e, s'') \<longleftrightarrow>
     m s = (Inl e, s'') \<or> (\<exists>a s'. m s = (Inr a, s') \<and> f a s' = (Inl e, s''))"
  by (auto simp: go_bind_def split: prod.splits sum.splits)

lemma go_wrap_eq_Inr [simp]: "go_wrap w m s = (Inr a, s') \<longleftrightarrow> m s = (Inr a, s')"
  by (auto simp: go_wrap_def split: prod.splits sum.splits)

lemma go_wrap_eq_Inl: "go_wrap w m s = (Inl e, s') \<longleftrightarrow> (\<exists>e'. m s = (Inl e', s') \<and> e = w e')"
  by (auto simp: go_wrap_def split: prod.splits sum.splits)

lemma snd_go_wrap [simp]: "snd (go_wrap w m s) = snd (m s)"
  by (auto simp: go_wrap_def split: prod.splits sum.splits)

section \<open>Lengths and words\<close>

lemma int_eq_uint_iff: "int n = uint w \<longleftrightarrow> n = unat w"
  by (metis nat_int of_nat_unat unsigned_of_nat unat_eq_nat_uint)

lemma uint_less_int_iff: "uint w < int n \<longleftrightarrow> unat w < n"
  by (metis of_nat_less_iff of_nat_unat)

lemma unat_u32_bound: "unat (w :: u32) \<le> MaxUint32"
proof -
  have "unat w < 2 ^ LENGTH(32)" by (rule unsigned_less)
  then show ?thesis by simp
qed

lemma unat_word_of_nat_small: "n < 2 ^ LENGTH('a) \<Longrightarrow> unat (word_of_nat n :: 'a::len word) = n"
  by (rule of_nat_inverse [OF refl])

lemma unat32_of_length [simp]: "n \<le> MaxUint32 \<Longrightarrow> unat (word_of_nat n :: u32) = n"
  by (rule unat_word_of_nat_small) simp

text \<open>The laws of the sequencing, to move a common tail out of a sequence with early returns.\<close>

lemma go_bind_assoc: "go_bind (go_bind m f) g = go_bind m (\<lambda>a. go_bind (f a) g)"
  by (rule ext) (simp add: go_bind_def split: prod.split sum.split)

lemma go_bind_fail: "go_bind (go_fail e) f = go_fail e"
  by (rule ext) (simp add: go_bind_def go_fail_def)

lemma go_bind_return: "go_bind (go_return a) f = f a"
  by (rule ext) (simp add: go_bind_def go_return_def)

lemma go_bind_if: "go_bind (if c then m else n) f = (if c then go_bind m f else go_bind n f)"
  by simp

lemmas go_bind_laws = go_bind_assoc go_bind_fail go_bind_return go_bind_if

section \<open>Byte orders\<close>

text \<open>\<^verbatim>\<open>binary.LittleEndian\<close>: \<open>le_bytes n w\<close> are the \<open>n\<close> low bytes of \<open>w\<close>, lowest first;
  \<open>le_word\<close> reads them back.\<close>

definition le_bytes :: "nat \<Rightarrow> 'a::len word \<Rightarrow> bytes" where
  "le_bytes n w = map (\<lambda>i. ucast (drop_bit (8 * i) w)) [0..<n]"

fun le_word :: "bytes \<Rightarrow> 'a::len word" where
  "le_word [] = 0"
| "le_word (b # bs) = ucast b OR push_bit 8 (le_word bs)"

text \<open>\<^verbatim>\<open>binary.BigEndian\<close>: the same bytes, highest first.\<close>

definition be_bytes :: "nat \<Rightarrow> 'a::len word \<Rightarrow> bytes" where
  "be_bytes n w = rev (le_bytes n w)"

definition be_word :: "bytes \<Rightarrow> 'a::len word" where
  "be_word bs = le_word (rev bs)"

lemma length_le_bytes [simp]: "length (le_bytes n w) = n"
  by (simp add: le_bytes_def)

lemma length_be_bytes [simp]: "length (be_bytes n w) = n"
  by (simp add: be_bytes_def)

lemma nth_le_bytes: "i < n \<Longrightarrow> le_bytes n w ! i = ucast (drop_bit (8 * i) w)"
  by (simp add: le_bytes_def)

lemma bit_le_word:
  "bit (le_word bs :: 'a::len word) i \<longleftrightarrow>
     i < LENGTH('a) \<and> i div 8 < length bs \<and> bit (bs ! (i div 8)) (i mod 8)"
proof (induction bs arbitrary: i)
  case Nil
  then show ?case by simp
next
  case (Cons b bs)
  show ?case
  proof (cases "i < 8")
    case True
    then show ?thesis by (auto simp: bit_or_iff bit_ucast_iff bit_push_bit_iff)
  next
    case False
    then have i: "i div 8 = Suc ((i - 8) div 8)" "i mod 8 = (i - 8) mod 8"
      by (simp_all add: le_div_geq le_mod_geq)
    have nb: "\<not> bit b i"
      using False bit_imp_le_length [of b i] by auto
    show ?thesis
      using False i nb
      by (auto simp: bit_or_iff bit_ucast_iff bit_push_bit_iff Cons.IH)
  qed
qed

lemma le_word_le_bytes: "le_word (le_bytes n w) = take_bit (8 * n) (w :: 'a::len word)"
proof (rule bit_word_eqI)
  fix i
  assume "i < LENGTH('a)"
  have "i div 8 < n \<longleftrightarrow> i < 8 * n"
    by auto
  moreover have "8 * (i div 8) + i mod 8 = i"
    by simp
  ultimately show "bit (le_word (le_bytes n w) :: 'a word) i = bit (take_bit (8 * n) w) i"
    by (auto simp: bit_le_word nth_le_bytes bit_ucast_iff bit_drop_bit_eq bit_take_bit_iff
        dest: bit_imp_le_length)
qed

lemma le_word_le_bytes_full [simp]:
  "LENGTH('a) \<le> 8 * n \<Longrightarrow> le_word (le_bytes n w) = (w :: 'a::len word)"
  by (simp add: le_word_le_bytes take_bit_word_eq_self)

lemma le_bytes_le_word [simp]:
  assumes "length bs = n" and "8 * n \<le> LENGTH('a)"
  shows "le_bytes n (le_word bs :: 'a::len word) = bs"
proof (rule nth_equalityI)
  show "length (le_bytes n (le_word bs :: 'a word)) = length bs"
    using assms by simp
next
  fix i
  assume "i < length (le_bytes n (le_word bs :: 'a word))"
  then have i: "i < n" by simp
  have "ucast (drop_bit (8 * i) (le_word bs :: 'a word)) = bs ! i"
  proof (rule bit_word_eqI)
    fix j
    assume "j < LENGTH(8)"
    then have j: "j < 8" by simp
    then have "(8 * i + j) div 8 = i" "(8 * i + j) mod 8 = j"
      by simp_all
    moreover have "8 * i + j < LENGTH('a)"
      using i j assms(2) by linarith
    ultimately show "bit (ucast (drop_bit (8 * i) (le_word bs :: 'a word)) :: byte) j = bit (bs ! i) j"
      using i j assms(1) by (simp add: bit_ucast_iff bit_drop_bit_eq bit_le_word)
  qed
  with i show "le_bytes n (le_word bs :: 'a word) ! i = bs ! i"
    by (simp add: nth_le_bytes)
qed

lemma le_bytes_inject:
  "LENGTH('a) \<le> 8 * n \<Longrightarrow> le_bytes n v = le_bytes n w \<longleftrightarrow> v = (w :: 'a::len word)"
  by (metis le_word_le_bytes_full)

lemma be_word_be_bytes [simp]:
  "LENGTH('a) \<le> 8 * n \<Longrightarrow> be_word (be_bytes n w) = (w :: 'a::len word)"
  by (simp add: be_word_def be_bytes_def)

lemma be_bytes_be_word [simp]:
  "length bs = n \<Longrightarrow> 8 * n \<le> LENGTH('a) \<Longrightarrow> be_bytes n (be_word bs :: 'a::len word) = bs"
  by (simp add: be_word_def be_bytes_def)

lemma be_word_eq_iff:
  "length bs = n \<Longrightarrow> 8 * n = LENGTH('a) \<Longrightarrow> (be_word bs :: 'a::len word) = w \<longleftrightarrow> bs = be_bytes n w"
  by (metis be_bytes_be_word be_word_be_bytes order_refl)

text \<open>The fixed sizes the source uses.\<close>

abbreviation LE_Uint32 :: "bytes \<Rightarrow> u32" where "LE_Uint32 \<equiv> le_word"
abbreviation LE_Uint64 :: "bytes \<Rightarrow> u64" where "LE_Uint64 \<equiv> le_word"
abbreviation LE_PutUint32 :: "u32 \<Rightarrow> bytes" where "LE_PutUint32 \<equiv> le_bytes 4"
abbreviation LE_PutUint64 :: "u64 \<Rightarrow> bytes" where "LE_PutUint64 \<equiv> le_bytes 8"
abbreviation BE_Uint16 :: "bytes \<Rightarrow> u16" where "BE_Uint16 \<equiv> be_word"
abbreviation BE_Uint32 :: "bytes \<Rightarrow> u32" where "BE_Uint32 \<equiv> be_word"
abbreviation BE_PutUint16 :: "u16 \<Rightarrow> bytes" where "BE_PutUint16 \<equiv> be_bytes 2"

section \<open>Slices\<close>

text \<open>\<^verbatim>\<open>b[lo:hi]\<close>, for bounds the code has checked.\<close>

definition slice :: "nat \<Rightarrow> nat \<Rightarrow> 'a list \<Rightarrow> 'a list" where
  "slice lo hi xs = take (hi - lo) (drop lo xs)"

lemma length_slice [simp]: "hi \<le> length xs \<Longrightarrow> length (slice lo hi xs) = hi - lo"
  by (simp add: slice_def)

lemma slice_append_left [simp]: "hi \<le> length xs \<Longrightarrow> slice lo hi (xs @ ys) = slice lo hi xs"
  by (cases "lo \<le> length xs") (simp_all add: slice_def)

lemma slice_append_right [simp]:
  "length xs \<le> lo \<Longrightarrow> slice lo hi (xs @ ys) = slice (lo - length xs) (hi - length xs) ys"
  by (cases "length xs \<le> hi") (simp_all add: slice_def)

lemma slice_all [simp]: "length xs \<le> hi \<Longrightarrow> slice 0 hi xs = xs"
  by (simp add: slice_def)

lemma length_split: "length xs = n + m \<longleftrightarrow> (\<exists>a b. xs = a @ b \<and> length a = n \<and> length b = m)"
proof
  assume "length xs = n + m"
  then have "xs = take n xs @ drop n xs \<and> length (take n xs) = n \<and> length (drop n xs) = m" by simp
  then show "\<exists>a b. xs = a @ b \<and> length a = n \<and> length b = m" by blast
qed auto

text \<open>\<^verbatim>\<open>copy(dst[at:], src)\<close>: as many bytes as fit.\<close>

definition copy_at :: "nat \<Rightarrow> 'a list \<Rightarrow> 'a list \<Rightarrow> 'a list" where
  "copy_at at src dst =
     take at dst @ take (length dst - at) src @ drop (at + length src) dst"

lemma length_copy_at [simp]: "length (copy_at at src dst) = length dst"
  by (simp add: copy_at_def)

lemma copy_at_mid:
  "n = length pre \<Longrightarrow> length src = length mid \<Longrightarrow> copy_at n src (pre @ mid @ post) = pre @ src @ post"
  by (simp add: copy_at_def)

lemma list_update_mid: "n = length pre \<Longrightarrow> (pre @ x # post)[n := y] = pre @ y # post"
  by simp

text \<open>\<^verbatim>\<open>bytes.IndexByte\<close>: the first position of a byte, or \<open>-1\<close>.\<close>

fun IndexByte :: "bytes \<Rightarrow> byte \<Rightarrow> int" where
  "IndexByte [] c = -1"
| "IndexByte (b # bs) c =
     (if b = c then 0 else let i = IndexByte bs c in if i < 0 then -1 else i + 1)"

lemma IndexByte_less_0 [simp]: "IndexByte bs c < 0 \<longleftrightarrow> c \<notin> set bs"
  by (induction bs) (auto simp: Let_def)

lemma IndexByte_not_found [simp]: "c \<notin> set bs \<Longrightarrow> IndexByte bs c = -1"
  by (induction bs) (auto simp: Let_def)

lemma IndexByte_append [simp]: "c \<notin> set xs \<Longrightarrow> IndexByte (xs @ c # ys) c = int (length xs)"
  by (induction xs) (auto simp: Let_def)

lemma IndexByte_found:
  assumes "c \<in> set bs"
  shows "\<exists>xs ys. bs = xs @ c # ys \<and> c \<notin> set xs \<and> IndexByte bs c = int (length xs)"
proof -
  from assms obtain xs ys where "bs = xs @ c # ys" and "c \<notin> set xs"
    by (meson split_list_first)
  then show ?thesis by auto
qed

section \<open>Maps\<close>

text \<open>\<^verbatim>\<open>map[K]V\<close>: lookup is \<open>map_of\<close>, assignment \<open>AList.update\<close>, \<^verbatim>\<open>delete\<close> is \<open>AList.delete\<close>,
  \<^verbatim>\<open>len\<close> is \<open>length\<close>, and \<^verbatim>\<open>range\<close> visits the list. A missing counter reads as zero.\<close>

type_synonym ('k, 'v) gomap = "('k \<times> 'v) list"

abbreviation gm_ok :: "('k, 'v) gomap \<Rightarrow> bool" where
  "gm_ok m \<equiv> distinct (map fst m)"

definition gm_count :: "('k, int) gomap \<Rightarrow> 'k \<Rightarrow> int" where
  "gm_count m k = (case map_of m k of None \<Rightarrow> 0 | Some n \<Rightarrow> n)"

lemma map_of_update [simp]: "map_of (AList.update k v m) = (map_of m)(k \<mapsto> v)"
  by (simp add: update_conv')

lemma map_of_delete [simp]: "map_of (AList.delete k m) = (map_of m)(k := None)"
  by (simp add: delete_conv')

lemma length_update_fresh: "map_of m k = None \<Longrightarrow> AList.update k v m = m @ [(k, v)]"
  by (induction m) (auto split: if_splits)

lemma length_update_old: "map_of m k = Some w \<Longrightarrow> length (AList.update k v m) = length m"
  by (induction m) (auto split: if_splits)

lemma delete_absent: "map_of m k = None \<Longrightarrow> AList.delete k m = m"
  by (induction m) (auto simp: AList.delete_eq split: if_splits)

lemma set_update_subset: "set (AList.update k v m) \<subseteq> insert (k, v) (set m)"
  by (induction m) auto

lemma delete_filter: "AList.delete k m = filter (\<lambda>e. fst e \<noteq> k) m"
  by (auto simp: AList.delete_eq case_prod_beta intro: filter_cong)

lemma gm_in_set: "gm_ok m \<Longrightarrow> (k, v) \<in> set m \<longleftrightarrow> map_of m k = Some v"
  by (auto simp: map_of_is_SomeI dest: map_of_SomeD)

lemma gm_count_update [simp]:
  "gm_count (AList.update k n m) k' = (if k' = k then n else gm_count m k')"
  by (simp add: gm_count_def)

lemma gm_count_delete [simp]:
  "gm_count (AList.delete k m) k' = (if k' = k then 0 else gm_count m k')"
  by (simp add: gm_count_def)

lemma gm_count_Nil [simp]: "gm_count [] k = 0"
  by (simp add: gm_count_def)

end
