(* ===== verification/Stream_Reader.thy ===== *)
theory Stream_Reader
  imports Go_Prelude
begin

text \<open>
  The contract the two readers of package bitdemon share. A reader stands in a stream (of bytes
  or of bits) and has a type-check mode. \<open>recog d E\<close> says what an operation \<open>d\<close> on such a reader
  accepts: it returns \<open>v\<close> exactly when the unread stream begins with an encoding of \<open>v\<close>, and it
  then stands right after it. The rules build this description of a composed reader from those
  of its parts, so what a parser of a whole message accepts is computed, not re-proved.
\<close>

lemma prefix_append_drop:
  "prefix (xs @ ys) zs \<longleftrightarrow> prefix xs zs \<and> prefix ys (drop (length xs) zs)"
  by (auto simp: prefix_def)

lemma ex_prefix_of_length:
  "(\<exists>xs. length xs = n \<and> P xs \<and> prefix xs zs) \<longleftrightarrow> n \<le> length zs \<and> P (take n zs)"
proof
  assume "\<exists>xs. length xs = n \<and> P xs \<and> prefix xs zs"
  then show "n \<le> length zs \<and> P (take n zs)"
    by (auto simp: prefix_def)
next
  assume "n \<le> length zs \<and> P (take n zs)"
  then show "\<exists>xs. length xs = n \<and> P xs \<and> prefix xs zs"
    by (intro exI [of _ "take n zs"]) (simp add: take_is_prefix)
qed

locale stream_reader =
  fixes wf :: "'r \<Rightarrow> bool"
    and rest :: "'r \<Rightarrow> 'x list"
    and tmode :: "'r \<Rightarrow> bool"
    and goto :: "nat \<Rightarrow> bool \<Rightarrow> 'r \<Rightarrow> 'r"
  assumes rest_goto: "rest (goto n tc r) = drop n (rest r)"
    and mode_goto: "tmode (goto n tc r) = tc"
    and goto_goto: "goto m tc' (goto n tc r) = goto (n + m) tc' r"
    and goto_here: "goto 0 (tmode r) r = r"
    and wf_goto: "wf r \<Longrightarrow> n \<le> length (rest r) \<Longrightarrow> wf (goto n tc r)"
begin

text \<open>\<open>E tc v xs tc'\<close>: in mode \<open>tc\<close>, \<open>xs\<close> encodes \<open>v\<close>, and reading it leaves mode \<open>tc'\<close>.\<close>

definition recog :: "('r, 'v) go \<Rightarrow> (bool \<Rightarrow> 'v \<Rightarrow> 'x list \<Rightarrow> bool \<Rightarrow> bool) \<Rightarrow> bool" where
  "recog d E \<longleftrightarrow>
     (\<forall>r v r'. wf r \<longrightarrow>
        (d r = (Inr v, r') \<longleftrightarrow>
           (\<exists>xs tc'. E (tmode r) v xs tc' \<and> prefix xs (rest r) \<and> r' = goto (length xs) tc' r)))"

lemma recogI:
  "(\<And>r v r'. wf r \<Longrightarrow> d r = (Inr v, r') \<longleftrightarrow>
     (\<exists>xs tc'. E (tmode r) v xs tc' \<and> prefix xs (rest r) \<and> r' = goto (length xs) tc' r)) \<Longrightarrow>
   recog d E"
  by (simp add: recog_def)

lemma recogD:
  "recog d E \<Longrightarrow> wf r \<Longrightarrow> d r = (Inr v, r') \<longleftrightarrow>
     (\<exists>xs tc'. E (tmode r) v xs tc' \<and> prefix xs (rest r) \<and> r' = goto (length xs) tc' r)"
  by (simp add: recog_def)

lemma recog_cong:
  "recog d E \<Longrightarrow> (\<And>tc v xs tc'. E tc v xs tc' = E' tc v xs tc') \<Longrightarrow> recog d E'"
  by (simp add: recog_def)

lemma recog_return: "recog (go_return a) (\<lambda>tc v xs tc'. v = a \<and> xs = [] \<and> tc' = tc)"
  by (rule recogI) (auto simp: goto_here)

lemma recog_fail: "recog (go_fail e) (\<lambda>tc v xs tc'. False)"
  by (rule recogI) auto

lemma recog_wrap: "recog d E \<Longrightarrow> recog (go_wrap w d) E"
  by (simp add: recog_def)

lemma recog_if:
  "recog d D \<Longrightarrow> recog e E \<Longrightarrow>
   recog (if c then d else e) (\<lambda>tc v xs tc'. if c then D tc v xs tc' else E tc v xs tc')"
  by simp

lemma recog_bind:
  assumes d: "recog d D" and f: "\<And>a. recog (f a) (F a)"
  shows "recog (go_bind d f)
    (\<lambda>tc v xs tc'. \<exists>a x1 t1 x2. D tc a x1 t1 \<and> F a t1 v x2 tc' \<and> xs = x1 @ x2)"
proof (rule recogI)
  fix r v r'
  assume wf: "wf r"
  have second: "f a r1 = (Inr v, r') \<longleftrightarrow>
      (\<exists>x2 t2. F a t1 v x2 t2 \<and> prefix x2 (drop (length x1) (rest r)) \<and>
            r' = goto (length x1 + length x2) t2 r)"
    if "prefix x1 (rest r)" and "r1 = goto (length x1) t1 r" for a x1 t1 r1
    using that recogD [OF f wf_goto [OF wf prefix_length_le [OF that(1)]], of a t1 v r']
    by (auto simp: rest_goto mode_goto goto_goto)
  show "go_bind d f r = (Inr v, r') \<longleftrightarrow>
      (\<exists>xs tc'. (\<exists>a x1 t1 x2. D (tmode r) a x1 t1 \<and> F a t1 v x2 tc' \<and> xs = x1 @ x2) \<and>
            prefix xs (rest r) \<and> r' = goto (length xs) tc' r)"
    unfolding go_bind_eq_Inr recogD [OF d wf]
    using second by (fastforce simp: prefix_append_drop)
qed

lemmas recog_rules = recog_return recog_fail recog_wrap recog_if recog_bind

text \<open>A reader that returns is still well placed, and has moved over what it accepted.\<close>

lemma recog_wf:
  assumes "recog d E" and "wf r" and "d r = (Inr v, r')"
  shows "wf r'" and "length (rest r') \<le> length (rest r)"
  using assms(3) unfolding recogD [OF assms(1,2)]
  by (auto simp: rest_goto intro!: wf_goto [OF assms(2)] dest: prefix_length_le)

text \<open>An operation accepts one value only.\<close>

lemma recog_unique:
  assumes "recog d E" and "wf r"
    and "E (tmode r) v xs tc1" and "prefix xs (rest r)"
    and "E (tmode r) w ys tc2" and "prefix ys (rest r)"
  shows "v = w"
proof -
  from assms have "d r = (Inr v, goto (length xs) tc1 r)" and "d r = (Inr w, goto (length ys) tc2 r)"
    unfolding recogD [OF assms(1,2)] by blast+
  then show ?thesis by simp
qed

end

end
