(* ===== verification/Byte_Buffer.thy ===== *)
theory Byte_Buffer
  imports Stream_Reader
begin

text \<open>
  \<^verbatim>\<open>internal/online/bitdemon/bytebuffer.go\<close>: the byte-aligned writer and reader of lobby messages.
  A value is optionally preceded by a one-byte type tag. The writer appends to its buffer; every
  read operation of the reader either consumes exactly one encoded value or leaves the reader
  where it was. The contract between the two sides is the locale \<open>wire_field\<close>, interpreted for
  each type of value, and the rules \<open>recognise_intros\<close> carry it to readers of whole messages.
\<close>

section \<open>Type tags\<close>

type_synonym DataType = byte

definition TypeUint8 :: DataType where [wire_defs]: "TypeUint8 = 0x03"
definition TypeInt32 :: DataType where [wire_defs]: "TypeInt32 = 0x07"
definition TypeUint32 :: DataType where [wire_defs]: "TypeUint32 = 0x08"
definition TypeUint64 :: DataType where [wire_defs]: "TypeUint64 = 0x0a"
definition TypeString :: DataType where [wire_defs]: "TypeString = 0x10"
definition TypeBlob :: DataType where [wire_defs]: "TypeBlob = 0x13"

section \<open>ByteWriter\<close>

record ByteWriter =
  bw_typeChecked :: bool
  bw_data :: bytes

definition NewByteWriter :: "bool \<Rightarrow> ByteWriter" where
  "NewByteWriter typeChecked = \<lparr>bw_typeChecked = typeChecked, bw_data = []\<rparr>"

definition bw_append :: "bytes \<Rightarrow> ByteWriter \<Rightarrow> ByteWriter" where
  "bw_append bs writer = writer\<lparr>bw_data := bw_data writer @ bs\<rparr>"

definition bw_Bytes :: "ByteWriter \<Rightarrow> bytes" where
  "bw_Bytes writer = bw_data writer"

definition bw_writeType :: "DataType \<Rightarrow> ByteWriter \<Rightarrow> ByteWriter" where
  "bw_writeType dataType writer =
     (if bw_typeChecked writer then bw_append [dataType] writer else writer)"

definition bw_WriteRaw :: "bytes \<Rightarrow> ByteWriter \<Rightarrow> ByteWriter" where
  "bw_WriteRaw value writer = bw_append value writer"

definition bw_WriteUint8 :: "byte \<Rightarrow> ByteWriter \<Rightarrow> ByteWriter" where
  "bw_WriteUint8 value writer = bw_append [value] (bw_writeType TypeUint8 writer)"

text \<open>An \<^verbatim>\<open>int32\<close> is its two's complement bits; \<^verbatim>\<open>uint32(value)\<close> keeps them.\<close>

definition bw_WriteInt32 :: "u32 \<Rightarrow> ByteWriter \<Rightarrow> ByteWriter" where
  "bw_WriteInt32 value writer = bw_append (LE_PutUint32 value) (bw_writeType TypeInt32 writer)"

definition bw_WriteUint32 :: "u32 \<Rightarrow> ByteWriter \<Rightarrow> ByteWriter" where
  "bw_WriteUint32 value writer = bw_append (LE_PutUint32 value) (bw_writeType TypeUint32 writer)"

definition bw_WriteUint64 :: "u64 \<Rightarrow> ByteWriter \<Rightarrow> ByteWriter" where
  "bw_WriteUint64 value writer = bw_append (LE_PutUint64 value) (bw_writeType TypeUint64 writer)"

definition bw_WriteString :: "gostring \<Rightarrow> (ByteWriter, unit) go" where
  "bw_WriteString value writer =
     (if IndexByte value 0 \<ge> 0 then (Inl (ByteBufferErr ErrEmbeddedNUL), writer)
      else if length value + 1 > MaxUint32
      then (Inl (Context ''string length'' (ByteBufferErr ErrValueTooLarge)), writer)
      else (Inr (), bw_append [0] (bw_append value (bw_writeType TypeString writer))))"

definition bw_WriteBlob :: "bytes \<Rightarrow> (ByteWriter, unit) go" where
  "bw_WriteBlob value writer =
     (if length value > MaxUint32
      then (Inl (Context ''blob length'' (ByteBufferErr ErrValueTooLarge)), writer)
      else (Inr (), bw_append value
              (bw_WriteUint32 (word_of_nat (length value)) (bw_writeType TypeBlob writer))))"

section \<open>ByteReader\<close>

record ByteReader =
  br_typeChecked :: bool
  br_data :: bytes
  br_offset :: nat

definition NewByteReader :: "bytes \<Rightarrow> bool \<Rightarrow> ByteReader" where
  "NewByteReader data typeChecked =
     \<lparr>br_typeChecked = typeChecked, br_data = data, br_offset = 0\<rparr>"

definition br_Remaining :: "ByteReader \<Rightarrow> int" where
  "br_Remaining reader = int (length (br_data reader)) - int (br_offset reader)"

definition br_read :: "int \<Rightarrow> (ByteReader, bytes) go" where
  "br_read len reader =
     (if len < 0 \<or> len > br_Remaining reader then (Inl (IoErr ErrUnexpectedEOF), reader)
      else let start = br_offset reader; stop = start + nat len
           in (Inr (slice start stop (br_data reader)), reader\<lparr>br_offset := stop\<rparr>))"

definition br_expect :: "DataType \<Rightarrow> (ByteReader, unit) go" where
  "br_expect expected reader =
     (if \<not> br_typeChecked reader then (Inr (), reader)
      else go_bind (br_read 1)
             (\<lambda>data. let actual = data ! 0
                     in if actual \<noteq> expected then go_fail (TypeErr expected actual)
                        else go_return ()) reader)"

text \<open>\<^verbatim>\<open>start := reader.offset ... reader.offset = start\<close> before every error return.\<close>

definition br_rewinding :: "(ByteReader, 'a) go \<Rightarrow> (ByteReader, 'a) go" where
  "br_rewinding m reader =
     (case m reader of
        (Inl e, reader') \<Rightarrow> (Inl e, reader'\<lparr>br_offset := br_offset reader\<rparr>)
      | (Inr a, reader') \<Rightarrow> (Inr a, reader'))"

definition br_ReadRaw :: "u32 \<Rightarrow> (ByteReader, bytes) go" where
  "br_ReadRaw len = br_rewinding (br_read (uint len))"

definition br_ReadUint8 :: "(ByteReader, byte) go" where
  "br_ReadUint8 = br_rewinding (go_bind (br_expect TypeUint8) (\<lambda>_.
     go_bind (br_read 1) (\<lambda>data. go_return (data ! 0))))"

definition br_ReadInt32 :: "(ByteReader, u32) go" where
  "br_ReadInt32 = br_rewinding (go_bind (br_expect TypeInt32) (\<lambda>_.
     go_bind (br_read 4) (\<lambda>data. go_return (LE_Uint32 data))))"

definition br_ReadUint32 :: "(ByteReader, u32) go" where
  "br_ReadUint32 = br_rewinding (go_bind (br_expect TypeUint32) (\<lambda>_.
     go_bind (br_read 4) (\<lambda>data. go_return (LE_Uint32 data))))"

definition br_ReadUint64 :: "(ByteReader, u64) go" where
  "br_ReadUint64 = br_rewinding (go_bind (br_expect TypeUint64) (\<lambda>_.
     go_bind (br_read 8) (\<lambda>data. go_return (LE_Uint64 data))))"

text \<open>The scan of \<^verbatim>\<open>ReadString\<close> for the terminator, after the type tag.\<close>

definition br_scan :: "u32 \<Rightarrow> (ByteReader, gostring) go" where
  "br_scan maxLength reader =
     (let remainder = drop (br_offset reader) (br_data reader);
          terminator = IndexByte remainder 0
      in if terminator < 0 then (Inl (ByteBufferErr ErrMissingNUL), reader)
         else if terminator > uint maxLength
         then (Inl (Context ''string length'' (ByteBufferErr ErrValueTooLarge)), reader)
         else (Inr (take (nat terminator) remainder),
               reader\<lparr>br_offset := br_offset reader + nat terminator + 1\<rparr>))"

definition br_ReadString :: "u32 \<Rightarrow> (ByteReader, gostring) go" where
  "br_ReadString maxLength =
     br_rewinding (go_bind (br_expect TypeString) (\<lambda>_. br_scan maxLength))"

definition br_ReadBlob :: "u32 \<Rightarrow> (ByteReader, bytes) go" where
  "br_ReadBlob maxLength = br_rewinding (go_bind (br_expect TypeBlob) (\<lambda>_.
     go_bind br_ReadUint32 (\<lambda>len.
       if len > maxLength
       then go_fail (Context ''blob length'' (ByteBufferErr ErrValueTooLarge))
       else br_read (uint len))))"

section \<open>The wire format\<close>

text \<open>What a value looks like on the wire, with and without type tags.\<close>

definition enc_type :: "bool \<Rightarrow> DataType \<Rightarrow> bytes" where
  "enc_type tc t = (if tc then [t] else [])"

definition enc_uint8 :: "bool \<Rightarrow> byte \<Rightarrow> bytes" where
  "enc_uint8 tc v = enc_type tc TypeUint8 @ [v]"

definition enc_int32 :: "bool \<Rightarrow> u32 \<Rightarrow> bytes" where
  "enc_int32 tc v = enc_type tc TypeInt32 @ LE_PutUint32 v"

definition enc_uint32 :: "bool \<Rightarrow> u32 \<Rightarrow> bytes" where
  "enc_uint32 tc v = enc_type tc TypeUint32 @ LE_PutUint32 v"

definition enc_uint64 :: "bool \<Rightarrow> u64 \<Rightarrow> bytes" where
  "enc_uint64 tc v = enc_type tc TypeUint64 @ LE_PutUint64 v"

definition enc_string :: "bool \<Rightarrow> gostring \<Rightarrow> bytes" where
  "enc_string tc s = enc_type tc TypeString @ s @ [0]"

definition enc_blob :: "bool \<Rightarrow> bytes \<Rightarrow> bytes" where
  "enc_blob tc b = enc_type tc TypeBlob @ enc_uint32 tc (word_of_nat (length b)) @ b"

lemma length_enc_type: "length (enc_type tc t) = (if tc then 1 else 0)"
  by (simp add: enc_type_def)

lemmas enc_defs = enc_uint8_def enc_int32_def enc_uint32_def enc_uint64_def enc_string_def
  enc_blob_def

lemma length_enc:
  "length (enc_uint8 tc v8) = (if tc then 2 else 1)"
  "length (enc_int32 tc i32) = (if tc then 5 else 4)"
  "length (enc_uint32 tc v32) = (if tc then 5 else 4)"
  "length (enc_uint64 tc v64) = (if tc then 9 else 8)"
  "length (enc_string tc s) = length s + (if tc then 2 else 1)"
  "length (enc_blob tc b) = length b + (if tc then 6 else 4)"
  by (simp_all add: enc_defs enc_type_def)

section \<open>Writing appends the encoding\<close>

lemma bw_append_fields [simp]:
  "bw_typeChecked (bw_append bs w) = bw_typeChecked w"
  "bw_data (bw_append bs w) = bw_data w @ bs"
  by (simp_all add: bw_append_def)

lemma bw_append_append [simp]: "bw_append ys (bw_append xs w) = bw_append (xs @ ys) w"
  by (simp add: bw_append_def)

lemma bw_writeType_eq: "bw_writeType t w = bw_append (enc_type (bw_typeChecked w) t) w"
  by (simp add: bw_writeType_def enc_type_def bw_append_def)

lemma bw_write_eq:
  "bw_WriteUint8 v8 w = bw_append (enc_uint8 (bw_typeChecked w) v8) w"
  "bw_WriteInt32 i32 w = bw_append (enc_int32 (bw_typeChecked w) i32) w"
  "bw_WriteUint32 v32 w = bw_append (enc_uint32 (bw_typeChecked w) v32) w"
  "bw_WriteUint64 v64 w = bw_append (enc_uint64 (bw_typeChecked w) v64) w"
  "bw_WriteRaw b w = bw_append b w"
  by (simp_all add: bw_WriteUint8_def bw_WriteInt32_def bw_WriteUint32_def bw_WriteUint64_def
      bw_WriteRaw_def bw_writeType_eq enc_defs)

lemma bw_WriteString_eq:
  "bw_WriteString s w = (Inr (), w') \<longleftrightarrow>
     0 \<notin> set s \<and> length s < MaxUint32 \<and> w' = bw_append (enc_string (bw_typeChecked w) s) w"
  by (auto simp: bw_WriteString_def bw_writeType_eq enc_string_def linorder_not_less[symmetric])

lemma bw_WriteBlob_eq:
  "bw_WriteBlob b w = (Inr (), w') \<longleftrightarrow>
     length b \<le> MaxUint32 \<and> w' = bw_append (enc_blob (bw_typeChecked w) b) w"
  by (auto simp: bw_WriteBlob_def bw_writeType_eq bw_write_eq enc_blob_def)

section \<open>Reading: what a reader accepts\<close>

definition br_wf :: "ByteReader \<Rightarrow> bool" where
  "br_wf r \<longleftrightarrow> br_offset r \<le> length (br_data r)"

definition br_rest :: "ByteReader \<Rightarrow> bytes" where
  "br_rest r = drop (br_offset r) (br_data r)"

definition br_advance :: "nat \<Rightarrow> ByteReader \<Rightarrow> ByteReader" where
  "br_advance n r = r\<lparr>br_offset := br_offset r + n\<rparr>"

lemma br_advance_fields [simp]:
  "br_typeChecked (br_advance n r) = br_typeChecked r"
  "br_data (br_advance n r) = br_data r"
  "br_offset (br_advance n r) = br_offset r + n"
  by (simp_all add: br_advance_def)

lemma br_advance_0 [simp]: "br_advance 0 r = r"
  by (simp add: br_advance_def)

lemma br_advance_advance [simp]: "br_advance m (br_advance n r) = br_advance (n + m) r"
  by (simp add: br_advance_def add.assoc)

lemma br_rest_advance: "br_rest (br_advance n r) = drop n (br_rest r)"
  by (simp add: br_rest_def add.commute)

lemma br_Remaining_rest: "br_wf r \<Longrightarrow> br_Remaining r = int (length (br_rest r))"
  by (simp add: br_wf_def br_Remaining_def br_rest_def)

lemma br_wf_advance: "br_wf r \<Longrightarrow> prefix bs (br_rest r) \<Longrightarrow> br_wf (br_advance (length bs) r)"
  by (auto simp: br_wf_def br_rest_def dest: prefix_length_le)

lemma br_wf_New [simp]: "br_wf (NewByteReader data tc)"
  and br_rest_New [simp]: "br_rest (NewByteReader data tc) = data"
  and br_fields_New [simp]: "br_typeChecked (NewByteReader data tc) = tc"
  by (simp_all add: br_wf_def br_rest_def NewByteReader_def)

interpretation byte_reader:
  stream_reader br_wf br_rest br_typeChecked
    "\<lambda>n tc r. br_advance n r\<lparr>br_typeChecked := tc\<rparr>"
  by unfold_locales (auto simp: br_wf_def br_rest_def br_advance_def add.assoc add.commute)

text \<open>
  A byte reader never changes its mode: \<open>E tc v bs\<close> says that \<open>bs\<close> is an encoding of \<open>v\<close>.
\<close>

definition recognises :: "(ByteReader, 'a) go \<Rightarrow> (bool \<Rightarrow> 'a \<Rightarrow> bytes \<Rightarrow> bool) \<Rightarrow> bool" where
  "recognises d E \<longleftrightarrow> byte_reader.recog d (\<lambda>tc v bs tc'. E tc v bs \<and> tc' = tc)"

lemma br_advance_same_mode [simp]: "br_advance n r\<lparr>br_typeChecked := br_typeChecked r\<rparr> = br_advance n r"
  by (simp add: br_advance_def)

lemma recognisesI:
  assumes "\<And>r v r'. br_wf r \<Longrightarrow> d r = (Inr v, r') \<longleftrightarrow>
     (\<exists>bs. E (br_typeChecked r) v bs \<and> prefix bs (br_rest r) \<and> r' = br_advance (length bs) r)"
  shows "recognises d E"
  unfolding recognises_def by (rule byte_reader.recogI) (auto simp: assms)

lemma recognisesD:
  "recognises d E \<Longrightarrow> br_wf r \<Longrightarrow> d r = (Inr v, r') \<longleftrightarrow>
     (\<exists>bs. E (br_typeChecked r) v bs \<and> prefix bs (br_rest r) \<and> r' = br_advance (length bs) r)"
  unfolding recognises_def by (auto simp: byte_reader.recogD)

lemma recognises_return [recognise_intros]: "recognises (go_return a) (\<lambda>tc v bs. v = a \<and> bs = [])"
  and recognises_fail [recognise_intros]: "recognises (go_fail e) (\<lambda>tc v bs. False)"
  unfolding recognises_def
  by (rule byte_reader.recog_cong, rule byte_reader.recog_rules, auto)+

lemma recognises_bind [recognise_intros]:
  "recognises d D \<Longrightarrow> (\<And>a. recognises (f a) (F a)) \<Longrightarrow>
   recognises (go_bind d f) (\<lambda>tc v bs. \<exists>a b1 b2. D tc a b1 \<and> F a tc v b2 \<and> bs = b1 @ b2)"
  unfolding recognises_def
  by (rule byte_reader.recog_cong, rule byte_reader.recog_bind, assumption+) auto

lemma recognises_wrap [recognise_intros]: "recognises d E \<Longrightarrow> recognises (go_wrap w d) E"
  unfolding recognises_def by (rule byte_reader.recog_wrap)

lemma recognises_if [recognise_intros]:
  "recognises d D \<Longrightarrow> recognises e E \<Longrightarrow>
   recognises (if c then d else e) (\<lambda>tc v bs. if c then D tc v bs else E tc v bs)"
  by simp

lemma br_rewinding_eq_Inr [simp]: "br_rewinding m r = (Inr v, r') \<longleftrightarrow> m r = (Inr v, r')"
  by (auto simp: br_rewinding_def split: prod.splits sum.splits)

lemma recognises_rewinding [recognise_intros]: "recognises d E \<Longrightarrow> recognises (br_rewinding d) E"
  by (simp add: recognises_def byte_reader.recog_def)

lemma recognises_cong:
  "recognises d E \<Longrightarrow> (\<And>tc v bs. E tc v bs = E' tc v bs) \<Longrightarrow> recognises d E'"
  by (simp add: recognises_def)

lemma br_rewinding_Inl:
  assumes "br_rewinding m r = (Inl e, r')"
    and frame: "\<And>x s. m r = (x, s) \<Longrightarrow> br_typeChecked s = br_typeChecked r \<and> br_data s = br_data r"
  shows "r' = r"
proof -
  from assms(1) obtain s where m: "m r = (Inl e, s)" and r': "r' = s\<lparr>br_offset := br_offset r\<rparr>"
    by (auto simp: br_rewinding_def split: prod.splits sum.splits)
  from frame [OF m] r' show ?thesis by simp
qed

subsection \<open>The primitive reads\<close>

lemma recognises_read [recognise_intros]: "recognises (br_read n) (\<lambda>tc v bs. bs = v \<and> int (length v) = n)"
proof (rule recognisesI)
  fix r v r'
  assume wf: "br_wf r"
  have cond: "n < 0 \<or> n > br_Remaining r \<longleftrightarrow> \<not> (0 \<le> n \<and> nat n \<le> length (br_rest r))"
    using wf by (auto simp: br_Remaining_rest)
  show "br_read n r = (Inr v, r') \<longleftrightarrow>
      (\<exists>bs. (bs = v \<and> int (length v) = n) \<and> prefix bs (br_rest r) \<and> r' = br_advance (length bs) r)"
  proof (cases "0 \<le> n \<and> nat n \<le> length (br_rest r)")
    case True
    then have "br_read n r = (Inr (take (nat n) (br_rest r)), br_advance (nat n) r)"
      using cond by (simp add: br_read_def slice_def br_rest_def br_advance_def Let_def)
    with True show ?thesis
      by (auto simp: prefix_def append_eq_conv_conj take_is_prefix)
        (metis append_take_drop_id)+
  next
    case False
    then have "br_read n r = (Inl (IoErr ErrUnexpectedEOF), r)"
      using cond by (simp add: br_read_def)
    with False show ?thesis
      by (auto dest: prefix_length_le)
  qed
qed

lemma recognises_expect [recognise_intros]:
  "recognises (br_expect t) (\<lambda>tc v bs. bs = enc_type tc t)"
proof -
  have "recognises (go_bind (br_read 1) (\<lambda>d. let a = d ! 0 in
          if a \<noteq> t then go_fail (TypeErr t a) else go_return ()))
        (\<lambda>tc v bs. bs = [t])"
    unfolding Let_def
    by (rule recognises_cong, (rule recognise_intros)+) (auto simp: length_Suc_conv)
  from recognisesD [OF this] show ?thesis
    by (intro recognisesI) (auto simp: br_expect_def enc_type_def)
qed

lemma recognises_ReadRaw [recognise_intros]:
  "recognises (br_ReadRaw n) (\<lambda>tc v bs. bs = v \<and> length v = unat n)"
  unfolding br_ReadRaw_def
  by (rule recognises_cong, (rule recognise_intros)+) (auto simp: int_eq_uint_iff)

lemma length_1_conv: "length xs = Suc 0 \<longleftrightarrow> xs = [xs ! 0]"
  by (cases xs) auto

lemma recognises_fixed_word:
  assumes "8 * n = LENGTH('a::len)"
  shows "recognises (br_rewinding (go_bind (br_expect t) (\<lambda>_.
       go_bind (br_read (int n)) (\<lambda>data. go_return (le_word data)))))
     (\<lambda>tc (v :: 'a word) bs. bs = enc_type tc t @ le_bytes n v)"
  by (rule recognises_cong, (rule recognise_intros)+) (use assms in auto)

lemma recognises_ReadUint8 [recognise_intros]:
  "recognises br_ReadUint8 (\<lambda>tc v bs. bs = enc_uint8 tc v)"
  unfolding br_ReadUint8_def enc_uint8_def
  by (rule recognises_cong, (rule recognise_intros)+) (auto simp: length_1_conv)

lemma recognises_ReadInt32 [recognise_intros]:
  "recognises br_ReadInt32 (\<lambda>tc v bs. bs = enc_int32 tc v)"
  using recognises_fixed_word [where 'a = 32 and n = 4]
  by (simp add: br_ReadInt32_def enc_int32_def)

lemma recognises_ReadUint32 [recognise_intros]:
  "recognises br_ReadUint32 (\<lambda>tc v bs. bs = enc_uint32 tc v)"
  using recognises_fixed_word [where 'a = 32 and n = 4]
  by (simp add: br_ReadUint32_def enc_uint32_def)

lemma recognises_ReadUint64 [recognise_intros]:
  "recognises br_ReadUint64 (\<lambda>tc v bs. bs = enc_uint64 tc v)"
  using recognises_fixed_word [where 'a = 64 and n = 8]
  by (simp add: br_ReadUint64_def enc_uint64_def)

lemma br_scan_nul:
  assumes "br_rest r = s @ 0 # t" and "0 \<notin> set s"
  shows "br_scan m r =
    (if length s \<le> unat m then (Inr s, br_advance (length s + 1) r)
     else (Inl (Context ''string length'' (ByteBufferErr ErrValueTooLarge)), r))"
  using assms by (simp add: br_scan_def br_rest_def br_advance_def Let_def uint_less_int_iff)

lemma br_scan_no_nul: "0 \<notin> set (br_rest r) \<Longrightarrow> br_scan m r = (Inl (ByteBufferErr ErrMissingNUL), r)"
  by (simp add: br_scan_def br_rest_def Let_def)

lemma recognises_scan [recognise_intros]:
  "recognises (br_scan m) (\<lambda>tc v bs. 0 \<notin> set v \<and> length v \<le> unat m \<and> bs = v @ [0])"
proof (rule recognisesI)
  fix r v r'
  show "br_scan m r = (Inr v, r') \<longleftrightarrow> (\<exists>bs. (0 \<notin> set v \<and> length v \<le> unat m \<and> bs = v @ [0]) \<and>
      prefix bs (br_rest r) \<and> r' = br_advance (length bs) r)"
  proof (cases "0 \<in> set (br_rest r)")
    case False
    then show ?thesis by (auto simp: br_scan_no_nul dest: set_mono_prefix)
  next
    case True
    then obtain s t where rest: "br_rest r = s @ 0 # t" and s: "0 \<notin> set s"
      by (meson split_list_first)
    have "v = s" if "0 \<notin> set v" and "prefix (v @ [0]) (s @ 0 # t)"
      using that s by (auto simp: prefix_def append_eq_append_conv2 Cons_eq_append_conv
          append_eq_Cons_conv)
    with rest s show ?thesis by (auto simp: br_scan_nul [OF rest s] prefix_def split: if_splits)
  qed
qed

lemma recognises_ReadString [recognise_intros]:
  "recognises (br_ReadString m)
     (\<lambda>tc v bs. (0 \<notin> set v \<and> length v \<le> unat m) \<and> bs = enc_string tc v)"
  unfolding br_ReadString_def enc_string_def
  by (rule recognises_cong, (rule recognise_intros)+) auto

lemma recognises_ReadBlob [recognise_intros]:
  "recognises (br_ReadBlob m) (\<lambda>tc v bs. length v \<le> unat m \<and> bs = enc_blob tc v)"
proof -
  have len: "\<not> unat m < unat (word_of_nat (length v) :: u32)" "unat (word_of_nat (length v) :: u32) = length v"
    if "length v \<le> unat m" for v :: bytes
    using that order_trans [OF that unat_u32_bound] by auto
  have wd: "(length v = unat n) = (unat n = length v \<and> n = word_of_nat (length v))" for v :: bytes and n :: u32
    by auto
  show ?thesis
    unfolding br_ReadBlob_def enc_blob_def
    apply (rule recognises_cong, (rule recognise_intros)+)
    apply (auto simp: int_eq_uint_iff word_less_nat_alt wd len)
    subgoal for tc v by (rule exI [of _ "word_of_nat (length v)"]) (simp add: len)
    done
qed

lemma read_bounds_of:
  assumes "recognises rd E" and "\<And>e r'. rd r = (Inl e, r') \<Longrightarrow> r' = r" and "br_wf r"
  shows "br_wf (snd (rd r)) \<and> br_offset r \<le> br_offset (snd (rd r))"
proof (cases "fst (rd r)")
  case (Inl e)
  then show ?thesis using assms(2) [of e "snd (rd r)"] assms(3) by (simp add: prod_eq_iff)
next
  case (Inr v)
  then have "rd r = (Inr v, snd (rd r))" by (simp add: prod_eq_iff)
  then show ?thesis
    unfolding recognisesD [OF assms(1,3)] by (metis br_advance_fields(3) br_wf_advance [OF assms(3)] le_add1)
qed

section \<open>The two sides of the wire\<close>

text \<open>
  The contract between one write operation and one read operation of the same type of value:
  writing appends the encoding, reading accepts exactly the encodings of the allowed values, and
  a failed read leaves the reader unchanged.
\<close>

locale wire_field =
  fixes wr :: "'a \<Rightarrow> (ByteWriter, unit) go"
    and rd :: "(ByteReader, 'a) go"
    and enc :: "bool \<Rightarrow> 'a \<Rightarrow> bytes"
    and ok :: "'a \<Rightarrow> bool"
  assumes wr_appends: "wr v w = (Inr (), w') \<Longrightarrow> w' = bw_append (enc (bw_typeChecked w) v) w"
    and rd_recognises: "recognises rd (\<lambda>tc v bs. ok v \<and> bs = enc tc v)"
    and rewind: "rd r = (Inl e, r') \<Longrightarrow> r' = r"
begin

lemma read_iff:
  "br_wf r \<Longrightarrow> rd r = (Inr v, r') \<longleftrightarrow>
     ok v \<and> prefix (enc (br_typeChecked r) v) (br_rest r) \<and>
     r' = br_advance (length (enc (br_typeChecked r) v)) r"
  using recognisesD [OF rd_recognises] by auto

text \<open>What was written is read back, whatever was written before and after it.\<close>

lemma read_back:
  assumes "wr v w = (Inr (), w')" and "ok v"
  shows "rd \<lparr>br_typeChecked = bw_typeChecked w, br_data = bw_data w' @ rest,
              br_offset = length (bw_data w)\<rparr>
    = (Inr v, \<lparr>br_typeChecked = bw_typeChecked w, br_data = bw_data w' @ rest,
               br_offset = length (bw_data w')\<rparr>)"
  using wr_appends [OF assms(1)] assms(2)
  by (subst read_iff) (auto simp: br_wf_def br_rest_def br_advance_def)

text \<open>A read never runs past the data, and never moves on an error.\<close>

lemma read_bounds:
  assumes "br_wf r"
  shows "br_wf (snd (rd r)) \<and> br_offset r \<le> br_offset (snd (rd r))"
  by (rule read_bounds_of [OF rd_recognises rewind assms])

end

text \<open>The reader operations keep the data and the type-check mode, so a rewound one changes nothing.\<close>

definition br_framed :: "(ByteReader, 'a) go \<Rightarrow> bool" where
  "br_framed m \<longleftrightarrow> (\<forall>r x s. m r = (x, s) \<longrightarrow>
     br_typeChecked s = br_typeChecked r \<and> br_data s = br_data r)"

lemma br_framedI:
  "(\<And>r x s. m r = (x, s) \<Longrightarrow> br_typeChecked s = br_typeChecked r \<and> br_data s = br_data r) \<Longrightarrow>
   br_framed m"
  by (simp add: br_framed_def)

lemma br_framedD:
  "br_framed m \<Longrightarrow> m r = (x, s) \<Longrightarrow> br_typeChecked s = br_typeChecked r \<and> br_data s = br_data r"
  by (simp add: br_framed_def)

lemma br_framed_bind:
  assumes m: "br_framed m" and f: "\<And>a. br_framed (f a)"
  shows "br_framed (go_bind m f)"
proof (rule br_framedI)
  fix r x s
  assume "go_bind m f r = (x, s)"
  then consider (fails) x' where "m r = (x', s)" | (continues) a r1 where "m r = (Inr a, r1)" and "f a r1 = (x, s)"
    by (auto simp: go_bind_def split: prod.splits sum.splits)
  then show "br_typeChecked s = br_typeChecked r \<and> br_data s = br_data r"
    by cases (use br_framedD [OF m] br_framedD [OF f] in metis)+
qed

lemma br_framed_rewinding: "br_framed m \<Longrightarrow> br_framed (br_rewinding m)"
  by (rule br_framedI) (auto simp: br_rewinding_def split: prod.splits sum.splits dest!: br_framedD)

lemma br_framed_if: "br_framed m \<Longrightarrow> br_framed n \<Longrightarrow> br_framed (if b then m else n)"
  by simp

lemma br_framed_basic:
  "br_framed (go_return a)" "br_framed (go_fail e)" "br_framed (br_read n)" "br_framed (br_scan m)"
  by (auto intro!: br_framedI simp: br_read_def br_scan_def Let_def split: if_splits)

lemma br_framed_expect: "br_framed (br_expect t)"
proof -
  have "br_framed (go_bind (br_read 1) (\<lambda>d. let a = d ! 0 in
          if a \<noteq> t then go_fail (TypeErr t a) else go_return ()))"
    unfolding Let_def by (intro br_framed_bind br_framed_if br_framed_basic)
  then show ?thesis
    by (auto simp: br_framed_def br_expect_def)
qed

lemmas br_framed_rules =
  br_framed_basic br_framed_expect br_framed_bind br_framed_rewinding br_framed_if

lemma br_framed_reads:
  "br_framed (br_ReadRaw n)" "br_framed br_ReadUint8" "br_framed br_ReadInt32"
  "br_framed br_ReadUint32" "br_framed br_ReadUint64" "br_framed (br_ReadString m)"
  "br_framed (br_ReadBlob m)"
  unfolding br_ReadRaw_def br_ReadUint8_def br_ReadInt32_def br_ReadUint32_def br_ReadUint64_def
    br_ReadString_def br_ReadBlob_def
  by (intro br_framed_rules)+

lemma br_rewinding_rewinds:
  assumes "br_framed m" and "br_rewinding m r = (Inl e, r')"
  shows "r' = r"
  by (rule br_rewinding_Inl [OF assms(2)]) (rule br_framedD [OF assms(1)])

lemma br_reads_rewind:
  "br_ReadRaw n r = (Inl e, r') \<Longrightarrow> r' = r"
  "br_ReadUint8 r = (Inl e, r') \<Longrightarrow> r' = r"
  "br_ReadInt32 r = (Inl e, r') \<Longrightarrow> r' = r"
  "br_ReadUint32 r = (Inl e, r') \<Longrightarrow> r' = r"
  "br_ReadUint64 r = (Inl e, r') \<Longrightarrow> r' = r"
  "br_ReadString m r = (Inl e, r') \<Longrightarrow> r' = r"
  "br_ReadBlob m r = (Inl e, r') \<Longrightarrow> r' = r"
  unfolding br_ReadRaw_def br_ReadUint8_def br_ReadInt32_def br_ReadUint32_def br_ReadUint64_def
    br_ReadString_def br_ReadBlob_def
  by (erule br_rewinding_rewinds [rotated], intro br_framed_rules)+

interpretation wire_uint8:
  wire_field "\<lambda>v w. (Inr (), bw_WriteUint8 v w)" br_ReadUint8 enc_uint8 "\<lambda>_. True"
  using recognises_ReadUint8 by unfold_locales (auto simp: bw_write_eq br_reads_rewind)

interpretation wire_int32:
  wire_field "\<lambda>v w. (Inr (), bw_WriteInt32 v w)" br_ReadInt32 enc_int32 "\<lambda>_. True"
  using recognises_ReadInt32 by unfold_locales (auto simp: bw_write_eq br_reads_rewind)

interpretation wire_uint32:
  wire_field "\<lambda>v w. (Inr (), bw_WriteUint32 v w)" br_ReadUint32 enc_uint32 "\<lambda>_. True"
  using recognises_ReadUint32 by unfold_locales (auto simp: bw_write_eq br_reads_rewind)

interpretation wire_uint64:
  wire_field "\<lambda>v w. (Inr (), bw_WriteUint64 v w)" br_ReadUint64 enc_uint64 "\<lambda>_. True"
  using recognises_ReadUint64 by unfold_locales (auto simp: bw_write_eq br_reads_rewind)

interpretation wire_string:
  wire_field bw_WriteString "br_ReadString m" enc_string "\<lambda>v. 0 \<notin> set v \<and> length v \<le> unat m" for m
  using recognises_ReadString
  by unfold_locales (auto simp: bw_WriteString_eq br_reads_rewind)

interpretation wire_blob:
  wire_field bw_WriteBlob "br_ReadBlob m" enc_blob "\<lambda>v. length v \<le> unat m" for m
  using recognises_ReadBlob
  by unfold_locales (auto simp: bw_WriteBlob_eq br_reads_rewind)

section \<open>Properties\<close>

text \<open>A read keeps the reader inside its data, does not go back, and does not move when it fails.\<close>

definition reads_safely :: "(ByteReader, 'a) go \<Rightarrow> ByteReader \<Rightarrow> bool" where
  "reads_safely rd r \<longleftrightarrow>
     br_wf (snd (rd r)) \<and> br_offset r \<le> br_offset (snd (rd r)) \<and>
     (case fst (rd r) of Inl _ \<Rightarrow> snd (rd r) = r | Inr _ \<Rightarrow> True)"

lemma reads_safelyI:
  assumes "recognises rd E" and "\<And>e r'. rd r = (Inl e, r') \<Longrightarrow> r' = r" and "br_wf r"
  shows "reads_safely rd r"
  using read_bounds_of [OF assms] assms(2)
  by (cases "rd r") (auto simp: reads_safely_def split: sum.splits)

lemma byte_reads_safe:
  assumes "br_wf r"
  shows "reads_safely br_ReadUint8 r" "reads_safely br_ReadInt32 r" "reads_safely br_ReadUint32 r"
    "reads_safely br_ReadUint64 r" "reads_safely (br_ReadString m) r"
    "reads_safely (br_ReadBlob m) r" "reads_safely (br_ReadRaw m) r"
  by (rule reads_safelyI [OF recognises_ReadUint8 _ assms]
      reads_safelyI [OF recognises_ReadInt32 _ assms] reads_safelyI [OF recognises_ReadUint32 _ assms]
      reads_safelyI [OF recognises_ReadUint64 _ assms] reads_safelyI [OF recognises_ReadString _ assms]
      reads_safelyI [OF recognises_ReadBlob _ assms] reads_safelyI [OF recognises_ReadRaw _ assms];
    erule br_reads_rewind)+

text \<open>C35: no read of the byte reader runs past its data, and a read that fails leaves the reader
  exactly where it was.\<close>

theorem byte_reads_stay_in_bounds:
  assumes "br_wf r"
  shows "reads_safely br_ReadUint8 r \<and> reads_safely br_ReadInt32 r \<and> reads_safely br_ReadUint32 r \<and>
    reads_safely br_ReadUint64 r \<and> reads_safely (br_ReadString m) r \<and>
    reads_safely (br_ReadBlob m) r \<and> reads_safely (br_ReadRaw m) r"
  using byte_reads_safe [OF assms] by blast

theorem byte_reads_stay_in_bounds_witness:
  "reads_safely (br_ReadString 4) (NewByteReader [65, 66, 67] False)"
  using byte_reads_stay_in_bounds [of "NewByteReader [65, 66, 67] False"] by simp

text \<open>A string is read exactly when the unread data begins with its encoding (the tag when the
  reader checks types, the bytes, the terminator), it has no NUL inside and at most \<open>m\<close> bytes;
  the reader then stands right after the terminator.\<close>

theorem ReadString_exact:
  assumes "br_wf r"
  shows "br_ReadString m r = (Inr s, r') \<longleftrightarrow>
    0 \<notin> set s \<and> length s \<le> unat m \<and>
    prefix ((if br_typeChecked r then [0x10] else []) @ s @ [0]) (drop (br_offset r) (br_data r)) \<and>
    r' = r\<lparr>br_offset := br_offset r + (if br_typeChecked r then 2 else 1) + length s\<rparr>"
  using wire_string.read_iff [OF assms, of m s r']
  by (auto simp: enc_string_def enc_type_def TypeString_def br_rest_def br_advance_def)

theorem ReadString_exact_witness:
  "br_ReadString 8 (NewByteReader [0x10, 104, 105, 0, 7] True) =
     (Inr [104, 105], \<lparr>br_typeChecked = True, br_data = [0x10, 104, 105, 0, 7], br_offset = 4\<rparr>)"
  using ReadString_exact [of "NewByteReader [0x10, 104, 105, 0, 7] True" 8 "[104, 105]"
     "\<lparr>br_typeChecked = True, br_data = [0x10, 104, 105, 0, 7], br_offset = 4\<rparr>"]
  by (simp add: NewByteReader_def br_wf_def)

end
