(* ===== verification/Bit_Buffer.thy ===== *)
theory Bit_Buffer
  imports Byte_Buffer
begin

text \<open>
  \<^verbatim>\<open>internal/online/bitdemon/bitbuffer.go\<close>: the bit stream of authentication messages, least
  significant bit first. The loops of \<^verbatim>\<open>writeBits\<close> and \<^verbatim>\<open>readBits\<close> move one bit at a time between
  byte arrays; they are shown to append to, and to take from, a list of bits. A bit offset is a
  natural number: the code's \<^verbatim>\<open>uint64\<close> cannot overflow below a slice of 2^61 bytes.
\<close>

section \<open>BitWriter\<close>

definition bitModeTypeWidth :: nat where "bitModeTypeWidth = 5"

record BitWriter =
  btw_typeChecked :: bool
  btw_data :: bytes
  btw_bitOffset :: nat

definition NewBitWriter :: "bool \<Rightarrow> BitWriter" where
  "NewBitWriter typeChecked =
     \<lparr>btw_typeChecked = typeChecked, btw_data = [], btw_bitOffset = 0\<rparr>"

definition btw_SetTypeChecked :: "bool \<Rightarrow> BitWriter \<Rightarrow> BitWriter" where
  "btw_SetTypeChecked typeChecked writer = writer\<lparr>btw_typeChecked := typeChecked\<rparr>"

definition btw_Bytes :: "BitWriter \<Rightarrow> bytes" where
  "btw_Bytes writer = btw_data writer"

text \<open>\<^verbatim>\<open>data[i/8] |= 1 << (i%8)\<close> and \<^verbatim>\<open>data[i/8] & (1 << (i%8)) != 0\<close>.\<close>

definition or_bit :: "nat \<Rightarrow> bytes \<Rightarrow> bytes" where
  "or_bit i data = data[i div 8 := data ! (i div 8) OR push_bit (i mod 8) 1]"

definition test_bit_at :: "bytes \<Rightarrow> nat \<Rightarrow> bool" where
  "test_bit_at data i \<longleftrightarrow> data ! (i div 8) AND push_bit (i mod 8) 1 \<noteq> 0"

text \<open>One iteration of the loop of \<^verbatim>\<open>writeBits\<close>.\<close>

definition btw_writeBit :: "nat \<Rightarrow> bool \<Rightarrow> bytes \<Rightarrow> bytes" where
  "btw_writeBit outputBit b data =
     (let data' = (if outputBit div 8 = length data then data @ [0] else data)
      in if b then or_bit outputBit data' else data')"

definition btw_writeBits :: "bytes \<Rightarrow> nat \<Rightarrow> BitWriter \<Rightarrow> BitWriter" where
  "btw_writeBits value count writer =
     writer\<lparr>btw_data :=
               fold (\<lambda>bit. btw_writeBit (btw_bitOffset writer + bit) (test_bit_at value bit))
                 [0..<count] (btw_data writer),
             btw_bitOffset := btw_bitOffset writer + count\<rparr>"

definition btw_WriteTypeCheckedFlag :: "BitWriter \<Rightarrow> BitWriter" where
  "btw_WriteTypeCheckedFlag writer =
     (if btw_typeChecked writer then btw_writeBits [1] 1 writer else btw_writeBits [0] 1 writer)"

definition btw_writeType :: "DataType \<Rightarrow> BitWriter \<Rightarrow> BitWriter" where
  "btw_writeType dataType writer =
     (if btw_typeChecked writer then btw_writeBits [dataType] bitModeTypeWidth writer else writer)"

definition btw_WriteRaw :: "bytes \<Rightarrow> BitWriter \<Rightarrow> BitWriter" where
  "btw_WriteRaw value writer = btw_writeBits value (length value * 8) writer"

definition btw_WriteUint8 :: "byte \<Rightarrow> BitWriter \<Rightarrow> BitWriter" where
  "btw_WriteUint8 value writer = btw_writeBits [value] 8 (btw_writeType TypeUint8 writer)"

definition btw_WriteUint32 :: "u32 \<Rightarrow> BitWriter \<Rightarrow> BitWriter" where
  "btw_WriteUint32 value writer =
     btw_writeBits (LE_PutUint32 value) 32 (btw_writeType TypeUint32 writer)"

section \<open>BitReader\<close>

record BitReader =
  btr_typeChecked :: bool
  btr_data :: bytes
  btr_bitOffset :: nat

definition NewBitReader :: "bytes \<Rightarrow> BitReader" where
  "NewBitReader data = \<lparr>btr_typeChecked = False, btr_data = data, btr_bitOffset = 0\<rparr>"

definition btr_SetTypeChecked :: "bool \<Rightarrow> (BitReader, unit) go" where
  "btr_SetTypeChecked typeChecked reader = (Inr (), reader\<lparr>btr_typeChecked := typeChecked\<rparr>)"

definition btr_RemainingBits :: "BitReader \<Rightarrow> nat" where
  "btr_RemainingBits reader = length (btr_data reader) * 8 - btr_bitOffset reader"

definition btr_readBits :: "nat \<Rightarrow> (BitReader, bytes) go" where
  "btr_readBits count reader =
     (if count > btr_RemainingBits reader then (Inl (IoErr ErrUnexpectedEOF), reader)
      else let resultBytes = (if count mod 8 \<noteq> 0 then count div 8 + 1 else count div 8);
               result = fold (\<lambda>bit res.
                   if test_bit_at (btr_data reader) (btr_bitOffset reader + bit)
                   then or_bit bit res else res)
                 [0..<count] (replicate resultBytes 0)
           in (Inr result, reader\<lparr>btr_bitOffset := btr_bitOffset reader + count\<rparr>))"

definition btr_ReadTypeCheckedFlag :: "(BitReader, bool) go" where
  "btr_ReadTypeCheckedFlag = go_bind (btr_readBits 1) (\<lambda>value.
     let flag = (value ! 0 AND 1 \<noteq> 0)
     in go_bind (btr_SetTypeChecked flag) (\<lambda>_. go_return flag))"

definition btr_ReadRaw :: "u32 \<Rightarrow> (BitReader, bytes) go" where
  "btr_ReadRaw len reader =
     (let requiredBits = unat len * 8
      in if requiredBits > btr_RemainingBits reader then (Inl (IoErr ErrUnexpectedEOF), reader)
         else btr_readBits requiredBits reader)"

definition btr_expect :: "DataType \<Rightarrow> (BitReader, unit) go" where
  "btr_expect expected reader =
     (if \<not> btr_typeChecked reader then (Inr (), reader)
      else go_bind (btr_readBits bitModeTypeWidth)
             (\<lambda>encoded. let actual = encoded ! 0
                        in if actual \<noteq> expected then go_fail (TypeErr expected actual)
                           else go_return ()) reader)"

definition btr_rewinding :: "(BitReader, 'a) go \<Rightarrow> (BitReader, 'a) go" where
  "btr_rewinding m reader =
     (case m reader of
        (Inl e, reader') \<Rightarrow> (Inl e, reader'\<lparr>btr_bitOffset := btr_bitOffset reader\<rparr>)
      | (Inr a, reader') \<Rightarrow> (Inr a, reader'))"

definition btr_ReadUint32 :: "(BitReader, u32) go" where
  "btr_ReadUint32 = btr_rewinding (go_bind (btr_expect TypeUint32) (\<lambda>_.
     go_bind (btr_readBits 32) (\<lambda>value. go_return (LE_Uint32 value))))"

definition btr_ReadUint64 :: "(BitReader, u64) go" where
  "btr_ReadUint64 = btr_rewinding (go_bind (btr_expect TypeUint64) (\<lambda>_.
     go_bind (btr_readBits 64) (\<lambda>value. go_return (LE_Uint64 value))))"

section \<open>Bits of a byte string\<close>

definition bytes_bits :: "bytes \<Rightarrow> bool list" where
  "bytes_bits data = map (\<lambda>i. bit (data ! (i div 8)) (i mod 8)) [0..<8 * length data]"

text \<open>The shortest byte string that holds a list of bits, padded with zero bits.\<close>

definition byte_of_bits :: "bool list \<Rightarrow> byte" where
  "byte_of_bits bs = fold (\<lambda>j w. if bs ! j then w OR push_bit j 1 else w) [0..<min 8 (length bs)] 0"

definition pack :: "bool list \<Rightarrow> bytes" where
  "pack bs = map (\<lambda>k. byte_of_bits (drop (8 * k) bs)) [0..<(length bs + 7) div 8]"

lemma length_bytes_bits [simp]: "length (bytes_bits data) = 8 * length data"
  by (simp add: bytes_bits_def)

lemma nth_bytes_bits: "i < 8 * length data \<Longrightarrow> bytes_bits data ! i = bit (data ! (i div 8)) (i mod 8)"
  by (simp add: bytes_bits_def)

lemma length_pack [simp]: "length (pack bs) = (length bs + 7) div 8"
  by (simp add: pack_def)

lemma bytes_bits_Nil [simp]: "bytes_bits [] = []"
  by (simp add: bytes_bits_def)

lemma bytes_bits_append [simp]: "bytes_bits (xs @ ys) = bytes_bits xs @ bytes_bits ys"
proof (rule nth_equalityI)
  fix i
  assume i: "i < length (bytes_bits (xs @ ys))"
  show "bytes_bits (xs @ ys) ! i = (bytes_bits xs @ bytes_bits ys) ! i"
  proof (cases "i < 8 * length xs")
    case True
    then have "i div 8 < length xs" by (simp add: less_mult_imp_div_less mult.commute)
    with True i show ?thesis by (simp add: nth_append nth_bytes_bits)
  next
    case False
    then have "(i - 8 * length xs) div 8 = i div 8 - length xs"
      "(i - 8 * length xs) mod 8 = i mod 8" "\<not> i div 8 < length xs"
      by (simp_all add: div_less_iff_less_mult mult.commute)
        (metis Nat.diff_cancel div_mult2_eq le_add_diff_inverse2 linorder_not_less
          minus_mod_eq_mult_div mod_mult_self1 mult.commute)+
    with False i show ?thesis by (simp add: nth_append nth_bytes_bits)
  qed
qed simp

lemma bytes_bits_eqI:
  assumes "length xs = length ys" and "\<And>i. i < 8 * length xs \<Longrightarrow> bytes_bits xs ! i = bytes_bits ys ! i"
  shows "xs = ys"
proof (rule nth_equalityI [OF assms(1)], rule bit_word_eqI)
  fix k j
  assume k: "k < length xs" and "j < LENGTH(8)"
  then have j: "j < 8" by simp
  then have i: "8 * k + j < 8 * length xs" "(8 * k + j) div 8 = k" "(8 * k + j) mod 8 = j"
    using k j by simp_all
  with assms(2) [OF i(1)] assms(1) show "bit (xs ! k) j = bit (ys ! k) j"
    by (simp add: nth_bytes_bits)
qed

lemma bytes_bits_inject [simp]: "bytes_bits xs = bytes_bits ys \<longleftrightarrow> xs = ys"
proof
  assume eq: "bytes_bits xs = bytes_bits ys"
  then have "length (bytes_bits xs) = length (bytes_bits ys)" by (rule arg_cong)
  then have "length xs = length ys" by simp
  with eq show "xs = ys" by (intro bytes_bits_eqI) simp_all
qed simp

lemma bit_fold_or:
  "bit (fold (\<lambda>j w. if P j then w OR push_bit j 1 else w) [0..<n] w0 :: 'a::len word) i \<longleftrightarrow>
     bit w0 i \<or> (i < n \<and> i < LENGTH('a) \<and> P i)"
  by (induction n) (auto simp: bit_or_iff bit_exp_iff less_Suc_eq)

lemma bit_byte_of_bits: "bit (byte_of_bits bs) j \<longleftrightarrow> j < 8 \<and> j < length bs \<and> bs ! j"
  unfolding byte_of_bits_def bit_fold_or by auto

lemma bytes_bits_pack:
  "bytes_bits (pack bs) = bs @ replicate (8 * length (pack bs) - length bs) False"
proof (rule nth_equalityI)
  fix i
  assume "i < length (bytes_bits (pack bs))"
  then have i: "i < 8 * length (pack bs)" by simp
  then have k: "i div 8 < (length bs + 7) div 8"
    by (simp add: less_mult_imp_div_less mult.commute)
  have "8 * (i div 8) + i mod 8 = i" by simp
  then have "i mod 8 < length bs - 8 * (i div 8) \<longleftrightarrow> i < length bs"
    by linarith
  with i k show "bytes_bits (pack bs) ! i =
      (bs @ replicate (8 * length (pack bs) - length bs) False) ! i"
    by (auto simp: nth_bytes_bits pack_def bit_byte_of_bits nth_append)
qed simp

lemma take_bytes_bits_pack [simp]: "take (length bs) (bytes_bits (pack bs)) = bs"
  by (simp add: bytes_bits_pack)

lemma pack_inject: "length xs = length ys \<Longrightarrow> pack xs = pack ys \<longleftrightarrow> xs = ys"
  by (metis take_bytes_bits_pack)

lemma pack_bytes_bits [simp]: "pack (bytes_bits data) = data"
proof -
  have "bytes_bits (pack (bytes_bits data)) = bytes_bits data"
    by (subst bytes_bits_pack) simp
  then show ?thesis by simp
qed

lemma test_bit_at_iff: "i < 8 * length data \<Longrightarrow> test_bit_at data i = bytes_bits data ! i"
  by (simp add: test_bit_at_def nth_bytes_bits bit_iff_and_push_bit_not_eq_0)

lemma length_or_bit [simp]: "length (or_bit i data) = length data"
  by (simp add: or_bit_def)

lemma bytes_bits_or_bit:
  assumes "i < 8 * length data"
  shows "bytes_bits (or_bit i data) = (bytes_bits data)[i := True]"
proof (rule nth_equalityI)
  fix j
  assume "j < length (bytes_bits (or_bit i data))"
  then have j: "j < 8 * length data" by simp
  have "i div 8 < length data" "j div 8 < length data"
    using assms j by (simp_all add: less_mult_imp_div_less mult.commute)
  moreover have "j = i \<longleftrightarrow> j div 8 = i div 8 \<and> j mod 8 = i mod 8"
    by (metis mult_div_mod_eq)
  ultimately show "bytes_bits (or_bit i data) ! j = (bytes_bits data)[i := True] ! j"
    using assms j
    by (auto simp: nth_bytes_bits or_bit_def nth_list_update bit_or_iff bit_exp_iff)
qed simp

section \<open>Writing appends bits\<close>

lemma ceil_div_8: "(if n mod 8 \<noteq> 0 then n div 8 + 1 else n div 8) = (n + 7) div (8::nat)"
proof -
  define q r where "q = n div 8" and "r = n mod 8"
  have n: "n = 8 * q + r" and r: "r < 8"
    by (simp_all add: q_def r_def)
  have "(n + 7) div 8 = q + (r + 7) div 8"
    by (simp add: n div_mult_self4 add.assoc)
  moreover have "(r + 7) div 8 = (if r \<noteq> 0 then 1 else 0)"
    using r by (auto intro: div_nat_eqI)
  ultimately show ?thesis
    by (simp add: q_def r_def)
qed

lemma pack_snoc_length: "length (pack (bs @ [b])) =
    (if length bs div 8 = length (pack bs) then length (pack bs) + 1 else length (pack bs))"
proof -
  have "(length bs + 8) div 8 = length bs div 8 + 1"
    by simp
  with ceil_div_8 [of "length bs"] show ?thesis
    by (auto simp: add.commute split: if_splits)
qed

text \<open>The output index of \<^verbatim>\<open>writeBits\<close> is in range, or is the byte about to be appended.\<close>

lemma output_byte_in_range: "length bs div 8 \<le> length (pack bs)"
  by (simp add: div_le_mono)

lemma btw_writeBit_pack: "btw_writeBit (length bs) b (pack bs) = pack (bs @ [b])"
proof -
  define data' where "data' = (if length bs div 8 = length (pack bs) then pack bs @ [0] else pack bs)"
  have len: "length data' = length (pack (bs @ [b]))"
    by (simp add: data'_def del: length_pack add: pack_snoc_length)
  have zero: "bytes_bits [0] = replicate 8 False"
    by (rule nth_equalityI) (auto simp: nth_bytes_bits)
  have fits: "length bs < 8 * length data'"
    unfolding len length_pack by simp
  have bits: "bytes_bits data' = bs @ replicate (8 * length data' - length bs) False"
    by (auto simp: data'_def bytes_bits_pack zero simp flip: replicate_add)
  obtain d where d: "8 * length data' = length bs + Suc d"
    using fits less_iff_Suc_add by auto
  have "bytes_bits (if b then or_bit (length bs) data' else data') = bs @ b # replicate d False"
    using fits d by (simp add: bytes_bits_or_bit bits list_update_append)
  also have "\<dots> = bytes_bits (pack (bs @ [b]))"
    using d by (simp add: bytes_bits_pack flip: len del: length_pack)
  finally show ?thesis
    by (simp only: btw_writeBit_def data'_def Let_def bytes_bits_inject)
qed

text \<open>A writer that holds the bits \<open>bs\<close>.\<close>

definition btw_holds :: "BitWriter \<Rightarrow> bool list \<Rightarrow> bool" where
  "btw_holds w bs \<longleftrightarrow> btw_data w = pack bs \<and> btw_bitOffset w = length bs"

lemma btw_holds_New [simp]: "btw_holds (NewBitWriter tc) []"
  by (simp add: btw_holds_def NewBitWriter_def pack_def)

lemma btw_loop:
  assumes "n \<le> 8 * length value"
  shows "fold (\<lambda>bit. btw_writeBit (length bs + bit) (test_bit_at value bit)) [0..<n] (pack bs)
    = pack (bs @ take n (bytes_bits value))"
  using assms
proof (induction n)
  case 0
  then show ?case by simp
next
  case (Suc n)
  let ?xs = "bs @ take n (bytes_bits value)"
  from Suc.prems have n: "n < 8 * length value" by simp
  then have "length ?xs = length bs + n" by simp
  then have "btw_writeBit (length bs + n) (test_bit_at value n) (pack ?xs) =
      pack (?xs @ [bytes_bits value ! n])"
    using btw_writeBit_pack [of ?xs] n by (simp add: test_bit_at_iff)
  with Suc n show ?case by (simp add: take_Suc_conv_app_nth)
qed

lemma btw_writeBits_holds:
  assumes "btw_holds w bs" and "n \<le> 8 * length value"
  shows "btw_holds (btw_writeBits value n w) (bs @ take n (bytes_bits value))"
  using assms by (simp add: btw_holds_def btw_writeBits_def btw_loop)

lemma btw_typeChecked_writeBits [simp]:
  "btw_typeChecked (btw_writeBits value n w) = btw_typeChecked w"
  by (simp add: btw_writeBits_def)

text \<open>The encodings in bits.\<close>

definition bits_type :: "bool \<Rightarrow> DataType \<Rightarrow> bool list" where
  "bits_type tc t = (if tc then take 5 (bytes_bits [t]) else [])"

definition bits_uint32 :: "bool \<Rightarrow> u32 \<Rightarrow> bool list" where
  "bits_uint32 tc v = bits_type tc TypeUint32 @ bytes_bits (LE_PutUint32 v)"

definition bits_uint64 :: "bool \<Rightarrow> u64 \<Rightarrow> bool list" where
  "bits_uint64 tc v = bits_type tc TypeUint64 @ bytes_bits (LE_PutUint64 v)"

definition bits_uint8 :: "bool \<Rightarrow> byte \<Rightarrow> bool list" where
  "bits_uint8 tc v = bits_type tc TypeUint8 @ bytes_bits [v]"

lemma length_bits_type [simp]: "length (bits_type tc t) = (if tc then 5 else 0)"
  by (simp add: bits_type_def)

lemma length_bits [simp]:
  "length (bits_uint32 tc v32) = (if tc then 37 else 32)"
  "length (bits_uint64 tc v64) = (if tc then 69 else 64)"
  "length (bits_uint8 tc v8) = (if tc then 13 else 8)"
  by (simp_all add: bits_uint32_def bits_uint64_def bits_uint8_def)

lemma btw_writeType_holds:
  assumes "btw_holds w bs"
  shows "btw_holds (btw_writeType t w) (bs @ bits_type (btw_typeChecked w) t)"
    and "btw_typeChecked (btw_writeType t w) = btw_typeChecked w"
  using assms btw_writeBits_holds [OF assms, of 5 "[t]"]
  by (simp_all add: btw_writeType_def bits_type_def bitModeTypeWidth_def)

lemma bits_flag: "take (Suc 0) (bytes_bits [b]) = [bit b 0]"
  by (simp add: bytes_bits_def upt_rec)

lemma btw_write_holds:
  assumes "btw_holds w bs"
  shows "btw_holds (btw_WriteRaw v w) (bs @ bytes_bits v)"
    and "btw_holds (btw_WriteUint8 b w) (bs @ bits_uint8 (btw_typeChecked w) b)"
    and "btw_holds (btw_WriteUint32 u w) (bs @ bits_uint32 (btw_typeChecked w) u)"
    and "btw_holds (btw_WriteTypeCheckedFlag w) (bs @ [btw_typeChecked w])"
    and "btw_holds (btw_SetTypeChecked tc w) bs"
proof -
  show "btw_holds (btw_WriteRaw v w) (bs @ bytes_bits v)"
    using btw_writeBits_holds [OF assms, of "length v * 8" v]
    by (simp add: btw_WriteRaw_def mult.commute)
  show "btw_holds (btw_WriteUint8 b w) (bs @ bits_uint8 (btw_typeChecked w) b)"
    using btw_writeBits_holds [OF btw_writeType_holds(1) [OF assms], of 8 "[b]"]
    by (simp add: btw_WriteUint8_def bits_uint8_def)
  show "btw_holds (btw_WriteUint32 u w) (bs @ bits_uint32 (btw_typeChecked w) u)"
    using btw_writeBits_holds [OF btw_writeType_holds(1) [OF assms], of 32 "LE_PutUint32 u"]
    by (simp add: btw_WriteUint32_def bits_uint32_def)
  show "btw_holds (btw_WriteTypeCheckedFlag w) (bs @ [btw_typeChecked w])"
    using btw_writeBits_holds [OF assms, of 1 "[1]"] btw_writeBits_holds [OF assms, of 1 "[0]"]
    by (simp add: btw_WriteTypeCheckedFlag_def bits_flag)
  show "btw_holds (btw_SetTypeChecked tc w) bs"
    using assms by (simp add: btw_holds_def btw_SetTypeChecked_def)
qed

lemma btw_write_typeChecked [simp]:
  "btw_typeChecked (btw_WriteRaw v w) = btw_typeChecked w"
  "btw_typeChecked (btw_WriteUint8 b w) = btw_typeChecked w"
  "btw_typeChecked (btw_WriteUint32 u w) = btw_typeChecked w"
  "btw_typeChecked (btw_WriteTypeCheckedFlag w) = btw_typeChecked w"
  "btw_typeChecked (btw_SetTypeChecked tc w) = tc"
  "btw_typeChecked (NewBitWriter tc) = tc"
  by (simp_all add: btw_WriteRaw_def btw_WriteUint8_def btw_WriteUint32_def btw_writeType_def
      btw_WriteTypeCheckedFlag_def btw_SetTypeChecked_def NewBitWriter_def)

section \<open>Reading takes bits\<close>

definition btr_wf :: "BitReader \<Rightarrow> bool" where
  "btr_wf r \<longleftrightarrow> btr_bitOffset r \<le> 8 * length (btr_data r)"

definition btr_rest :: "BitReader \<Rightarrow> bool list" where
  "btr_rest r = drop (btr_bitOffset r) (bytes_bits (btr_data r))"

definition btr_advance :: "nat \<Rightarrow> BitReader \<Rightarrow> BitReader" where
  "btr_advance n r = r\<lparr>btr_bitOffset := btr_bitOffset r + n\<rparr>"

lemma btr_RemainingBits_rest: "btr_RemainingBits r = length (btr_rest r)"
  by (simp add: btr_RemainingBits_def btr_rest_def mult.commute)

lemma btr_loop:
  assumes "n \<le> length xs" and "length xs \<le> 8 * k" and "\<And>i. i < length xs \<Longrightarrow> f i = xs ! i"
  shows "bytes_bits (fold (\<lambda>i res. if f i then or_bit i res else res) [0..<n] (replicate k 0))
      = map (\<lambda>i. i < n \<and> xs ! i) [0..<8 * k]
    \<and> length (fold (\<lambda>i res. if f i then or_bit i res else res) [0..<n] (replicate k 0)) = k"
  using assms(1)
proof (induction n)
  case 0
  have "bytes_bits (replicate k 0) = map (\<lambda>i. False) [0..<8 * k]"
    by (rule nth_equalityI) (auto simp: nth_bytes_bits less_mult_imp_div_less mult.commute)
  then show ?case by simp
next
  case (Suc n)
  then have n: "n < 8 * k" "f n = xs ! n" and le: "n \<le> length xs"
    using assms by auto
  have upd: "(map (\<lambda>i. i < n \<and> xs ! i) [0..<8 * k])[n := True] = map (\<lambda>i. i < Suc n \<and> xs ! i) [0..<8 * k]"
    if "xs ! n"
  proof (rule nth_equalityI)
    fix i
    assume i: "i < length ((map (\<lambda>i. i < n \<and> xs ! i) [0..<8 * k])[n := True])"
    show "(map (\<lambda>i. i < n \<and> xs ! i) [0..<8 * k])[n := True] ! i =
        map (\<lambda>i. i < Suc n \<and> xs ! i) [0..<8 * k] ! i"
      using i that by (cases "i = n") (simp_all add: less_Suc_eq)
  qed simp
  have same: "map (\<lambda>i. i < n \<and> xs ! i) [0..<8 * k] = map (\<lambda>i. i < Suc n \<and> xs ! i) [0..<8 * k]"
    if "\<not> xs ! n"
    using that by (auto simp: less_Suc_eq)
  show ?case
    using Suc.IH [OF le] n upd same by (auto simp: bytes_bits_or_bit)
qed

lemma btr_readBits_rest:
  assumes "btr_wf r"
  shows "btr_readBits n r =
    (if n \<le> length (btr_rest r) then (Inr (pack (take n (btr_rest r))), btr_advance n r)
     else (Inl (IoErr ErrUnexpectedEOF), r))"
proof (cases "n \<le> length (btr_rest r)")
  case False
  then show ?thesis by (simp add: btr_readBits_def btr_RemainingBits_rest)
next
  case True
  let ?xs = "take n (btr_rest r)"
  define k where "k = (if n mod 8 \<noteq> 0 then n div 8 + 1 else n div 8)"
  have k: "k = (n + 7) div 8"
    unfolding k_def by (rule ceil_div_8)
  define f where "f i = test_bit_at (btr_data r) (btr_bitOffset r + i)" for i
  have f: "f i = ?xs ! i" if "i < n" for i
    using that True by (simp add: f_def btr_rest_def test_bit_at_iff)
  let ?res = "fold (\<lambda>i res. if f i then or_bit i res else res) [0..<n] (replicate k 0)"
  have "bytes_bits ?res = map (\<lambda>i. i < n \<and> ?xs ! i) [0..<8 * k] \<and> length ?res = k"
    by (rule btr_loop) (use True k f in auto)
  moreover have "map (\<lambda>i. i < n \<and> ?xs ! i) [0..<8 * k] = bytes_bits (pack ?xs)"
    using True k by (intro nth_equalityI) (auto simp: bytes_bits_pack nth_append)
  ultimately have "?res = pack ?xs"
    by simp
  with True show ?thesis
    by (simp add: btr_readBits_def btr_RemainingBits_rest Let_def f_def k_def btr_advance_def)
qed

section \<open>What the bit reader accepts\<close>

interpretation bit_reader:
  stream_reader btr_wf btr_rest btr_typeChecked
    "\<lambda>n tc r. btr_advance n r\<lparr>btr_typeChecked := tc\<rparr>"
  by unfold_locales
    (auto simp: btr_wf_def btr_rest_def btr_advance_def add.assoc add.commute)

lemma btr_advance_same_mode [simp]:
  "btr_advance n r\<lparr>btr_typeChecked := btr_typeChecked r\<rparr> = btr_advance n r"
  by (simp add: btr_advance_def)

lemma recog_readBits:
  "bit_reader.recog (btr_readBits n) (\<lambda>tc v xs tc'. length xs = n \<and> v = pack xs \<and> tc' = tc)"
proof (rule bit_reader.recogI)
  fix r v r'
  assume "btr_wf r"
  moreover have "(\<exists>xs tc'. (length xs = n \<and> v = pack xs \<and> tc' = btr_typeChecked r) \<and>
        prefix xs (btr_rest r) \<and> r' = btr_advance (length xs) r\<lparr>btr_typeChecked := tc'\<rparr>) \<longleftrightarrow>
      (\<exists>xs. length xs = n \<and> (v = pack xs \<and> r' = btr_advance n r) \<and> prefix xs (btr_rest r))"
    by auto
  ultimately show "btr_readBits n r = (Inr v, r') \<longleftrightarrow> (\<exists>xs tc'.
      (length xs = n \<and> v = pack xs \<and> tc' = btr_typeChecked r) \<and> prefix xs (btr_rest r) \<and>
      r' = btr_advance (length xs) r\<lparr>btr_typeChecked := tc'\<rparr>)"
    unfolding ex_prefix_of_length by (auto simp: btr_readBits_rest)
qed

lemma recog_SetTypeChecked:
  "bit_reader.recog (btr_SetTypeChecked b) (\<lambda>tc v xs tc'. xs = [] \<and> tc' = b)"
  by (rule bit_reader.recogI) (auto simp: btr_SetTypeChecked_def btr_advance_def)

lemma pack_single: "pack [b] = [if b then 1 else 0]"
  by (auto simp: pack_def byte_of_bits_def)

lemma recog_ReadTypeCheckedFlag:
  "bit_reader.recog btr_ReadTypeCheckedFlag (\<lambda>tc v xs tc'. xs = [v] \<and> tc' = v)"
  unfolding btr_ReadTypeCheckedFlag_def Let_def
  by (rule bit_reader.recog_cong,
      (rule recog_readBits recog_SetTypeChecked bit_reader.recog_rules)+)
    (auto simp: length_Suc_conv pack_single split: if_splits)

lemma recog_ReadRaw:
  "bit_reader.recog (btr_ReadRaw n)
     (\<lambda>tc v xs tc'. length v = unat n \<and> xs = bytes_bits v \<and> tc' = tc)"
proof -
  have "btr_ReadRaw n = btr_readBits (unat n * 8)"
    by (rule ext) (auto simp: btr_ReadRaw_def btr_readBits_def Let_def)
  moreover have "length xs = unat n * 8 \<and> v = pack xs \<longleftrightarrow> length v = unat n \<and> xs = bytes_bits v"
    for xs v
  proof
    assume l: "length xs = unat n * 8 \<and> v = pack xs"
    then have "length v = unat n" by simp
    with l show "length v = unat n \<and> xs = bytes_bits v"
      by (simp add: bytes_bits_pack)
  qed simp
  ultimately show ?thesis
    by (auto intro: bit_reader.recog_cong [OF recog_readBits [of "unat n * 8"]])
qed

text \<open>A five-bit tag is read back when the tag fits in five bits.\<close>

lemma pack_tag:
  assumes "length xs = 5" and "take_bit 5 t = t"
  shows "pack xs ! 0 = t \<longleftrightarrow> xs = take 5 (bytes_bits [t])"
proof -
  have high: "\<not> bit t j" if "5 \<le> j" for j
    using assms(2) that by (metis bit_take_bit_iff linorder_not_less)
  have "pack xs ! 0 = byte_of_bits xs"
    using assms(1) by (simp add: pack_def upt_rec)
  moreover have "byte_of_bits xs = t \<longleftrightarrow> (\<forall>j<5. xs ! j = bit t j)"
  proof
    assume all: "\<forall>j<5. xs ! j = bit t j"
    show "byte_of_bits xs = t"
    proof (rule bit_word_eqI)
      fix j
      show "bit (byte_of_bits xs) j = bit t j"
        using all assms(1) high [of j] by (cases "j < 5") (auto simp: bit_byte_of_bits)
    qed
  next
    assume "byte_of_bits xs = t"
    then show "\<forall>j<5. xs ! j = bit t j"
      using assms(1) by (auto simp: bit_byte_of_bits)
  qed
  moreover have "xs = take 5 (bytes_bits [t]) \<longleftrightarrow> (\<forall>j<5. xs ! j = bit t j)"
    using assms(1) by (auto simp: list_eq_iff_nth_eq nth_bytes_bits)
  ultimately show ?thesis by simp
qed

lemma recog_bit_expect:
  assumes "take_bit 5 t = t"
  shows "bit_reader.recog (btr_expect t) (\<lambda>tc v xs tc'. xs = bits_type tc t \<and> tc' = tc)"
proof -
  have "bit_reader.recog (go_bind (btr_readBits bitModeTypeWidth) (\<lambda>d. let a = d ! 0 in
          if a \<noteq> t then go_fail (TypeErr t a) else go_return ()))
        (\<lambda>tc v xs tc'. xs = take 5 (bytes_bits [t]) \<and> tc' = tc)"
    unfolding Let_def bitModeTypeWidth_def
    by (rule bit_reader.recog_cong, (rule recog_readBits bit_reader.recog_rules)+)
      (use pack_tag [OF _ assms] in \<open>auto intro!: exI [of _ "take 5 (bytes_bits [t])"]\<close>)
  from bit_reader.recogD [OF this] show ?thesis
    by (intro bit_reader.recogI) (auto simp: btr_expect_def bits_type_def btr_advance_def)
qed

lemma recog_btr_rewinding:
  "bit_reader.recog d E \<Longrightarrow> bit_reader.recog (btr_rewinding d) E"
proof -
  have "btr_rewinding d r = (Inr v, r') \<longleftrightarrow> d r = (Inr v, r')" for r v r'
    by (auto simp: btr_rewinding_def split: prod.splits sum.splits)
  then show "bit_reader.recog d E \<Longrightarrow> bit_reader.recog (btr_rewinding d) E"
    by (simp add: bit_reader.recog_def)
qed

lemma recog_bit_word:
  assumes "8 * n = LENGTH('a::len)" and "take_bit 5 t = t"
  shows "bit_reader.recog (btr_rewinding (go_bind (btr_expect t) (\<lambda>_.
       go_bind (btr_readBits (8 * n)) (\<lambda>data. go_return (le_word data)))))
     (\<lambda>tc (v :: 'a word) xs tc'. xs = bits_type tc t @ bytes_bits (le_bytes n v) \<and> tc' = tc)"
proof (rule bit_reader.recog_cong,
    (rule recog_btr_rewinding recog_bit_expect [OF assms(2)] recog_readBits bit_reader.recog_rules)+)
  fix tc tc' and v :: "'a word" and xs
  have "(\<exists>x. length x = 8 * n \<and> v = le_word (pack x) \<and> y = x) \<longleftrightarrow> y = bytes_bits (le_bytes n v)" for y
  proof
    assume "\<exists>x. length x = 8 * n \<and> v = le_word (pack x) \<and> y = x"
    then have y: "length y = 8 * n" and v: "v = le_word (pack y)" by auto
    then have "le_bytes n v = pack y" using assms(1) by simp
    with y show "y = bytes_bits (le_bytes n v)" by (simp add: bytes_bits_pack)
  next
    assume "y = bytes_bits (le_bytes n v)"
    then show "\<exists>x. length x = 8 * n \<and> v = le_word (pack x) \<and> y = x"
      using assms(1) by simp
  qed
  then show "(\<exists>a x1 t1 x2. (x1 = bits_type tc t \<and> t1 = tc) \<and>
        (\<exists>a x1 t1' x2'. (length x1 = 8 * n \<and> a = pack x1 \<and> t1' = t1) \<and>
          (v = le_word a \<and> x2' = [] \<and> tc' = t1') \<and> x2 = x1 @ x2') \<and> xs = x1 @ x2) =
      (xs = bits_type tc t @ bytes_bits (le_bytes n v) \<and> tc' = tc)"
    by auto
qed

lemma recog_ReadUint32:
  "bit_reader.recog btr_ReadUint32 (\<lambda>tc v xs tc'. xs = bits_uint32 tc v \<and> tc' = tc)"
  using recog_bit_word [where 'a = 32 and n = 4 and t = TypeUint32]
  by (simp add: btr_ReadUint32_def bits_uint32_def TypeUint32_def)

lemma recog_ReadUint64:
  "bit_reader.recog btr_ReadUint64 (\<lambda>tc v xs tc'. xs = bits_uint64 tc v \<and> tc' = tc)"
  using recog_bit_word [where 'a = 64 and n = 8 and t = TypeUint64]
  by (simp add: btr_ReadUint64_def bits_uint64_def TypeUint64_def)

lemmas recog_bit_rules = recog_ReadTypeCheckedFlag recog_SetTypeChecked recog_ReadRaw
  recog_ReadUint32 recog_ReadUint64 bit_reader.recog_rules

section \<open>The unused bits of the last byte\<close>

lemma bytes_bits_single: "bytes_bits [b] = map (bit b) [0..<8]"
  by (simp add: bytes_bits_def)

lemma and_f8: "(b :: byte) AND 0xf8 = 0 \<longleftrightarrow> (\<forall>j\<in>{3..<8}. \<not> bit b j)"
proof -
  have m: "bit (0xf8 :: byte) j \<longleftrightarrow> 3 \<le> j" if "j < 8" for j
  proof -
    have "\<forall>j\<in>set [0..<8]. bit (0xf8 :: byte) j \<longleftrightarrow> 3 \<le> j" by code_simp
    with that show ?thesis by simp
  qed
  have "b AND 0xf8 = 0 \<longleftrightarrow> (\<forall>j<8. \<not> (bit b j \<and> bit (0xf8 :: byte) j))"
  proof
    assume "\<forall>j<8. \<not> (bit b j \<and> bit (0xf8 :: byte) j)"
    then show "b AND 0xf8 = 0"
      by (intro bit_word_eqI) (simp only: bit_and_iff, simp)
  next
    assume z: "b AND 0xf8 = 0"
    have "\<not> bit (b AND 0xf8) j" for j unfolding z by simp
    then show "\<forall>j<8. \<not> (bit b j \<and> bit (0xf8 :: byte) j)"
      unfolding bit_and_iff by blast
  qed
  also have "\<dots> \<longleftrightarrow> (\<forall>j<8. \<not> (bit b j \<and> 3 \<le> j))"
    using m by blast
  finally show ?thesis by auto
qed

lemma padding_is_zero:
  assumes "length xs = 8 * length d + 3" and "prefix xs (bytes_bits (d @ [b]))"
  shows "b AND 0xf8 = 0 \<longleftrightarrow> d @ [b] = pack xs"
proof -
  let ?all = "bytes_bits (d @ [b])"
  have xs: "xs = take (length xs) ?all" using assms(2) by (metis prefix_def append_eq_conv_conj)
  have "d @ [b] = pack xs \<longleftrightarrow> ?all = bytes_bits (pack xs)" by (simp del: bytes_bits_append)
  also have "bytes_bits (pack xs) = xs @ replicate 5 False"
    using assms(1) by (simp add: bytes_bits_pack)
  also have "?all = xs @ replicate 5 False \<longleftrightarrow> drop (length xs) ?all = replicate 5 False"
    using xs by (metis append_eq_conv_conj append_take_drop_id)
  also have "drop (length xs) ?all = map (bit b) [3..<8]"
    using assms(1) by (simp add: bytes_bits_single drop_map)
  also have "\<dots> = replicate 5 False \<longleftrightarrow> (\<forall>j\<in>{3..<8}. \<not> bit b j)"
  proof -
    have "replicate 5 False = map (\<lambda>_. False) [3..<8]" by code_simp
    then show ?thesis unfolding map_eq_conv set_upt by (simp only: map_eq_conv set_upt) blast
  qed
  finally show ?thesis by (simp only: and_f8)
qed

section \<open>Properties\<close>

text \<open>What the bit writer wrote at any bit position, aligned or not, the bit reader reads back:
  a 32-bit value (with its five-bit tag when types are checked) written after any bits is
  returned by a reader at that bit offset, which then stands right after it, whatever is
  written later.\<close>

theorem bit_uint32_roundtrip:
  assumes "btw_holds w bits"
  shows "btr_ReadUint32 \<lparr>btr_typeChecked = btw_typeChecked w,
           btr_data = btw_Bytes (btw_WriteRaw later (btw_WriteUint32 v w)), btr_bitOffset = length bits\<rparr>
    = (Inr v, \<lparr>btr_typeChecked = btw_typeChecked w,
           btr_data = btw_Bytes (btw_WriteRaw later (btw_WriteUint32 v w)),
           btr_bitOffset = length bits + (if btw_typeChecked w then 37 else 32)\<rparr>)"
proof -
  let ?all = "(bits @ bits_uint32 (btw_typeChecked w) v) @ bytes_bits later"
  let ?w = "btw_WriteRaw later (btw_WriteUint32 v w)"
  let ?r = "\<lparr>btr_typeChecked = btw_typeChecked w, btr_data = btw_Bytes ?w, btr_bitOffset = length bits\<rparr>"
  have h: "btw_holds ?w ?all"
    using assms by (intro btw_write_holds)
  then have t: "take (length ?all) (bytes_bits (btw_data ?w)) = ?all"
    by (simp only: btw_holds_def take_bytes_bits_pack)
  have le: "length bits \<le> 8 * length (btw_data ?w)"
    using h by (simp add: btw_holds_def)
  have "prefix ?all (bytes_bits (btw_data ?w))"
    using t by (metis take_is_prefix)
  then have "prefix (bits_uint32 (btw_typeChecked w) v) (btr_rest ?r)"
    by (auto simp: btr_rest_def btw_Bytes_def prefix_def)
  with le show ?thesis
    by (subst bit_reader.recogD [OF recog_ReadUint32]) (auto simp: btr_wf_def btw_Bytes_def btr_advance_def)
qed

theorem bit_uint32_roundtrip_witness:
  "btr_ReadUint32 \<lparr>btr_typeChecked = True,
       btr_data = btw_Bytes (btw_WriteRaw [255] (btw_WriteUint32 7 (NewBitWriter True))),
       btr_bitOffset = 0\<rparr>
    = (Inr 7, \<lparr>btr_typeChecked = True,
       btr_data = btw_Bytes (btw_WriteRaw [255] (btw_WriteUint32 7 (NewBitWriter True))),
       btr_bitOffset = 37\<rparr>)"
  using bit_uint32_roundtrip [of "NewBitWriter True" "[]" "[255]" 7] by simp

end
