(* ===== verification/Tiger_Tables.thy ===== *)
theory Tiger_Tables
  imports Go_Prelude
begin

text \<open>
  \<^verbatim>\<open>internal/online/bitdemon/tiger_tables.go\<close>: the S-box constants of the Tiger hash, as the
  source holds them, one element per line of the Base64 text.
\<close>

definition tigerSBoxesFullLines :: "string list" where
  "tigerSBoxesFullLines =
    [''Xgzp93yxqgLsqEPiA0tCrNP81Q3jW81yOn/59pObAW2TkR/S/3iZzeIpgHDJoXN1w4MqkmsyZLFw'',
     ''WJEE7j6IRubsA3EF46zqXFOjCLhpQcV8xN6NkVTnTAz0Ddzf9KIK+r5NpxhvtxBqq9FaI7bMxv/i'',
     ''L1chYXITHpKdGW+MSBrKBwDa9PnJS8dBUuj25vUmtkdZ6tt5kIWSjJ7JxYUYT0uGb6kedo7XfcG1'',
     ''UoxCNo7BYzA3J2jPaW7FtJs9yQe26rV2DnYOgn1C3H/wxpxcZOBCMyR4oDi/BH0unTw0a1/GDgtg'',
     ''64rC8qy8VHJf2A5s5U/bpIEiWXGf7Q/OafpnGdtFZbn4k1L9C2Cn8tfpechOGZMBkkgChrPAnC07'',
     ''U/mkE3aVFWyDU5DxezX8is9t21cPN3p66r4YZpC5UMoXcQM1SkJ0lwqzapskJeMCL+n04cocBgfb'',
     ''OXcFKqTsnLTz2HMvOFE/vla9KLuwQ1jt+kWDH78RXD2BHGmhX9e25PCKmZmth6QY7jMQRMmx6ugm'',
     ''PPkiqMArEBC1OxLmDDHvHhRUsd1ZALll/Afm4MVAhhXgz6PDJpgHToj9NcUjlQ0NkwArmk51jWM1'',
     ''1Z1GQM/8hUBMOuKL0nqxxC5qPmr88LLKzT+UaxqXYChGBOMS4m7ePa5lF+Aq8yJi/giDR7ULVV0q'',
     ''ou2gjanvqacNxIYWp1HDhHyGnG1YBRFTKKL9he7/3HbvXiwm0PvMAdKQicuU8rp12foq9WSU5hQ+'',
     ''E9+vE7CUWMkjKKPRpwYZEfYwUf6Vb8AGLEZOsyrZ0nF8iDPee+0+ORhlbm10eSkzcV04GaRbZHWp'',
     ''SLmmG3xnrP17GXyYMQI9BUvEI2zeTdYC0P5JHFhxFSY4Y01H3WLQc+TDRkWqYPhVlDTOj5LZlKvK'',
     ''uhsWSGhvDncwJJFjHGTGAualyG4r3X0zFSUohxtwSwNCa9osbQnLgcE3PbBvHMdmgkMI4VWyUevH'',
     ''gDErvIvAli+4kt+68zKmwMhoXFYFPRyGzARVj2uyX+Wkv6u0zrqzCouEQTJdRKpzojSzgdhaqPCW'',
     ''prxs1Si1Zez2JEpS9JAuUeEMWtMGVZ3XnU55l87G+gWJJTObED5bKRkgzFSgc4tHqfiwfkE0+fIk'',
     ''KcQbbVN9NZM5i/+2HcIaqDi/FmB98fvER/XjZ3bdqg8eluuLk2L/vHrJecGPlK2Npw3lESm3mB+P'',
     ''kRoSJ66O5GEImIUxrfdiTevqXO9Fo+vszoSWvF6yzvUhYve3DOIz9uSTgqsG3yyjpCzupSwgWpix'',
     ''j4rMR4QLz6NZmJdEUnafFwAkobEW1agmx127PrrXCznbarhVykvlY4BHbP06eh3dnmbnCMaeUSOq'',
     ''SdGiFVcOlPGPhHFFfRciTAFBMl+17sIubjqhXF4PYcP1dXuSKYA25NbDq58TrS9Az0yp8V0NyN+l'',
     ''vkjZiz5+9z+9V9OgpUX2dB8lLtGigqCBXlKe/WZJemh/zpAMLsU7l7q+vOjCX3QJ5bwBAADWs9rm'',
     ''u3c3QrVu8K5+HGbR2M+qTTUfeKH8rxYrSigRLR8difpnT/zx2gqSy13C7HNRJqHCIgxhroq3VtMQ'',
     ''qOCWD4fnLx84mlowVU7p7WKt1ScUjTbo5SXSMUavx3B7l2VP1zneson4mUPR4VS/MD8jlzym2dN1'',
     ''lpqo+TTzT1VwVIhWT0p0y2oWra7ksqpMx3ASTSlvZJHQ8NExQGiJKrhXawu+YVpa2e+a8vJp6RK9'',
     ''L+if//4TcNObBloI1gQEmz8V/mwW88FASfve881NLFQJ41zNhYMhxbRBpmJE3Lc1yT+2046m+Bc0'',
     ''QFshWylZCbhyhYw779qc+V25/PgUBowB8806Gs2sFBstc7sA8nHUhBba6JUOEaPBuIIavyByCkMO'',
     ''Id85DQl+t51e0DyfvfReRKRXftr2T534pdSD4WAd2keOmReEw4eyhhizGxLcPv7vywyYzDz+xwP9'',
     ''mxiQtW/k3FdMmkb9MjdlrfF8oAD3flmIHaNoRMZZ9mFb1LSwL3YYdwSZ0K5bFaa6UD1MXnVo37TY'',
     ''In9OIen0lawuU7/dKgkBvbQJOa4yUDSOsDf1TYONciBCqJ0g+vcj/p6bHWmef42uxIjSRgRbeGnh'',
     ''JMVMe4UTyjUBf9ghpYp7Ew9Au86+lgdYZisuJ96wwiVBJhI2svserb0CdwXpS/isjru61HvGG2Q5'',
     ''MViRJOA2gOAt3IvtaJ/0VoE8YBFR79v3NtL3gB7SilnEJ5fXXwpnlgiKoMup6wlDj0rLoTZwD0tW'',
     ''r4G9mhl4p5q5wFLpyD/IHp+VuYFKeXdQUIzwOGMFj6/KOnhnemJQP7QHd8zs9UmrREqY7nm25NbD'',
     ''O4wQFM/R1MCcoMhrIAvABkSJLdfIVIihgixDPFyzZuNn8jcrEGHdI7kdJ4TYeSerVq8lFf+w4YO+'',
     ''qUl+IdRlfPvU50ht5+Dba54X2UWHgt8INL1T3Zpq6iIKICJWHBRu4+5Qt4wbXYB/N+hYn6XH5a88'',
     ''wrFPapl/4tDwdQf7fYbTGomIbt5z5tAlbLivnus6EpW4RcHV1fEw52ly7i1KQ7s4+jH57GfLeJy/'',
     ''OzJyAzvzdJwn+zZj1lKqTvsKrDNfUIfhzKKZzaXouzAtHoB0SVOQbYfVEVctjY4DvJEoQRofSGbl'',
     ''gh3n4ta3MndJOmwDdKv1YWPZfraJogLq8diV7f891GQU1jsr5yBI3AsXDzCmeqd47WCHwes4IaEF'',
     ''Wr6m5ph8+LSlIqG1kGkLFIlgPFbVXR85LstGTDSUt8nbrTLZ9a8VIORw6gjxjEc+Z6Zl15mNJ6t+'',
     ''dfvEkgZuLYbGEd8WO38N8YTr3QTqZaYE9i5vs9/g8A8PjkpRurw9+O7tpR43pA4qCk/8KYSzXKgd'',
     ''PujiHBu6gviP3A3oU4NeUEXNFwfb1ACa0RgBgfOl7c+gNPLKh4hRfucLNlHEszgUNB75zImQ9JdX'',
     ''4BQdWfKdP9L/zcWVhSLaPVQzKgWZ/YEfZnZ7D9tB5jaHB1OOQSV3IhX6si4WRn9f4v7ZE2wSsqhI'',
     ''6m7nkhdU3K+PidHGvxLZAxv1gxv6qrEx2bcq5JYnrPGs69L816ejQMW8+wptE1YQhQxtmt3hiXiq'',
     ''dHkqeCU105vAigcJXeKn0O3G6rM4Qb1wnutxvr8Kklxiwk/10KWio5ASC2vjVMArk/5i/1nd9n2s'',
     ''qBFFNTc11Nz6cpFehMrcIJ0yYCv4hBgvZ83hLMZ5LGQk0a2iCYsm59kZaunB0AxQqUubanha80NM'',
     ''YzYDAg4i2GbrSkd7wcKqm+zjGnNqWAKE4HpmJoKl7MqRdlbUZ7WtdUhcFZQd3z+BW5j9AG0GzXS3'',
     ''/G4oUa9Epx9HNIheLq5h566gLPea4OiuzeRAvmX2GFG7C5fpZBnfM+tLbnJilxkpBwA7cKcw7/UW'',
     ''2DFGvqYEFbW1gLhsS9h+w5MXZJZ96fZ37SF7c2v5LjEGY3f082/oSIlSrvj4o4by19tTYxD8TOfc'',
     ''yhbdxlL6vRlcANNq1GRdj4ZoahgezyxRnTquYFY4wmJ+Ntex3Hfq51njbr6adHMHbFJLc5/Q+eVa'',
     ''c6iLVYrMxz9JRatBMFPBubC9WQpHulgZMpPDRl8LsC2F5bA20yubIJGf8Z5lfU9gbiTLLHjiipq5'',
     ''x8QUyLYq9cx7chG+r9knR02zIQEMDZV+H0etcFZDb3VJaFphQtSt9XqVuYCZ4IdOVeOuUN+hzypW'',
     ''1S/9OiaY2NaPDNhNkvTIOhdKdT3Kmc88v5GvrHtH/i3BkNb2cVPtlHBoXihcGoOkoAg3CsnTxYBl'',
     ''0Bc3kH8Pf/L9uBO7+RlDKFBNG2+9sRJA/4+jG3YcOx/i4sQwFQ2KLDenac5DiWbOtf4RThjlIWZz'',
     ''vYDbi2ELTVeL1ropfVv+5iU+YbuBP5EHvBCcHAeXLawJeeu+x1fXxTs1jeXD6GGP85J4Aesawhyb'',
     ''nPvv1Kv3lPQmfXKZAz5rlaJj4KMwnKBKmotKnbQPCQDVt2o/wIomV6DywJzRQr/tLZ3uPXKpYHnI'',
     ''SQ8zQRtChwJyssacNgB8wJ7FCiU0NctJrE7v2CkB704kUPS23vTK5UbMivdjkphjq/4veEV6Xf65'',
     ''fI81RmNOZPfYWwDJLb8Vc3pCHCYlIarE0BdQjlGTbEiSOcPU16Lg/su0jd1dLCDWdXxhbFvj2JXC'',
     ''2xkrAwLTabNgMkHk3F9oQs4QVvbdud3zBvBI4bUd0qSOb0nNL+b8sCAx7rBYI5EbLAij9Ri4F4Oy'',
     ''z9KmnBgenKjI26pqVxhrDOP6mRKp6l225ycQf0t5K/vrWztEfzHkBKbQOVkyLYVL/H8g++5rrtV0'',
     ''08eBsoKWMHW0w5ShCeO6BZ+0E3v5w4xnOSn4L0KpmHz/dhCwFksk7mc9ZhxXv/ihDePuWGcNH7e5'',
     ''3nrZEbbJoldse4jVr7fhT5hrhK6QYv2lwazeTN+U/zpIxdFbigU3PLpCwWwWY0Bv97JuUriNTm0N'',
     ''bwOACOEdMR2XySMFnpHWfMwkKOxFyYIj5lmDW1eVmYjEDUCe+mgVckXLPoLRLwgGgjuY/drLqIYj'',
     ''CCl9qoh1uANEzZ8m4NG9KPf1kRv2AQIEOZ9m5N5K8IwhfB16zuWc1yk8YmWxC8CWkERoI7oDpZ2H'',
     ''8ZurjgVYpLHsI7zMHkC7Ad9Ymj0UX6ho6HCgniPyfTCI8U+DEWQatGXVFAIWcFJ0MxPuCV4oP889'',
     ''DpVTCci5VAKTWW3aMIlAmfI7hxNpUz+UVamEh8upyt5eoaDpKzUnIRQp+3pO/x838HYoIk8nUPQ5'',
     ''AouGXh3wOge7wZYOwXEFyL8jLiJohQhn0rC1gI7Uo3GWgbuT4YrTtVW4BIuh0OI6aV8z1a3stEhc'',
     ''yqEWSRk7dP3EmL40gQF3Ja2kVDzoh3nnueEz2hQQ4SgTomoinsUMJ2BfGm11X0lxd++vYPtT6Ju/'',
     ''PUT3p4bHrYKasnNhRQQJXr0ywmZ6vFiyyDpnjFUG8yp3ybbGOfZB2jXan+nvbSEV5nscxwxkESdV'',
     ''XFaUNsSTOXh3RmKOA+ppJD5azvOr+dIS0w+Ndh50xlLWzoO4RAFShT+jW1oLwp1aQ8MzluYa7P2M'',
     ''CKSMopcg9JYePKQkiEan7m6mL2E3Wg7P+WWxTGtK+6ugBhyqQ2t5YvFvwk1/D5vtVI7Mumw+JbvS'',
     ''7/+3pk+dorCVvCUujDjx3oul1oZU8LZ2xUrX3l2ARSu8vTCAiZJN6XCvgTzbADGe2m3/PkeIzN+f'',
     ''w42zfrgXjVKFOBJCtrFA0g7a8qn5S9Xc+s5E5n48Qw4gEhNIx3g6T8j8n7t2hSRyH83w5M84NgV0'',
     ''aexMTuwMfLanK+0yzuXzTS+sEUzqJkPRM8u8WH7HTATppO/8NNmTMlFfRFTlBlVkyV0K5H0xj0He'',
     ''UFni3Wkas4w4hgqCVTSotC3pGnGEHqkQkHGDSbG38PdNeXGXwKsuKtYOXI2ql8D6Ipvz2vEvzJ/0'',
     ''gZLyb8bVf0g/qNz8Zwaj6GPO/NLjS5sswrv7k0v3P9pmunD+0mWhL9STDpd54gOhcV7ksHfszb6X'',
     ''5IU5ch60zxdQ914Cqgq34LhAOPAJI9R5hYk10Br8jsWrsuILksaWcpFaN2NBr2b7J3HK3Kt0IUH/'',
     ''ckqmzjyzpWYwCDNJSvD1mijXzQqXjV7CyDHg6JaPR12HdiLA/vPdkGEFEPN77JEUD7uusK31kojV'',
     ''D4X4UJvoTbdYg0h1SWEcU5H2TzWj7sbSgeS7AgeY7e19BST7iQLploUTdTCs7XInF4A1LR0Nw2uO'',
     ''wo9z6yZDBGOP71RYvjvdWjJSXJ4jRlwyz1OqkGfQnTRRTdLBJKaepu7PUSBPfi6GCg8iE2RI4ASU'',
     ''OTnOt/yGcKQsxNnM5wOKI9JaaNvxL6uyhGQG7Hm/73Bdnf5UGEic3bkTW60JFe111PAVUZjHDgbN'',
     ''6wv4tzoYkWeM1eTu81JQfBjR/4JO5ZIRXcmibKy5TKHuhl19Z1OxvoU0KkmMH3gdGd3564SnumYI'',
     ''9nSM0KI7ZI9RInwI4VbpUoiNrhDEjctopxqO7L8mdwQ4qkU7zbQ4d6YZ3g3sHGkWrQcuRoCTMdTG'',
     ''OBmmC22HpcVA2I+lH/q5FhhPpzwXsYoYHwKcyZgv2qsW6EoTq4AFPrtaZHO3BTtf9vJ1Vb6iASWp'',
     ''i35OAHQvG1PZ6HEDWNccME52YpXYbn89AG9Z/yZZsbnWxag9KWWfTPiQ1k3wzm6IrzP/XyeCRwEI'',
     ''gj8IMxTktfkamkD+Df1rOdssNKMlQ1KyAbNifueKWmFVZp+eb8MJLNOSLVpFhYV0R0mp3sfyup6j'',
     ''M8G0z2NiVLxuzECwg7Ams/3IVJQ7jNf/h55q9VbGK/SZDZTCLS1uCWsJ3/eYv1LYOh7gphkLtNTb'',
     ''y5ypQlnF6UWvmJmlhjHZB+iVYjZz96H6GxhIax0KehXiV+wf1Rog9mpEZ0Z18LDPyusV5ngHKWhP'',
     ''H/O4HtEiztY+cSI7ycMup8FXMC8fP3zDrEbLDvWqAv2TuNvPnwtgLtkfM9Y66khh+Zik6oNqi25C'',
     ''2KjcXHO3dLKJoBFKUh5zs/aHSWfJy+UIiBGU05uxx+QGmQyiJJt+f+2vp0Q2697qCWXeDu/o0/Ee'',
     ''bLSPeelDfcm5oygMdITX8qJvVpdhR5aEe50GX7bm41t6EG++eO0wY/kVagd65w3m7tCbi6BK7ksr'',
     ''Tom4xz6mVmr0/jS6WRMSAvwDNyj4mb9MyDCvDDVxgDl6aBfwiXqn0Gk1Qp7rqcHxmYHuLSh2eYy9'',
     ''eh/dpTcXXYD6qQk8Q1NP2aF831MMi/p3y2yIvNzZPyBHG6l8kUDA39zR+UIB0H1YezhPHfx2hANl'',
     ''MfPF5/gjOXPj50QiKgNLp/VQ16WHXC6ZmDbETCsIPPZYuOx7kd/abfhb/LhwMnbdtSm7cq4QKzYA'',
     ''d07JaleP+x7G2hLRGiek+sUOwxtpQ3EyzBFjJP8GMuUwjjZCMZajLOAxDjhx8XatCpZcjZU2pW3B'',
     ''MPTW+NLh5xs/0f/I4dtNAGaueHVG5nsGAT+DBW1Y/juttTS78Jcrock0XwmoDNYlRbZ6JNF3dAHz'',
     ''xtvcTdLK3tQULkrrHgq+2ea1vasBQ3n3cH4q/UAFJ4ot9N7BIkyjwI4HAYdjwfQaUd7lCjOavVI6'',
     ''u341ZH2qV3hpdzJMrgMWg04AEuN4rSAQoufyILRqDKdBneZBEeoYbOAoKGtPmL2MstKDnW5EbF+3'',
     ''Jn+NQU2MVke6jj0Y5r+tC9hEYBZff20gDj7KyxE5pFjivMAdskYXOnLTzdf1VKjKx5wdJj2IMqx8'',
     ''LJS6I2TCkHa4QoBHJFXlF584olZ2R77goC2rZ16bKE0x/buPnCuGRGUTFJ0EyHy0k8eRKzYbLILY'',
     ''3xP7VUaxTnup4hQHusseFF/eXJ1FQ2GJrPDV8fuoUwBbXhzYBOqX87P91KiBIWIIEipXQdO86Yrl'',
     ''zEOGJREUpODGpP7FRJEPYs9lZdAzDaGcIZ9IjaRUIchjbaxePsSvDXdyOotyqe+H3yB7TpPX5YY+'',
     ''GrYDVeME1RnI+yHjyqa/YKyzUJoSw7affupoXs3HsYOUGZAcsGw3lcLVPOk9E625Kt8u1a6EeKDA'',
     ''EvVgLskQYuOjhj28zlE5FpudJjX6tc3QKm59DDNXf9iXYuhZ57CNiSHyjil+qqXRKQAAVUUbBrXh'',
     ''isCLOnCSbCscw8JC7yWva1nMlFYEVCLbcx0KmhfE2fmgtgRgPD2uoq/978SWlLRbB8j349QcHRTH'',
     ''xZw0VY4hOBa9eGokUPhoFfGyKbwClfq8+u0bBSPa8uVseXxTk9ywKOGqrilL7qA9STrXlWhBLGvf'',
     ''tTd/LRIlvav8scRdEFgLgXCQKoj3N90P4Vw/ilG1yk1SWyVRhIeFnjziNL0ZgYIpQMvsPF1vW6B0'',
     ''yj7hQhUCELas4lkv0Xn5D1DM+eQn2jdgfYTxDVqXkl7+I+bTkOFt1kiAVnu41jJQbiE1gs63NppK'',
     ''S/YkeiongPcWaYyL7e+TVRXOTPS/3TclvZlLXduVS8AvgWmh/dOStgtmkJpKGvuyuaRGaRkMc2ja'',
     ''SX+qieKBX6Cxgw+aZmSL9ESWff+zJ7N1to1cYWvMlb7rvLkgT2eCWWV1giMxbwXPRT5xiORaVxHC'',
     ''VJmfYb/p6qhAYMS66s3BwPLpb0xFHGkSZEn2nEFwD1sm7zvc056KV8P1YA5tVTwyJoVgDlv1WRv6'',
     ''qcFGGvqPTHyhReKp11Up21lRymXCrzXOdgrbBUU9Eal+x+qBDQqstor4jlL/43tZU6KeoFbNSKyz'',
     ''3w1Db+Rc9Hqms8Re0OL72M/OTvA1mbMQb/U+xhnWnILWIgtpIN90Ckb9F0DtEIWOzPhsp8puOr8k'',
     ''yNZJcIEaWD0kYaJjwbu2rIsEMsxEfcKKo9mrEPSqW//df0uCBKhaSW2tlJ+MLU+npuHj6N41EoX3'',
     ''1JPYQGWIf0v92r+kKgQgfCR8MtEXxaFuCYVmGja0ZmnVfQUhEsOlfSf3zzqkk5jVlIEiwM0cxfBk'',
     ''24lh/8S8Mz3xauZMGMsF4OqbuR0dzVz/D5hC/qdUuLCfS41xamrUe4z9pSLMqA/RMb3kK5WEFNNH'',
     ''OCTLX5f6xwfERlge7YZIBAu3HnnbzSh/QXP14guwwnf4gCFFkJVcAOtw8//da3qk1tnWOJ5QzgKn'',
     ''f2QAD+vrBm9gds8GzB0K/4aii/LZ5GLCGMldMFrYVF8iMocdW0f+tcxoFrVPLSC6K9fZuXmmpUMt'',
     ''kQ0chFPopBK/SKp+O98dL/JHDh54cwm1CuYM8u9Ct/+d0WHSIDkuKgYDK6EWlQRlOSLrYBm4uA7V'',
     ''/hYcJW4BJvgww8CacXY+lWUmFe1wlTamlDHWAofJsZSD8HRQ4VyykIxZunD2QpcLgRVKeWyMr/zp'',
     ''JVkNTnRo2GxxZzAbc9fod7AKkWEvxFrbu2FqZxWF8Ps+UZPV6YOeS3KU9I1kCVyY4Yfo/Qw3dcbT'',
     ''sTRdJQ28M+Q13OAbEzRCuKrQr36LtFAqBAg1q6NE7sSXmdCZFyBJe5qCQUTFtweDOyambGr99JUv'',
     ''deXGCCxAF3KS7tmVp1S3iio9lHIvVfdCpAgSeBlOMzEskWLu6nyNqU8Js11mL4bDVfOxU10XEAa9'',
     ''Jz9BQLhs/kZZ+gzfkjfgP49euC43AOfPGOG8recpvqfdMYTeXO5E5T6H8UEbG3iK5/DSoHhMyaUo'',
     ''B7Z3KC5BOSymya/zXiahxQYlagx3wrwSzuHc1W22OjdbZ0rQmVTmFtK/gTRSj32J8xXs/GRvD8gT'',
     ''W4thvu90HT4nFLeC3KwXnRkD4L9A3fhh4OdXkuk3qlp3BGliUvr5Vj1GOva7i2RuokMVPwHwmMie'',
     ''h59+MKjMdwEVpCdMzEgzHcosL0MbE6Bvn48fHd7W3adHoAJmYMeyHMxkqzfS09H8JXKOk5t29A+O'',
     ''cANO7C3BAz3a+7L+mohD7tLOC65DT/vrI4nLIm059zwBDTZpIuDU0gI2XoVMeB/QugU4B0b1UjgT'',
     ''euEzOLbHigV0SN9KoYpnnLKSus2t+mzHn+gMNJ4zCAlOnV+5I1kfKemv8V8mSg/2gDRuHISbsio6'',
     ''v+6ttJGPqDgZ4sPTxkX4799X8qos9gtrAC947nVv73n0YqkWiRzUWqURU9T+hJDSKfLmALAWe8Lx'',
     ''QnTAI5h0dh8rYFN0wqPsdku9kRa5Y/SYjGrmrfE8ybwUl4NFbT4hhYgRR00n8H0XjlEpP1C1c5u0'',
     ''a2v5w2iBFhCusMpjO5Y9DhTboVVWS/yNXN4UbjXxiffB2lFOr2g+aNkPS42dT6jJ0fmgUj/gkTaA'',
     ''jofhRm7YXlBx0JkOGnE8EJNODLJlCFouaPDkH/z7VpvfXhDjXY3qehh5I7H9q3Gce+e+4Z25LiNF'',
     ''zzPqwOwhoccFGFLXpFlyfK5W6/WWONx1j7E9j2OqjoDpq401OZ+scgvAkfret5ItSWL9QVVrW00u'',
     ''+ejexm1+6r7Eq1c/Nc6QVtrWaVdzhBQ5QqZKIwqdDfgogFD59hXys3qiGeO4TRo0URGcrTEFWO97'',
     ''pSI8dzOGlgcaVsdFNr6dJJ7aE/loTKZ4my1l2u80wzt/qSdM9Bdr5iASYnYLfc2aiUN3loJn7eDK'',
     ''W+7z/HnIADZ1n0C2bZK1OZrQBojFejGwroNvIR84hkrK5gElMJ/RYjT/Zvs7/d0kfCBy6+Ls4tO2'',
     ''9kreCOrHvk2ZnMSLmrCX5axJupcHz2ZHjLN1KnzFc5MbE1gek2HOLIKxDBy6CblVdZ3SEX2T3a9/'',
     ''EuSSbcatO9opvOzCVHHVwaIk/vaCTRPFWE8nYltR4zocJoHLAS7IB+nLf+MTGQnt+MlGAMj52Eky'',
     ''Y/uI4+2bz4Ce8WwRmlOBGFck1Wv38wNRqPdHrvXmtxXPnH7U3sbX2xq7KAJBXOVEmU7bXiXUR7Yw'',
     ''/Kq4K4gRXSoh0ym7iwn1s5YC6RTqtY9aAt1XIZR7Z7WskKPA51j7AUq9g0xn04k7ufNL36QtnilI'',
     ''q4wyHsT8UixYupaM8wOyXdh/vb3RyoOugmDBQrS7sJrapWvoX7k/qXE3ZwQusthSMUnJWFOEHlS0'',
     ''l4ZIKr5maY7TLdyilSuFPJKsESzAe6jyDZmxiCO+N08b+giAfAPlVE3I0HAf1FfOfuytkFQ6OgbZ'',
     ''JzwrAL+iMICEo65+wAMg7W0yAsaGQKlpfSing4p69TDLX3rFeefreeREaLXpvNwFD7Rzo+IOV4hu'',
     ''eBrXoPbovc26nIcvo2TBvNFql4vXZpZe4iGrPMPl5apjEJCQjWlIRLMYmLuKHj6uh2TjtNw7iTH5'',
     ''va8Z1btf3KBFY8pllJsm/iiG7FGcP2ABXR63SVChBkDkTbHLdvflcGy/7StV7/IYEkGjNlpwCAcM'']"

definition tigerSBoxesLastLine :: string where
  "tigerSBoxesLastLine =
    ''y0RgmE91FE3nDiioDkPZVs1lUF9T15ElwZbvCnLxIzLIH6Vjc285oMM=''"

text \<open>Every line of the raw string literal ends in a newline.\<close>

definition tigerSBoxesBase64 :: gostring where
  "tigerSBoxesBase64 =
     concat (map (\<lambda>l. ascii l @ [10]) (tigerSBoxesFullLines @ [tigerSBoxesLastLine]))"

end
