(* ===== verification/Tiger.thy ===== *)
theory Tiger
  imports Tiger_Tables
begin

text \<open>
  \<^verbatim>\<open>internal/online/bitdemon/tiger.go\<close>: the Tiger-192 hash, which names accounts and derives
  the initialisation vectors. The pointers the source updates are the components of a triple.
\<close>

section \<open>The S-boxes\<close>

text \<open>\<^verbatim>\<open>base64.StdEncoding\<close>: the alphabet, and decoding of padded text without line breaks.\<close>

definition b64_digit :: "byte \<Rightarrow> byte option" where
  "b64_digit c =
     (if 65 \<le> c \<and> c \<le> 90 then Some (c - 65)
      else if 97 \<le> c \<and> c \<le> 122 then Some (c - 71)
      else if 48 \<le> c \<and> c \<le> 57 then Some (c + 4)
      else if c = 43 then Some 62
      else if c = 47 then Some 63
      else None)"

definition b64_bytes :: "byte \<Rightarrow> byte \<Rightarrow> byte \<Rightarrow> byte \<Rightarrow> bytes" where
  "b64_bytes x y z w =
     [push_bit 2 x OR drop_bit 4 y, push_bit 4 y OR drop_bit 2 z, push_bit 6 z OR w]"

fun b64_decode :: "gostring \<Rightarrow> bytes option" where
  "b64_decode [] = Some []"
| "b64_decode (a # b # c # d # rest) =
     (case (b64_digit a, b64_digit b) of
        (Some x, Some y) \<Rightarrow>
          (if d = 61 \<and> rest = [] then
             (if c = 61 then Some (take 1 (b64_bytes x y 0 0))
              else (case b64_digit c of
                      Some z \<Rightarrow> Some (take 2 (b64_bytes x y z 0))
                    | None \<Rightarrow> None))
           else (case (b64_digit c, b64_digit d) of
                   (Some z, Some w) \<Rightarrow> map_option (\<lambda>bs. b64_bytes x y z w @ bs) (b64_decode rest)
                 | _ \<Rightarrow> None))
      | _ \<Rightarrow> None)"
| "b64_decode _ = None"

text \<open>\<open>None\<close> is a panic at start-up.\<close>

definition loadTigerSBoxes :: "u64 list list option" where
  "loadTigerSBoxes =
     (let encoded = filter (\<lambda>c. c \<noteq> 10) tigerSBoxesBase64
      in case b64_decode encoded of
           None \<Rightarrow> None
         | Some data \<Rightarrow>
             if length data \<noteq> 4 * 256 * 8 then None
             else Some (map (\<lambda>tableIndex. map (\<lambda>entryIndex.
                     let offset = (tableIndex * 256 + entryIndex) * 8
                     in LE_Uint64 (slice offset (offset + 8) data)) [0..<256]) [0..<4]))"

definition tigerSBoxes :: "u64 list list" where
  "tigerSBoxes = (case loadTigerSBoxes of None \<Rightarrow> [] | Some tables \<Rightarrow> tables)"

section \<open>The hash\<close>

definition tigerBlockSize :: nat where "tigerBlockSize = 64"
definition tigerDigestSize :: nat where "tigerDigestSize = 24"

type_synonym tiger_state = "u64 \<times> u64 \<times> u64"

definition sbox :: "u64 list list \<Rightarrow> nat \<Rightarrow> u64 \<Rightarrow> nat \<Rightarrow> u64" where
  "sbox tables t v shift = tables ! t ! unat (ucast (drop_bit shift v) :: byte)"

definition tigerRound :: "u64 list list \<Rightarrow> tiger_state \<Rightarrow> u64 \<Rightarrow> u64 \<Rightarrow> tiger_state" where
  "tigerRound S = (\<lambda>(a, b, c) w multiplier.
     let c = c XOR w;
         v = c;
         a = a - (sbox S 0 v 0 XOR sbox S 1 v 16 XOR sbox S 2 v 32 XOR sbox S 3 v 48);
         b = b + (sbox S 3 v 8 XOR sbox S 2 v 24 XOR sbox S 1 v 40 XOR sbox S 0 v 56);
         b = b * multiplier
     in (a, b, c))"

definition tigerPass :: "u64 list list \<Rightarrow> tiger_state \<Rightarrow> u64 list \<Rightarrow> u64 \<Rightarrow> tiger_state" where
  "tigerPass S = (\<lambda>(a, b, c) ws multiplier.
     let (a, b, c) = tigerRound S (a, b, c) (ws ! 0) multiplier;
         (b, c, a) = tigerRound S (b, c, a) (ws ! 1) multiplier;
         (c, a, b) = tigerRound S (c, a, b) (ws ! 2) multiplier;
         (a, b, c) = tigerRound S (a, b, c) (ws ! 3) multiplier;
         (b, c, a) = tigerRound S (b, c, a) (ws ! 4) multiplier;
         (c, a, b) = tigerRound S (c, a, b) (ws ! 5) multiplier;
         (a, b, c) = tigerRound S (a, b, c) (ws ! 6) multiplier;
         (b, c, a) = tigerRound S (b, c, a) (ws ! 7) multiplier
     in (a, b, c))"

definition tigerKeySchedule :: "u64 list \<Rightarrow> u64 list" where
  "tigerKeySchedule ws =
     (let w0 = ws ! 0; w1 = ws ! 1; w2 = ws ! 2; w3 = ws ! 3;
          w4 = ws ! 4; w5 = ws ! 5; w6 = ws ! 6; w7 = ws ! 7;
          w0 = w0 - (w7 XOR 0xa5a5a5a5a5a5a5a5);
          w1 = w1 XOR w0;
          w2 = w2 + w1;
          w3 = w3 - (w2 XOR push_bit 19 (NOT w1));
          w4 = w4 XOR w3;
          w5 = w5 + w4;
          w6 = w6 - (w5 XOR drop_bit 23 (NOT w4));
          w7 = w7 XOR w6;
          w0 = w0 + w7;
          w1 = w1 - (w0 XOR push_bit 19 (NOT w7));
          w2 = w2 XOR w1;
          w3 = w3 + w2;
          w4 = w4 - (w3 XOR drop_bit 23 (NOT w2));
          w5 = w5 XOR w4;
          w6 = w6 + w5;
          w7 = w7 - (w6 XOR 0x0123456789abcdef)
      in [w0, w1, w2, w3, w4, w5, w6, w7])"

definition tigerCompress :: "u64 list list \<Rightarrow> u64 list \<Rightarrow> tiger_state \<Rightarrow> tiger_state" where
  "tigerCompress S ws = (\<lambda>(originalA, originalB, originalC).
     let (a, b, c) = tigerPass S (originalA, originalB, originalC) ws 5;
         ws = tigerKeySchedule ws;
         (c, a, b) = tigerPass S (c, a, b) ws 7;
         ws = tigerKeySchedule ws;
         (b, c, a) = tigerPass S (b, c, a) ws 9
     in (a XOR originalA, b - originalB, c + originalC))"

definition tigerPad :: "bytes \<Rightarrow> bytes" where
  "tigerPad payload =
     (let lengthWithMarker = int (length payload) + 1;
          zeroCount = (56 - lengthWithMarker mod 64 + 64) mod 64
      in payload @ 0x01 # replicate (nat zeroCount) 0
           @ LE_PutUint64 (word_of_nat (length payload) * 8))"

definition tiger_block_words :: "bytes \<Rightarrow> nat \<Rightarrow> u64 list" where
  "tiger_block_words padded offset =
     map (\<lambda>index. let start = offset + index * 8 in LE_Uint64 (slice start (start + 8) padded)) [0..<8]"

definition Tiger192_with :: "u64 list list \<Rightarrow> bytes \<Rightarrow> bytes" where
  "Tiger192_with S payload =
     (let padded = tigerPad payload;
          (a, b, c) = fold (\<lambda>i. tigerCompress S (tiger_block_words padded (i * tigerBlockSize)))
            [0..<length padded div tigerBlockSize]
            (0x0123456789abcdef, 0xfedcba9876543210, 0xf096a5b4c3b2e187)
      in LE_PutUint64 a @ LE_PutUint64 b @ LE_PutUint64 c)"

definition Tiger192 :: "bytes \<Rightarrow> bytes" where
  "Tiger192 payload = Tiger192_with tigerSBoxes payload"

lemma length_Tiger192 [simp]: "length (Tiger192 payload) = tigerDigestSize"
  by (simp add: Tiger192_def Tiger192_with_def tigerDigestSize_def Let_def split: prod.splits)

section \<open>Start-up does not panic\<close>

definition b64_char_ok :: "char \<Rightarrow> bool" where
  "b64_char_ok c \<longleftrightarrow> b64_digit (word_of_nat (of_char c)) \<noteq> None"

lemma b64_alphabet_ok:
  "list_all b64_char_ok ''ABCDEFGHIJKLMNOPQRSTUVWXYZabcdefghijklmnopqrstuvwxyz0123456789+/''"
  by (simp add: b64_char_ok_def b64_digit_def)

lemmas b64_char_oks = b64_alphabet_ok [unfolded list.pred_inject]

lemma full_lines_ok:
  "list_all (list_all b64_char_ok) tigerSBoxesFullLines"
  "list_all (\<lambda>l. length l = 76) tigerSBoxesFullLines"
  "length tigerSBoxesFullLines = 143"
  unfolding tigerSBoxesFullLines_def
  by (simp_all only: list.pred_inject list.size b64_char_oks simp_thms)

lemma last_line_ok:
  "list_all b64_char_ok (take 55 tigerSBoxesLastLine)" "length tigerSBoxesLastLine = 56"
  "drop 55 tigerSBoxesLastLine = ''=''"
  by (simp_all add: tigerSBoxesLastLine_def b64_char_oks)

abbreviation b64_ok :: "byte \<Rightarrow> bool" where
  "b64_ok c \<equiv> b64_digit c \<noteq> None"

lemma b64_digit_pad [simp]: "b64_digit 61 = None"
  by (simp add: b64_digit_def)

lemma length_b64_bytes [simp]: "length (b64_bytes x y z w) = 3"
  by (simp add: b64_bytes_def)

lemma b64_decode_padded:
  assumes "\<forall>c\<in>set ys. b64_ok c" and "length ys = 4 * n + 3"
  shows "\<exists>bs. b64_decode (ys @ [61]) = Some bs \<and> length bs = 3 * n + 2"
  using assms
proof (induction n arbitrary: ys)
  case 0
  then have "length ys = Suc (Suc (Suc 0))" by simp
  then obtain a b c where ys: "ys = [a, b, c]"
    by (auto simp: length_Suc_conv)
  with 0 obtain x y z where "b64_digit a = Some x" "b64_digit b = Some y" "b64_digit c = Some z"
    by auto
  moreover from this have "c \<noteq> 61" by auto
  ultimately show ?case using ys by simp
next
  case (Suc n)
  then have "length ys = Suc (Suc (Suc (Suc (4 * n + 3))))" by simp
  then obtain a b c d zs where ys: "ys = a # b # c # d # zs" and zs: "length zs = 4 * n + 3"
    by (auto simp only: length_Suc_conv)
  with Suc.prems have "\<forall>c\<in>set zs. b64_ok c" by simp
  from Suc.IH [OF this zs] obtain bs where "b64_decode (zs @ [61]) = Some bs" "length bs = 3 * n + 2"
    by blast
  with Suc.prems ys show ?case by auto
qed

lemma ascii_append [simp]: "ascii (s @ t) = ascii s @ ascii t"
  by (simp add: ascii_def)

lemma b64_ok_ascii: "list_all b64_char_ok l \<Longrightarrow> \<forall>c\<in>set (ascii l). b64_ok c"
  by (auto simp: ascii_def b64_char_ok_def list_all_iff)

lemma b64_ok_no_newline: "\<forall>c\<in>set xs. b64_ok c \<Longrightarrow> filter (\<lambda>c. c \<noteq> 10) xs = xs"
  by (rule filter_True) (auto simp: b64_digit_def)

lemma encoded_text:
  "\<exists>ys. filter (\<lambda>c. c \<noteq> 10) tigerSBoxesBase64 = ys @ [61] \<and> (\<forall>c\<in>set ys. b64_ok c) \<and>
     length ys = 4 * 2730 + 3"
proof -
  let ?full = "concat (map ascii tigerSBoxesFullLines)"
  let ?last = "ascii (take 55 tigerSBoxesLastLine)"
  have last: "ascii tigerSBoxesLastLine = ?last @ [61]"
  proof -
    have "tigerSBoxesLastLine = take 55 tigerSBoxesLastLine @ ''=''"
      using append_take_drop_id [of 55 tigerSBoxesLastLine] by (simp only: last_line_ok(3))
    then have "ascii tigerSBoxesLastLine = ascii (take 55 tigerSBoxesLastLine @ ''='')"
      by (rule arg_cong)
    then show ?thesis
      by (simp only: ascii_append) (simp add: ascii_def)
  qed
  have "filter (\<lambda>c. c \<noteq> 10) (concat (map (\<lambda>l. ascii l @ [10]) ls)) = concat (map ascii ls)"
    if "list_all (list_all b64_char_ok) ls" for ls
    using that by (induction ls) (auto simp: b64_ok_no_newline [OF b64_ok_ascii])
  then have "filter (\<lambda>c. c \<noteq> 10) tigerSBoxesBase64 = (?full @ ?last) @ [61]"
    using full_lines_ok(1) last b64_ok_no_newline [OF b64_ok_ascii [OF last_line_ok(1)]]
    by (simp add: tigerSBoxesBase64_def)
  moreover have "\<forall>c\<in>set (?full @ ?last). b64_ok c"
    using full_lines_ok(1) b64_ok_ascii last_line_ok(1)
    by (fastforce simp: list_all_iff)
  moreover have "length (concat (map ascii ls)) = 76 * length ls"
    if "list_all (\<lambda>l. length l = 76) ls" for ls
    using that by (induction ls) (auto simp: ascii_def)
  then have "length (?full @ ?last) = 4 * 2730 + 3"
    using full_lines_ok last_line_ok(2) by (simp add: ascii_def)
  ultimately show ?thesis by blast
qed

lemma loadTigerSBoxes_shape:
  "\<exists>tables. loadTigerSBoxes = Some tables \<and> length tables = 4 \<and> (\<forall>t\<in>set tables. length t = 256)"
proof -
  obtain ys where "filter (\<lambda>c. c \<noteq> 10) tigerSBoxesBase64 = ys @ [61]"
    "\<forall>c\<in>set ys. b64_ok c" "length ys = 4 * 2730 + 3"
    using encoded_text by blast
  with b64_decode_padded [of ys 2730] show ?thesis
    by (auto simp: loadTigerSBoxes_def)
qed

lemma tigerSBoxes_shape: "length tigerSBoxes = 4" "\<forall>t\<in>set tigerSBoxes. length t = 256"
proof -
  obtain tables where t: "loadTigerSBoxes = Some tables" "length tables = 4"
    "\<forall>t\<in>set tables. length t = 256"
    using loadTigerSBoxes_shape by blast
  have "tigerSBoxes = tables" unfolding tigerSBoxes_def t(1) by simp
  with t show "length tigerSBoxes = 4" "\<forall>t\<in>set tigerSBoxes. length t = 256" by simp_all
qed

text \<open>Every index the hash uses is inside the tables.\<close>

lemma sbox_in_range:
  "t < 4 \<Longrightarrow> t < length tigerSBoxes \<and> unat (ucast (drop_bit n v) :: byte) < length (tigerSBoxes ! t)"
  for v :: u64
  using unsigned_less [of "ucast (drop_bit n v) :: byte"]
  by (simp add: tigerSBoxes_shape)

lemma length_tigerPad: "length (tigerPad payload) mod 64 = 0 \<and> length (tigerPad payload) < length payload + 73"
proof -
  define n where "n = length payload"
  define r q where "r = n mod 64" and "q = n div 64"
  then have n: "n = 64 * q + r" and r: "r < 64" by simp_all
  have "(int n + 1) mod 64 = (if r = 63 then 0 else int r + 1)"
  proof -
    have "int n + 1 = int r + 1 + 64 * int q" by (simp add: n)
    then have "(int n + 1) mod 64 = (int r + 1) mod 64" by (metis mod_mult_self2)
    with r show ?thesis by (auto simp: mod_if)
  qed
  then have z: "nat ((56 - (int n + 1) mod 64 + 64) mod 64) = (if r < 56 then 55 - r else 119 - r)"
  proof -
    assume m: "(int n + 1) mod 64 = (if r = 63 then 0 else int r + 1)"
    have "(56 - (int n + 1) mod 64 + 64) mod 64 = int (if r < 56 then 55 - r else 119 - r)"
    proof (cases "r < 56")
      case True
      then have "(56 - (int n + 1) mod 64 + 64) mod 64 = (55 - int r + 64) mod 64"
        by (simp add: m)
      also have "\<dots> = 55 - int r"
        using True unfolding mod_add_self2 by (intro mod_pos_pos_trivial) auto
      finally show ?thesis using True by simp
    next
      case False
      with r show ?thesis by (auto simp: m mod_pos_pos_trivial)
    qed
    then show ?thesis by (simp only: nat_int)
  qed
  have "length (tigerPad payload) = n + 1 + (if r < 56 then 55 - r else 119 - r) + 8"
    unfolding tigerPad_def Let_def n_def [symmetric] z by (simp add: n_def)
  also have "\<dots> = 64 * (if r < 56 then q + 1 else q + 2)"
    using r unfolding n by auto
  finally show ?thesis
    using n r by (auto simp: n_def split: if_splits)
qed

section \<open>Properties\<close>

text \<open>The start-up code that decodes the S-box constants never panics: the text in the source is
  well-formed base64 of exactly 8192 bytes, which makes four tables of 256 words, and every index
  the hash computes is inside them.\<close>

theorem tiger_tables_load:
  "loadTigerSBoxes = Some tigerSBoxes \<and> map length tigerSBoxes = [256, 256, 256, 256] \<and>
   (\<forall>(v :: u64) shift. unat (ucast (drop_bit shift v) :: byte) < 256)"
proof -
  obtain tables where t: "loadTigerSBoxes = Some tables"
    using loadTigerSBoxes_shape by blast
  have "tigerSBoxes = tables" unfolding tigerSBoxes_def t by simp
  moreover have "map length tigerSBoxes = replicate 4 256"
    using tigerSBoxes_shape by (intro nth_equalityI) auto
  moreover have "unat (ucast (drop_bit n v) :: byte) < 256" for v :: u64 and n
    using unsigned_less [of "ucast (drop_bit n v) :: byte"] by simp
  ultimately show ?thesis using t by (simp add: numeral_eq_Suc)
qed

text \<open>\<^verbatim>\<open>tigerPad\<close> makes a positive number of whole 64-byte blocks, at most 72 bytes longer than the
  payload, so the block loop of \<^verbatim>\<open>Tiger192\<close> never slices past the end; the digest has 24 bytes.\<close>

theorem tigerPad_blocks:
  "length (tigerPad payload) mod tigerBlockSize = 0 \<and> length (tigerPad payload) \<le> length payload + 72 \<and>
   length payload < length (tigerPad payload) \<and> prefix payload (tigerPad payload) \<and>
   length (Tiger192 payload) = tigerDigestSize"
  using length_tigerPad [of payload]
  by (simp add: tigerBlockSize_def) (simp add: tigerPad_def Let_def)

end
