(* ===== verification/Std_DES.thy ===== *)
theory Std_DES
  imports Go_Prelude
begin

text \<open>
  Package crypto/des of the Go standard library, as far as the server uses it: triple DES with
  three keys on one block of eight bytes. The tables are those of FIPS 46-3, whose bit 1 is the
  most significant bit of the first byte. The theorem of this file is that decryption inverts
  encryption for every key; it does not depend on the S-boxes.
\<close>

section \<open>Bits of a block\<close>

definition be_bits :: "bytes \<Rightarrow> bool list" where
  "be_bits bs = concat (map (\<lambda>b. map (\<lambda>i. bit b (7 - i)) [0..<8]) bs)"

definition be_byte :: "bool list \<Rightarrow> byte" where
  "be_byte v = foldl (\<lambda>w b. push_bit 1 w OR (if b then 1 else 0)) 0 v"

fun be_unbits :: "bool list \<Rightarrow> bytes" where
  "be_unbits (a # b # c # d # e # f # g # h # v) = be_byte [a, b, c, d, e, f, g, h] # be_unbits v"
| "be_unbits v = []"

section \<open>Tables\<close>

definition des_IP :: "nat list" where
  "des_IP =
     [58, 50, 42, 34, 26, 18, 10, 2, 60, 52, 44, 36, 28, 20, 12, 4, 62, 54, 46, 38, 30, 22,
      14, 6, 64, 56, 48, 40, 32, 24, 16, 8, 57, 49, 41, 33, 25, 17, 9, 1, 59, 51, 43, 35, 27,
      19, 11, 3, 61, 53, 45, 37, 29, 21, 13, 5, 63, 55, 47, 39, 31, 23, 15, 7]"

definition des_FP :: "nat list" where
  "des_FP =
     [40, 8, 48, 16, 56, 24, 64, 32, 39, 7, 47, 15, 55, 23, 63, 31, 38, 6, 46, 14, 54, 22, 62,
      30, 37, 5, 45, 13, 53, 21, 61, 29, 36, 4, 44, 12, 52, 20, 60, 28, 35, 3, 43, 11, 51, 19,
      59, 27, 34, 2, 42, 10, 50, 18, 58, 26, 33, 1, 41, 9, 49, 17, 57, 25]"

definition des_E :: "nat list" where
  "des_E =
     [32, 1, 2, 3, 4, 5, 4, 5, 6, 7, 8, 9, 8, 9, 10, 11, 12, 13, 12, 13, 14, 15, 16, 17, 16,
      17, 18, 19, 20, 21, 20, 21, 22, 23, 24, 25, 24, 25, 26, 27, 28, 29, 28, 29, 30, 31, 32,
      1]"

definition des_P :: "nat list" where
  "des_P =
     [16, 7, 20, 21, 29, 12, 28, 17, 1, 15, 23, 26, 5, 18, 31, 10, 2, 8, 24, 14, 32, 27, 3, 9,
      19, 13, 30, 6, 22, 11, 4, 25]"

definition des_PC1 :: "nat list" where
  "des_PC1 =
     [57, 49, 41, 33, 25, 17, 9, 1, 58, 50, 42, 34, 26, 18, 10, 2, 59, 51, 43, 35, 27, 19, 11,
      3, 60, 52, 44, 36, 63, 55, 47, 39, 31, 23, 15, 7, 62, 54, 46, 38, 30, 22, 14, 6, 61, 53,
      45, 37, 29, 21, 13, 5, 28, 20, 12, 4]"

definition des_PC2 :: "nat list" where
  "des_PC2 =
     [14, 17, 11, 24, 1, 5, 3, 28, 15, 6, 21, 10, 23, 19, 12, 4, 26, 8, 16, 7, 27, 20, 13, 2,
      41, 52, 31, 37, 47, 55, 30, 40, 51, 45, 33, 48, 44, 49, 39, 56, 34, 53, 46, 42, 50, 36,
      29, 32]"

definition des_rotations :: "nat list" where
  "des_rotations =
     [1, 1, 2, 2, 2, 2, 2, 2, 1, 2, 2, 2, 2, 2, 2, 1]"

definition des_S :: "nat list list" where
  "des_S =
    [[14, 4, 13, 1, 2, 15, 11, 8, 3, 10, 6, 12, 5, 9, 0, 7, 0, 15, 7, 4, 14, 2, 13, 1, 10, 6,
      12, 11, 9, 5, 3, 8, 4, 1, 14, 8, 13, 6, 2, 11, 15, 12, 9, 7, 3, 10, 5, 0, 15, 12, 8, 2,
      4, 9, 1, 7, 5, 11, 3, 14, 10, 0, 6, 13],
     [15, 1, 8, 14, 6, 11, 3, 4, 9, 7, 2, 13, 12, 0, 5, 10, 3, 13, 4, 7, 15, 2, 8, 14, 12, 0,
      1, 10, 6, 9, 11, 5, 0, 14, 7, 11, 10, 4, 13, 1, 5, 8, 12, 6, 9, 3, 2, 15, 13, 8, 10, 1,
      3, 15, 4, 2, 11, 6, 7, 12, 0, 5, 14, 9],
     [10, 0, 9, 14, 6, 3, 15, 5, 1, 13, 12, 7, 11, 4, 2, 8, 13, 7, 0, 9, 3, 4, 6, 10, 2, 8, 5,
      14, 12, 11, 15, 1, 13, 6, 4, 9, 8, 15, 3, 0, 11, 1, 2, 12, 5, 10, 14, 7, 1, 10, 13, 0,
      6, 9, 8, 7, 4, 15, 14, 3, 11, 5, 2, 12],
     [7, 13, 14, 3, 0, 6, 9, 10, 1, 2, 8, 5, 11, 12, 4, 15, 13, 8, 11, 5, 6, 15, 0, 3, 4, 7,
      2, 12, 1, 10, 14, 9, 10, 6, 9, 0, 12, 11, 7, 13, 15, 1, 3, 14, 5, 2, 8, 4, 3, 15, 0, 6,
      10, 1, 13, 8, 9, 4, 5, 11, 12, 7, 2, 14],
     [2, 12, 4, 1, 7, 10, 11, 6, 8, 5, 3, 15, 13, 0, 14, 9, 14, 11, 2, 12, 4, 7, 13, 1, 5, 0,
      15, 10, 3, 9, 8, 6, 4, 2, 1, 11, 10, 13, 7, 8, 15, 9, 12, 5, 6, 3, 0, 14, 11, 8, 12, 7,
      1, 14, 2, 13, 6, 15, 0, 9, 10, 4, 5, 3],
     [12, 1, 10, 15, 9, 2, 6, 8, 0, 13, 3, 4, 14, 7, 5, 11, 10, 15, 4, 2, 7, 12, 9, 5, 6, 1,
      13, 14, 0, 11, 3, 8, 9, 14, 15, 5, 2, 8, 12, 3, 7, 0, 4, 10, 1, 13, 11, 6, 4, 3, 2, 12,
      9, 5, 15, 10, 11, 14, 1, 7, 6, 0, 8, 13],
     [4, 11, 2, 14, 15, 0, 8, 13, 3, 12, 9, 7, 5, 10, 6, 1, 13, 0, 11, 7, 4, 9, 1, 10, 14, 3,
      5, 12, 2, 15, 8, 6, 1, 4, 11, 13, 12, 3, 7, 14, 10, 15, 6, 8, 0, 5, 9, 2, 6, 11, 13, 8,
      1, 4, 10, 7, 9, 5, 0, 15, 14, 2, 3, 12],
     [13, 2, 8, 4, 6, 15, 11, 1, 10, 9, 3, 14, 5, 0, 12, 7, 1, 15, 13, 8, 10, 3, 7, 4, 12, 5,
      6, 11, 0, 14, 9, 2, 7, 11, 4, 1, 9, 12, 14, 2, 0, 6, 10, 13, 15, 3, 5, 8, 2, 1, 14, 7,
      4, 10, 8, 13, 15, 12, 9, 0, 3, 5, 6, 11]]"

section \<open>The cipher\<close>

definition permute_bits :: "nat list \<Rightarrow> bool list \<Rightarrow> bool list" where
  "permute_bits t v = map (\<lambda>i. v ! (i - 1)) t"

definition xor_bits :: "bool list \<Rightarrow> bool list \<Rightarrow> bool list" where
  "xor_bits u v = map2 (\<noteq>) u v"

definition bits_nat :: "bool list \<Rightarrow> nat" where
  "bits_nat v = foldl (\<lambda>n b. 2 * n + (if b then 1 else 0)) 0 v"

definition des_sbox :: "nat list \<Rightarrow> bool list \<Rightarrow> bool list" where
  "des_sbox s v =
     (let row = bits_nat [v ! 0, v ! 5]; col = bits_nat [v ! 1, v ! 2, v ! 3, v ! 4];
          n = s ! (16 * row + col)
      in [odd (n div 8), odd (n div 4), odd (n div 2), odd n])"

definition des_f :: "bool list \<Rightarrow> bool list \<Rightarrow> bool list" where
  "des_f r k =
     (let x = xor_bits (permute_bits des_E r) k
      in permute_bits des_P
           (concat (map (\<lambda>i. des_sbox (des_S ! i) (slice (6 * i) (6 * i + 6) x)) [0..<8])))"

fun des_schedule :: "nat list \<Rightarrow> bool list \<Rightarrow> bool list \<Rightarrow> bool list list" where
  "des_schedule [] c d = []"
| "des_schedule (n # ns) c d =
     (let c' = rotate n c; d' = rotate n d
      in permute_bits des_PC2 (c' @ d') # des_schedule ns c' d')"

definition des_keys :: "bytes \<Rightarrow> bool list list" where
  "des_keys key =
     (let v = permute_bits des_PC1 (be_bits key)
      in des_schedule des_rotations (take 28 v) (drop 28 v))"

definition des_round :: "bool list \<Rightarrow> bool list \<times> bool list \<Rightarrow> bool list \<times> bool list" where
  "des_round k = (\<lambda>(l, r). (r, xor_bits l (des_f r k)))"

definition des_crypt :: "bool list list \<Rightarrow> bool list \<Rightarrow> bool list" where
  "des_crypt ks v =
     (let x = permute_bits des_IP v;
          lr = fold des_round ks (take 32 x, drop 32 x)
      in permute_bits des_FP (snd lr @ fst lr))"

definition tdes_keys :: "bytes \<Rightarrow> bool list list \<times> bool list list \<times> bool list list" where
  "tdes_keys key =
     (des_keys (slice 0 8 key), des_keys (slice 8 16 key), des_keys (slice 16 24 key))"

definition tdes_encrypt :: "bytes \<Rightarrow> bytes \<Rightarrow> bytes" where
  "tdes_encrypt key block =
     (let (k1, k2, k3) = tdes_keys key
      in be_unbits (des_crypt k3 (des_crypt (rev k2) (des_crypt k1 (be_bits block)))))"

definition tdes_decrypt :: "bytes \<Rightarrow> bytes \<Rightarrow> bytes" where
  "tdes_decrypt key block =
     (let (k1, k2, k3) = tdes_keys key
      in be_unbits (des_crypt (rev k1) (des_crypt k2 (des_crypt (rev k3) (be_bits block)))))"

section \<open>Bits and bytes\<close>

lemma bit_be_byte: "bit (be_byte v) j \<longleftrightarrow> j < 8 \<and> j < length v \<and> v ! (length v - 1 - j)"
proof (induction v arbitrary: j rule: rev_induct)
  case Nil
  then show ?case by (simp add: be_byte_def)
next
  case (snoc x v)
  have eq: "be_byte (v @ [x]) = push_bit 1 (be_byte v) OR (if x then 1 else 0)"
    unfolding be_byte_def foldl_append foldl_Cons foldl_Nil ..
  have "bit (be_byte (v @ [x])) j \<longleftrightarrow> (if j = 0 then x else j < 8 \<and> bit (be_byte v) (j - 1))"
    unfolding eq bit_or_iff bit_push_bit_iff by (auto simp: bit_1_iff)
  with snoc [of "j - 1"] show ?case
    by (cases j) (auto simp: nth_append)
qed

lemma be_byte_bits: "be_byte (map (\<lambda>i. bit b (7 - i)) [0..<8]) = b"
  by (rule bit_word_eqI) (auto simp: bit_be_byte)

lemma length_be_bits [simp]: "length (be_bits bs) = 8 * length bs"
  by (induction bs) (simp_all add: be_bits_def)

lemma be_bits_Nil [simp]: "be_bits [] = []"
  and be_bits_Cons: "be_bits (b # bs) = map (\<lambda>i. bit b (7 - i)) [0..<8] @ be_bits bs"
  by (simp_all add: be_bits_def)

lemma be_unbits_be_bits [simp]: "be_unbits (be_bits bs) = bs"
proof (induction bs)
  case Nil
  then show ?case by simp
next
  case (Cons b bs)
  have "be_unbits (map (\<lambda>i. bit b (7 - i)) [0..<8] @ v) =
      be_byte (map (\<lambda>i. bit b (7 - i)) [0..<8]) # be_unbits v" for v
    by (simp add: upt_rec)
  with Cons show ?case by (simp add: be_bits_Cons be_byte_bits)
qed

lemma bits_be_byte:
  "map (\<lambda>i. bit (be_byte [a, b, c, d, e, f, g, h]) (7 - i)) [0..<8] = [a, b, c, d, e, f, g, h]"
  by (simp add: bit_be_byte upt_rec)

lemma be_bits_be_unbits: "length v mod 8 = 0 \<Longrightarrow> be_bits (be_unbits v) = v"
proof (induction v rule: be_unbits.induct)
  case (1 a b c d e f g h v)
  then show ?case by (simp add: be_bits_Cons bits_be_byte)
qed auto

lemma length_be_unbits: "length v mod 8 = 0 \<Longrightarrow> length (be_unbits v) = length v div 8"
  using be_bits_be_unbits [of v] length_be_bits [of "be_unbits v"] by simp

section \<open>Decryption inverts encryption\<close>

lemma length_permute_bits [simp]: "length (permute_bits t v) = length t"
  by (simp add: permute_bits_def)

lemma permute_inverse:
  assumes "map (\<lambda>i. s ! (i - 1) - 1) t = [0..<n]" and "\<forall>i\<in>set t. i - 1 < length s"
    and "length v = n"
  shows "permute_bits t (permute_bits s v) = v"
proof -
  have "permute_bits t (permute_bits s v) = map (\<lambda>j. v ! j) (map (\<lambda>i. s ! (i - 1) - 1) t)"
    using assms(2) by (auto simp: permute_bits_def)
  also have "\<dots> = v"
    unfolding assms(1) using assms(3) map_nth [of v] by simp
  finally show ?thesis .
qed

lemma length_des_tables: "length des_IP = 64" "length des_FP = 64" "length des_P = 32"
  by (simp_all add: des_IP_def des_FP_def des_P_def)

lemma FP_IP: "length v = 64 \<Longrightarrow> permute_bits des_FP (permute_bits des_IP v) = v"
  by (rule permute_inverse [where n = 64], code_simp, code_simp)

lemma IP_FP: "length v = 64 \<Longrightarrow> permute_bits des_IP (permute_bits des_FP v) = v"
  by (rule permute_inverse [where n = 64], code_simp, code_simp)

lemma length_xor_bits [simp]: "length (xor_bits u v) = min (length u) (length v)"
  by (simp add: xor_bits_def)

lemma xor_bits_cancel: "length u = length v \<Longrightarrow> xor_bits (xor_bits u v) v = u"
  by (induction u v rule: list_induct2) (auto simp: xor_bits_def)

lemma length_des_f [simp]: "length (des_f r k) = 32"
  by (simp add: des_f_def length_des_tables)

definition halves_ok :: "bool list \<times> bool list \<Rightarrow> bool" where
  "halves_ok p \<longleftrightarrow> length (fst p) = 32 \<and> length (snd p) = 32"

lemma des_round_ok: "halves_ok p \<Longrightarrow> halves_ok (des_round k p)"
  by (auto simp: halves_ok_def des_round_def split: prod.splits)

lemma des_rounds_ok: "halves_ok p \<Longrightarrow> halves_ok (fold des_round ks p)"
  by (induction ks arbitrary: p) (simp_all add: des_round_ok)

lemma des_round_undo:
  "halves_ok p \<Longrightarrow> des_round k (prod.swap (des_round k p)) = prod.swap p"
  by (auto simp: halves_ok_def des_round_def xor_bits_cancel split: prod.splits)

lemma des_rounds_undo:
  "halves_ok p \<Longrightarrow> fold des_round (rev ks) (prod.swap (fold des_round ks p)) = prod.swap p"
proof (induction ks arbitrary: p)
  case Nil
  then show ?case by simp
next
  case (Cons k ks)
  then show ?case by (simp add: des_round_ok des_round_undo)
qed

lemma length_des_crypt [simp]: "length (des_crypt ks v) = 64"
  by (simp add: des_crypt_def length_des_tables Let_def)

lemma des_crypt_undo:
  assumes "length v = 64"
  shows "des_crypt (rev ks) (des_crypt ks v) = v"
proof -
  let ?x = "permute_bits des_IP v"
  let ?p = "(take 32 ?x, drop 32 ?x)"
  obtain l r where lr: "fold des_round ks ?p = (l, r)" by fastforce
  have p: "halves_ok ?p" by (simp add: halves_ok_def length_des_tables)
  then have len: "length l = 32" "length r = 32"
    using des_rounds_ok [OF p, of ks] lr by (simp_all add: halves_ok_def)
  have c: "des_crypt ks v = permute_bits des_FP (r @ l)"
    by (simp add: des_crypt_def lr Let_def)
  have "fold des_round (rev ks) (r, l) = (drop 32 ?x, take 32 ?x)"
    using des_rounds_undo [OF p, of ks] lr by simp
  then show ?thesis
    using len assms by (simp add: des_crypt_def [of "rev ks"] c IP_FP FP_IP Let_def)
qed

lemma length_tdes [simp]:
  "length (tdes_encrypt key b) = 8" "length (tdes_decrypt key b) = 8"
  by (simp_all add: tdes_encrypt_def tdes_decrypt_def tdes_keys_def length_be_unbits)

lemma tdes_decrypt_encrypt: "length b = 8 \<Longrightarrow> tdes_decrypt key (tdes_encrypt key b) = b"
  using des_crypt_undo [of _ "rev ks" for ks]
  by (simp add: tdes_encrypt_def tdes_decrypt_def tdes_keys_def be_bits_be_unbits des_crypt_undo)

lemma tdes_encrypt_decrypt: "length b = 8 \<Longrightarrow> tdes_encrypt key (tdes_decrypt key b) = b"
  using des_crypt_undo [where ks = "rev ks" for ks]
  by (simp add: tdes_encrypt_def tdes_decrypt_def tdes_keys_def be_bits_be_unbits des_crypt_undo)

end
