(* ===== verification/Std_SHA1.thy ===== *)
theory Std_SHA1
  imports Go_Prelude
begin

text \<open>
  Packages crypto/sha1 and crypto/hmac of the Go standard library, as far as the server uses
  them: the SHA-1 digest of a byte string and its keyed variant (FIPS 180-4 and RFC 2104).
\<close>

definition sha1_pad :: "bytes \<Rightarrow> bytes" where
  "sha1_pad msg =
     msg @ 0x80 # replicate ((119 - length msg mod 64) mod 64) 0
         @ be_bytes 8 (word_of_nat (8 * length msg) :: u64)"

definition sha1_block_words :: "bytes \<Rightarrow> u32 list" where
  "sha1_block_words block = map (\<lambda>i. be_word (slice (4 * i) (4 * i + 4) block)) [0..<16]"

definition sha1_expand :: "u32 list \<Rightarrow> u32 list" where
  "sha1_expand ws =
     fold (\<lambda>t w. w @ [word_rotl 1 (w ! (t - 3) XOR w ! (t - 8) XOR w ! (t - 14) XOR w ! (t - 16))])
       [16..<80] ws"

definition sha1_f :: "nat \<Rightarrow> u32 \<Rightarrow> u32 \<Rightarrow> u32 \<Rightarrow> u32 \<times> u32" where
  "sha1_f t b c d =
     (if t < 20 then ((b AND c) OR (NOT b AND d), 0x5A827999)
      else if t < 40 then (b XOR c XOR d, 0x6ED9EBA1)
      else if t < 60 then ((b AND c) OR (b AND d) OR (c AND d), 0x8F1BBCDC)
      else (b XOR c XOR d, 0xCA62C1D6))"

type_synonym sha1_state = "u32 \<times> u32 \<times> u32 \<times> u32 \<times> u32"

definition sha1_step :: "u32 list \<Rightarrow> nat \<Rightarrow> sha1_state \<Rightarrow> sha1_state" where
  "sha1_step w t = (\<lambda>(a, b, c, d, e).
     let (f, k) = sha1_f t b c d
     in (word_rotl 5 a + f + e + k + w ! t, a, word_rotl 30 b, c, d))"

definition sha1_block :: "bytes \<Rightarrow> sha1_state \<Rightarrow> sha1_state" where
  "sha1_block block = (\<lambda>(a, b, c, d, e).
     let w = sha1_expand (sha1_block_words block);
         (a', b', c', d', e') = fold (sha1_step w) [0..<80] (a, b, c, d, e)
     in (a + a', b + b', c + c', d + d', e + e'))"

definition sha1_Sum :: "bytes \<Rightarrow> bytes" where
  "sha1_Sum msg =
     (let padded = sha1_pad msg;
          (a, b, c, d, e) = fold (\<lambda>i. sha1_block (slice (64 * i) (64 * i + 64) padded))
            [0..<length padded div 64]
            (0x67452301, 0xEFCDAB89, 0x98BADCFE, 0x10325476, 0xC3D2E1F0)
      in be_bytes 4 a @ be_bytes 4 b @ be_bytes 4 c @ be_bytes 4 d @ be_bytes 4 e)"

definition hmac_sha1 :: "bytes \<Rightarrow> bytes \<Rightarrow> bytes" where
  "hmac_sha1 key payload =
     (let key = (if length key > 64 then sha1_Sum key else key);
          key = key @ replicate (64 - length key) 0
      in sha1_Sum (map (\<lambda>b. b XOR 0x5c) key @ sha1_Sum (map (\<lambda>b. b XOR 0x36) key @ payload)))"

lemma length_sha1_Sum [simp]: "length (sha1_Sum msg) = 20"
  by (simp add: sha1_Sum_def Let_def split: prod.splits)

lemma length_hmac_sha1 [simp]: "length (hmac_sha1 key payload) = 20"
  by (simp add: hmac_sha1_def Let_def)

text \<open>The padded message is a whole number of blocks.\<close>

lemma length_sha1_pad: "length (sha1_pad msg) mod 64 = 0"
proof -
  define q r where "q = length msg div 64" and "r = length msg mod 64"
  then have n: "length msg = 64 * q + r" and r: "r < 64" by simp_all
  have z: "(119 - r) mod 64 = (if r < 56 then 55 - r else 119 - r)"
    using r by (auto simp: mod_if)
  have "length (sha1_pad msg) = length msg + 1 + (119 - r) mod 64 + 8"
    by (simp add: sha1_pad_def r_def)
  also have "\<dots> = 64 * (if r < 56 then q + 1 else q + 2)"
    using r unfolding z n by auto
  finally show ?thesis by simp
qed

end
