(* ===== verification/Crypto.thy ===== *)
theory Crypto
  imports Tiger Std_DES Std_SHA1
begin

text \<open>
  \<^verbatim>\<open>internal/online/bitdemon/crypto.go\<close>: initialisation vectors from a counter, the truncated
  message authentication code, and triple DES in cipher block chaining mode. That decryption
  inverts encryption is proved once for any block cipher (locale \<open>block_cipher\<close>) and
  interpreted on the cipher of \<open>Std_DES\<close>.
\<close>

definition SessionKeySize :: nat where "SessionKeySize = 24"
definition TripleDESBlockSize :: nat where "TripleDESBlockSize = 8"
definition TruncatedHMACSize :: nat where "TruncatedHMACSize = 4"

section \<open>Cipher block chaining\<close>

definition xor_block :: "bytes \<Rightarrow> bytes \<Rightarrow> bytes" where
  "xor_block xs ys = map2 (XOR) xs ys"

text \<open>\<^verbatim>\<open>cipher.NewCBCEncrypter\<close> and \<^verbatim>\<open>cipher.NewCBCDecrypter\<close> over blocks of eight bytes.\<close>

function cbc_encrypt :: "(bytes \<Rightarrow> bytes) \<Rightarrow> bytes \<Rightarrow> bytes \<Rightarrow> bytes" where
  "cbc_encrypt E iv src =
     (if src = [] then []
      else let c = E (xor_block iv (take 8 src)) in c @ cbc_encrypt E c (drop 8 src))"
  by pat_completeness auto
termination
  by (relation "measure (\<lambda>(E, iv, src). length src)") auto

function cbc_decrypt :: "(bytes \<Rightarrow> bytes) \<Rightarrow> bytes \<Rightarrow> bytes \<Rightarrow> bytes" where
  "cbc_decrypt D iv src =
     (if src = [] then []
      else xor_block iv (D (take 8 src)) @ cbc_decrypt D (take 8 src) (drop 8 src))"
  by pat_completeness auto
termination
  by (relation "measure (\<lambda>(D, iv, src). length src)") auto

declare cbc_encrypt.simps [simp del] cbc_decrypt.simps [simp del]

lemma length_xor_block [simp]: "length (xor_block xs ys) = min (length xs) (length ys)"
  by (simp add: xor_block_def)

lemma xor_block_cancel: "length xs = length ys \<Longrightarrow> xor_block xs (xor_block xs ys) = ys"
  by (induction xs ys rule: list_induct2) (auto simp: xor_block_def simp flip: xor.assoc)

locale block_cipher =
  fixes E D :: "bytes \<Rightarrow> bytes"
  assumes length_E: "length b = 8 \<Longrightarrow> length (E b) = 8"
    and length_D: "length b = 8 \<Longrightarrow> length (D b) = 8"
    and D_E: "length b = 8 \<Longrightarrow> D (E b) = b"
    and E_D: "length b = 8 \<Longrightarrow> E (D b) = b"
begin

lemma length_cbc_encrypt:
  "length iv = 8 \<Longrightarrow> length src = 8 * n \<Longrightarrow> length (cbc_encrypt E iv src) = 8 * n"
proof (induction n arbitrary: iv src)
  case 0
  then show ?case by (simp add: cbc_encrypt.simps)
next
  case (Suc n)
  then have c: "length (E (xor_block iv (take 8 src))) = 8"
    by (intro length_E) simp
  with Suc show ?case
    by (subst cbc_encrypt.simps) (auto simp: Let_def)
qed

lemma length_cbc_decrypt:
  "length iv = 8 \<Longrightarrow> length src = 8 * n \<Longrightarrow> length (cbc_decrypt D iv src) = 8 * n"
proof (induction n arbitrary: iv src)
  case 0
  then show ?case by (simp add: cbc_decrypt.simps)
next
  case (Suc n)
  then have "length (D (take 8 src)) = 8"
    by (intro length_D) simp
  with Suc show ?case
    by (subst cbc_decrypt.simps) auto
qed

lemma cbc_decrypt_encrypt:
  "length iv = 8 \<Longrightarrow> length src = 8 * n \<Longrightarrow> cbc_decrypt D iv (cbc_encrypt E iv src) = src"
proof (induction n arbitrary: iv src)
  case 0
  then show ?case by (simp add: cbc_encrypt.simps cbc_decrypt.simps)
next
  case (Suc n)
  let ?b = "xor_block iv (take 8 src)"
  have b: "length ?b = 8" using Suc.prems by simp
  then have c: "length (E ?b) = 8" by (rule length_E)
  have enc: "cbc_encrypt E iv src = E ?b @ cbc_encrypt E (E ?b) (drop 8 src)"
    using Suc.prems by (subst cbc_encrypt.simps) (auto simp: Let_def)
  have "cbc_decrypt D iv (cbc_encrypt E iv src) =
      xor_block iv (D (E ?b)) @ cbc_decrypt D (E ?b) (cbc_encrypt E (E ?b) (drop 8 src))"
    using c by (subst cbc_decrypt.simps) (auto simp: enc)
  also have "\<dots> = take 8 src @ drop 8 src"
    using Suc c by (simp add: D_E [OF b] xor_block_cancel)
  finally show ?case by simp
qed

lemma cbc_encrypt_decrypt:
  "length iv = 8 \<Longrightarrow> length src = 8 * n \<Longrightarrow> cbc_encrypt E iv (cbc_decrypt D iv src) = src"
proof (induction n arbitrary: iv src)
  case 0
  then show ?case by (simp add: cbc_encrypt.simps cbc_decrypt.simps)
next
  case (Suc n)
  let ?c = "take 8 src"
  have c: "length ?c = 8" using Suc.prems by simp
  then have d: "length (D ?c) = 8" by (rule length_D)
  have dec: "cbc_decrypt D iv src = xor_block iv (D ?c) @ cbc_decrypt D ?c (drop 8 src)"
    using Suc.prems by (subst cbc_decrypt.simps) auto
  have x: "length (xor_block iv (D ?c)) = 8" using d Suc.prems by simp
  then have "cbc_decrypt D iv src \<noteq> []" unfolding dec by (metis append_is_Nil_conv list.size(3) zero_neq_numeral)
  moreover have "take 8 (cbc_decrypt D iv src) = xor_block iv (D ?c)"
    "drop 8 (cbc_decrypt D iv src) = cbc_decrypt D ?c (drop 8 src)"
    using x by (simp_all add: dec)
  moreover have "xor_block iv (xor_block iv (D ?c)) = D ?c"
    using d Suc.prems by (intro xor_block_cancel) simp
  ultimately have "cbc_encrypt E iv (cbc_decrypt D iv src) =
      E (D ?c) @ cbc_encrypt E (E (D ?c)) (cbc_decrypt D ?c (drop 8 src))"
    by (subst cbc_encrypt.simps) (simp add: Let_def)
  also have "\<dots> = take 8 src @ drop 8 src"
    using Suc c by (simp add: E_D [OF c])
  finally show ?case by simp
qed

end

interpretation tdes: block_cipher "tdes_encrypt key" "tdes_decrypt key" for key
  by unfold_locales (simp_all add: tdes_decrypt_encrypt tdes_encrypt_decrypt)

section \<open>The operations of crypto.go\<close>

definition DeriveIV :: "u32 \<Rightarrow> bytes" where
  "DeriveIV counter = take TripleDESBlockSize (Tiger192 (LE_PutUint32 counter))"

definition TruncatedHMACSHA1 :: "bytes \<Rightarrow> bytes \<Rightarrow> bytes" where
  "TruncatedHMACSHA1 key payload = take TruncatedHMACSize (hmac_sha1 key payload)"

text \<open>\<^verbatim>\<open>des.NewTripleDESCipher\<close> rejects every key that is not 24 bytes long; the block it returns is
  the key itself here.\<close>

definition NewTripleDESCipher :: "bytes \<Rightarrow> go_error + bytes" where
  "NewTripleDESCipher key =
     (if length key \<noteq> 24 then Inl (Message ''crypto/des: invalid key size'') else Inr key)"

definition newTripleDES :: "bytes \<Rightarrow> nat \<Rightarrow> go_error + bytes" where
  "newTripleDES key payloadLength =
     (if length key \<noteq> SessionKeySize
      then Inl (Context ''session key'' (CryptoErr ErrInvalidSessionKey))
      else if payloadLength mod TripleDESBlockSize \<noteq> 0
      then Inl (Context ''block length'' (CryptoErr ErrInvalidBlockLength))
      else (case NewTripleDESCipher key of
              Inl e \<Rightarrow> Inl (Context ''create bitdemon 3DES cipher'' e)
            | Inr block \<Rightarrow> Inr block))"

definition Encrypt3DESCBC :: "bytes \<Rightarrow> bytes \<Rightarrow> bytes \<Rightarrow> go_error + bytes" where
  "Encrypt3DESCBC key iv plaintext =
     (case newTripleDES key (length plaintext) of
        Inl e \<Rightarrow> Inl e
      | Inr block \<Rightarrow> Inr (cbc_encrypt (tdes_encrypt block) iv plaintext))"

definition Decrypt3DESCBC :: "bytes \<Rightarrow> bytes \<Rightarrow> bytes \<Rightarrow> go_error + bytes" where
  "Decrypt3DESCBC key iv ciphertext =
     (case newTripleDES key (length ciphertext) of
        Inl e \<Rightarrow> Inl e
      | Inr block \<Rightarrow> Inr (cbc_decrypt (tdes_decrypt block) iv ciphertext))"

text \<open>\<^verbatim>\<open>(n + 7) &^ 7\<close> rounds up to a multiple of eight.\<close>

definition PadTo3DESBlock :: "bytes \<Rightarrow> bytes" where
  "PadTo3DESBlock payload =
     (let paddedLength = unat (word_of_nat (length payload + TripleDESBlockSize - 1)
                                 AND NOT (word_of_nat (TripleDESBlockSize - 1) :: u64))
      in copy_at 0 payload (replicate paddedLength 0))"

lemma length_DeriveIV [simp]: "length (DeriveIV counter) = 8"
  by (simp add: DeriveIV_def TripleDESBlockSize_def tigerDigestSize_def)

lemma length_TruncatedHMACSHA1 [simp]: "length (TruncatedHMACSHA1 key payload) = 4"
  by (simp add: TruncatedHMACSHA1_def TruncatedHMACSize_def)

lemma newTripleDES_if:
  "newTripleDES key n =
     (if length key \<noteq> 24 then Inl (Context ''session key'' (CryptoErr ErrInvalidSessionKey))
      else if n mod 8 \<noteq> 0 then Inl (Context ''block length'' (CryptoErr ErrInvalidBlockLength))
      else Inr key)"
  by (simp add: newTripleDES_def SessionKeySize_def TripleDESBlockSize_def NewTripleDESCipher_def)

lemma Encrypt3DESCBC_eq:
  "Encrypt3DESCBC key iv p = Inr c \<longleftrightarrow>
     length key = 24 \<and> length p mod 8 = 0 \<and> c = cbc_encrypt (tdes_encrypt key) iv p"
  by (auto simp: Encrypt3DESCBC_def newTripleDES_if)

lemma Decrypt3DESCBC_eq:
  "Decrypt3DESCBC key iv c = Inr p \<longleftrightarrow>
     length key = 24 \<and> length c mod 8 = 0 \<and> p = cbc_decrypt (tdes_decrypt key) iv c"
  by (auto simp: Decrypt3DESCBC_def newTripleDES_if)

lemma length_Encrypt3DESCBC:
  "length iv = 8 \<Longrightarrow> Encrypt3DESCBC key iv p = Inr c \<Longrightarrow> length c = length p"
  by (auto simp: Encrypt3DESCBC_eq mod_eq_0_iff_dvd dvd_def tdes.length_cbc_encrypt)

lemma length_Decrypt3DESCBC:
  "length iv = 8 \<Longrightarrow> Decrypt3DESCBC key iv c = Inr p \<Longrightarrow> length p = length c"
  by (auto simp: Decrypt3DESCBC_eq mod_eq_0_iff_dvd dvd_def tdes.length_cbc_decrypt)

lemma Decrypt_Encrypt3DESCBC:
  "length iv = 8 \<Longrightarrow> Encrypt3DESCBC key iv p = Inr c \<Longrightarrow> Decrypt3DESCBC key iv c = Inr p"
  by (auto simp: Encrypt3DESCBC_eq Decrypt3DESCBC_eq mod_eq_0_iff_dvd dvd_def
      tdes.length_cbc_encrypt tdes.cbc_decrypt_encrypt)

lemma Encrypt_Decrypt3DESCBC:
  "length iv = 8 \<Longrightarrow> Decrypt3DESCBC key iv c = Inr p \<Longrightarrow> Encrypt3DESCBC key iv p = Inr c"
  by (auto simp: Encrypt3DESCBC_eq Decrypt3DESCBC_eq mod_eq_0_iff_dvd dvd_def
      tdes.length_cbc_decrypt tdes.cbc_encrypt_decrypt)

lemma round_up_8:
  assumes "n < 2 ^ 62"
  shows "unat (word_of_nat (n + 7) AND NOT 7 :: u64) = 8 * ((n + 7) div 8)"
proof -
  let ?w = "word_of_nat (n + 7) :: u64"
  have w: "unat ?w = n + 7"
    using assms unfolding unat_of_nat by (intro mod_less) simp
  let ?d = "drop_bit 3 ?w"
  have m: "(7 :: u64) = mask 3" by (simp add: mask_eq_exp_minus_1)
  have e: "?w AND NOT 7 = push_bit 3 ?d"
    unfolding m by (rule bit_word_eqI)
      (simp only: bit_and_iff bit_not_iff bit_push_bit_iff bit_drop_bit_eq bit_mask_iff, auto)
  have d: "unat ?d = (n + 7) div 8"
    unfolding unat_drop_bit_eq w by (simp add: drop_bit_eq_div)
  have "(n + 7) div 8 * 8 < 2 ^ 64"
    using assms by (intro le_less_trans [OF div_times_less_eq_dividend]) simp
  then have "unat (push_bit 3 ?d) = (n + 7) div 8 * 8"
    by (subst unsigned_push_bit_eq) (simp only: d, simp add: push_bit_eq_mult take_bit_eq_mod)
  then show ?thesis unfolding e by simp
qed

lemma PadTo3DESBlock_eq:
  assumes "length p < 2 ^ 62"
  shows "PadTo3DESBlock p = p @ replicate ((8 - length p mod 8) mod 8) 0"
proof -
  define q r where "q = length p div 8" and "r = length p mod 8"
  then have n: "length p = 8 * q + r" and r: "r < 8" by simp_all
  have "8 * ((length p + 7) div 8) = length p + (8 - r) mod 8"
  proof (cases "r = 0")
    case True
    then show ?thesis by (simp add: n)
  next
    case False
    have "length p + 7 = (r - 1) + (q + 1) * 8" using False by (simp add: n)
    then have "(length p + 7) div 8 = q + 1" using r by (simp only: div_mult_self3) simp
    with False r show ?thesis by (simp add: n)
  qed
  then have "unat (word_of_nat (length p + 7) AND NOT 7 :: u64) = length p + (8 - r) mod 8"
    using assms by (simp only: round_up_8)
  moreover have "length p + TripleDESBlockSize - 1 = length p + 7" "TripleDESBlockSize - 1 = 7"
    by (simp_all add: TripleDESBlockSize_def)
  ultimately have "PadTo3DESBlock p = copy_at 0 p (replicate (length p + (8 - r) mod 8) 0)"
    unfolding PadTo3DESBlock_def Let_def by simp
  then show ?thesis by (simp add: copy_at_def r_def)
qed

lemma length_PadTo3DESBlock:
  assumes "length p < 2 ^ 62"
  shows "length (PadTo3DESBlock p) mod 8 = 0"
proof -
  define q r where "q = length p div 8" and "r = length p mod 8"
  then have n: "length p = 8 * q + r" and r: "r < 8" by simp_all
  have "length (PadTo3DESBlock p) = 8 * (if r = 0 then q else q + 1)"
    using r unfolding PadTo3DESBlock_eq [OF assms] by (auto simp: r_def [symmetric] n)
  then show ?thesis by simp
qed

section \<open>Properties\<close>

text \<open>Triple DES in cipher block chaining mode is invertible: whatever \<^verbatim>\<open>Encrypt3DESCBC\<close> returns,
  \<^verbatim>\<open>Decrypt3DESCBC\<close> under the same key and vector turns back into the plaintext, and the
  ciphertext is as long as the plaintext.\<close>

theorem Decrypt3DESCBC_inverts:
  assumes "length iv = 8" and "Encrypt3DESCBC key iv plaintext = Inr ciphertext"
  shows "Decrypt3DESCBC key iv ciphertext = Inr plaintext \<and> length ciphertext = length plaintext"
  using Decrypt_Encrypt3DESCBC [OF assms] length_Encrypt3DESCBC [OF assms] by blast

theorem Decrypt3DESCBC_inverts_witness:
  "\<exists>c. Encrypt3DESCBC (replicate 24 5) (replicate 8 0) (replicate 16 1) = Inr c \<and>
       Decrypt3DESCBC (replicate 24 5) (replicate 8 0) c = Inr (replicate 16 1)"
proof -
  obtain c where c: "Encrypt3DESCBC (replicate 24 5) (replicate 8 0) (replicate 16 1) = Inr c"
    by (simp add: Encrypt3DESCBC_eq)
  then show ?thesis using Decrypt3DESCBC_inverts [OF _ c] by simp
qed

text \<open>\<^verbatim>\<open>PadTo3DESBlock\<close> keeps the payload and appends fewer than eight zero bytes, as many as make
  the length a multiple of the block size, so that the ciphers accept the result.\<close>

theorem PadTo3DESBlock_pads:
  assumes "length payload < 2 ^ 62"
  shows "\<exists>k < 8. PadTo3DESBlock payload = payload @ replicate k 0 \<and> (length payload + k) mod 8 = 0"
  using PadTo3DESBlock_eq [OF assms] length_PadTo3DESBlock [OF assms]
  by (intro exI [of _ "(8 - length payload mod 8) mod 8"]) simp

theorem PadTo3DESBlock_pads_witness:
  "\<exists>k < 8. PadTo3DESBlock [1, 2, 3] = [1, 2, 3] @ replicate k 0 \<and> (length [1, 2, 3 :: byte] + k) mod 8 = 0"
  by (rule PadTo3DESBlock_pads) simp

end
