(* ===== verification/Go_IO.thy ===== *)
theory Go_IO
  imports Go_Prelude
begin

text \<open>
  The two interfaces of package io the server talks through. An \<^verbatim>\<open>io.Reader\<close> is the bytes it
  will still deliver and how it ends; \<^verbatim>\<open>io.ReadFull\<close> does not depend on how the bytes are cut
  into chunks. An \<^verbatim>\<open>io.Writer\<close> is the bytes that reached the peer and the outcomes of the coming
  \<^verbatim>\<open>Write\<close> calls: a call may take fewer bytes than offered, report a wrong count, or fail. When
  no outcome is left, every call takes everything.
\<close>

datatype stream_end = StreamEOF | StreamFails go_error

record go_stream =
  st_bytes :: bytes
  st_end :: stream_end

definition ReadFull :: "nat \<Rightarrow> (go_stream, bytes) go" where
  "ReadFull n st =
     (if n \<le> length (st_bytes st)
      then (Inr (take n (st_bytes st)), st\<lparr>st_bytes := drop n (st_bytes st)\<rparr>)
      else ((case st_end st of
               StreamEOF \<Rightarrow> Inl (IoErr (if st_bytes st = [] then EOF else ErrUnexpectedEOF))
             | StreamFails e \<Rightarrow> Inl e),
            st\<lparr>st_bytes := []\<rparr>))"

lemma ReadFull_append:
  "length bs = n \<Longrightarrow> ReadFull n (st\<lparr>st_bytes := bs @ rest\<rparr>) = (Inr bs, st\<lparr>st_bytes := rest\<rparr>)"
  by (simp add: ReadFull_def)

lemma ReadFull_eq_Inr:
  "ReadFull n st = (Inr bs, st') \<longleftrightarrow>
     length bs = n \<and> st_bytes st = bs @ st_bytes st' \<and> st_end st' = st_end st"
  by (cases st, cases st') (auto simp: ReadFull_def append_eq_conv_conj split: stream_end.splits)

lemma ReadFull_shorter:
  "ReadFull n st = (Inr bs, st') \<Longrightarrow> length (st_bytes st') + n = length (st_bytes st)"
  by (auto simp: ReadFull_eq_Inr)

text \<open>A writer. \<open>w_out\<close> is everything that has left it so far.\<close>

record go_writer =
  w_script :: "(int \<times> go_error option) list"
  w_out :: bytes

definition Write :: "bytes \<Rightarrow> go_writer \<Rightarrow> (int \<times> go_error option) \<times> go_writer" where
  "Write data w =
     (case w_script w of
        [] \<Rightarrow> ((int (length data), None), w\<lparr>w_out := w_out w @ data\<rparr>)
      | (n, e) # script \<Rightarrow> ((n, e), w\<lparr>w_script := script, w_out := w_out w @ take (nat n) data\<rparr>))"

end
