(* ===== verification/Framing.thy ===== *)
theory Framing
  imports Go_IO
begin

text \<open>
  \<^verbatim>\<open>internal/online/bitdemon/frame.go\<close>: the records of a TCP connection. A record is a four-byte
  little-endian length and a body; length 0 is a keepalive and length 200 announces a
  buffer-available value instead of a body.
\<close>

definition FramePrefixSize :: nat where "FramePrefixSize = 4"
definition DefaultMaxFrameBody :: u32 where "DefaultMaxFrameBody = 1048576"
definition LobbyKeepaliveBodyLen :: u32 where "LobbyKeepaliveBodyLen = 0"
definition BufferAvailableRecordMarker :: nat where "BufferAvailableRecordMarker = 200"

datatype TransportRecordKind = RecordKindFrame | RecordKindKeepalive | RecordKindBufferAvailable

record TransportRecord =
  Kind :: TransportRecordKind
  Body :: bytes
  AvailableBuffer :: u32

text \<open>The largest \<^verbatim>\<open>int\<close> of the 64-bit targets the Makefile builds for.\<close>

definition MaxInt :: nat where "MaxInt = 2 ^ 63 - 1"

definition ReadTransportRecord :: "u32 \<Rightarrow> (go_stream, TransportRecord) go" where
  "ReadTransportRecord maxBodySize =
     (let maxBodySize = (if maxBodySize = 0 then DefaultMaxFrameBody else maxBodySize)
      in go_bind (go_wrap (Context ''read bitdemon transport prefix'') (ReadFull FramePrefixSize))
           (\<lambda>prefix.
         let bodySize = LE_Uint32 prefix
         in if bodySize = LobbyKeepaliveBodyLen
            then go_return \<lparr>Kind = RecordKindKeepalive, Body = [], AvailableBuffer = 0\<rparr>
            else if unat bodySize = BufferAvailableRecordMarker
            then go_bind (go_wrap (Context ''read bitdemon buffer-available value'') (ReadFull 4))
              (\<lambda>value. go_return \<lparr>Kind = RecordKindBufferAvailable, Body = [],
                                  AvailableBuffer = LE_Uint32 value\<rparr>)
            else if bodySize > maxBodySize
            then go_fail (Context ''body exceeds maximum'' (FrameErr ErrFrameTooLarge))
            else if unat bodySize > MaxInt
            then go_fail (Context ''body exceeds platform allocation limit'' (FrameErr ErrFrameTooLarge))
            else go_bind (go_wrap (Context ''read bitdemon frame body'') (ReadFull (unat bodySize)))
              (\<lambda>body. go_return \<lparr>Kind = RecordKindFrame, Body = body, AvailableBuffer = 0\<rparr>)))"

function (sequential) writeAll :: "bytes \<Rightarrow> go_writer \<Rightarrow> go_error option \<times> go_writer" where
  "writeAll data w =
     (if data = [] then (None, w)
      else case Write data w of
             ((written, Some err), w') \<Rightarrow> (Some err, w')
           | ((written, None), w') \<Rightarrow>
               if written < 1 \<or> written > int (length data) then (Some (IoErr ErrShortWrite), w')
               else writeAll (drop (nat written) data) w')"
  by pat_completeness auto
termination
  by (relation "measure (\<lambda>(data, w). length data)") auto

declare writeAll.simps [simp del]

definition checkFrameBody :: "bytes \<Rightarrow> go_error option" where
  "checkFrameBody body =
     (if length body > MaxUint32
      then Some (Context ''frame body'' (FrameErr ErrFrameTooLarge))
      else if length body = BufferAvailableRecordMarker
      then Some (Context ''frame body'' (FrameErr ErrReservedFrameBodySize))
      else None)"

definition WriteFrame :: "bytes \<Rightarrow> go_writer \<Rightarrow> go_error option \<times> go_writer" where
  "WriteFrame body writer =
     (case checkFrameBody body of
        Some e \<Rightarrow> (Some e, writer)
      | None \<Rightarrow>
          (case writeAll (LE_PutUint32 (word_of_nat (length body))) writer of
             (Some e, writer) \<Rightarrow> (Some (Context ''write bitdemon frame prefix'' e), writer)
           | (None, writer) \<Rightarrow>
               (case writeAll body writer of
                  (Some e, writer) \<Rightarrow> (Some (Context ''write bitdemon frame body'' e), writer)
                | (None, writer) \<Rightarrow> (None, writer))))"

definition MarshalFrame :: "bytes \<Rightarrow> go_error + bytes" where
  "MarshalFrame body =
     (case checkFrameBody body of
        Some e \<Rightarrow> Inl e
      | None \<Rightarrow>
          Inr (copy_at FramePrefixSize body
                (copy_at 0 (LE_PutUint32 (word_of_nat (length body)))
                  (replicate (FramePrefixSize + length body) 0))))"

definition WriteBufferAvailableRecord :: "u32 \<Rightarrow> go_writer \<Rightarrow> go_error option \<times> go_writer" where
  "WriteBufferAvailableRecord availableBuffer writer =
     (case writeAll (LE_PutUint32 (word_of_nat BufferAvailableRecordMarker)
                       @ LE_PutUint32 availableBuffer) writer of
        (Some e, writer) \<Rightarrow> (Some (Context ''write bitdemon buffer-available record'' e), writer)
      | (None, writer) \<Rightarrow> (None, writer))"

section \<open>Writing\<close>

text \<open>Whatever the writer does, what leaves it is a prefix of the data, and all of it on success.\<close>

lemma writeAll_out:
  "writeAll data w = (res, w') \<Longrightarrow>
   \<exists>sent. prefix sent data \<and> w_out w' = w_out w @ sent \<and> (res = None \<longrightarrow> sent = data)"
proof (induction data w arbitrary: res w' rule: writeAll.induct)
  case (1 data w)
  show ?case
  proof (cases "data = []")
    case True
    with "1.prems" show ?thesis by (simp add: writeAll.simps)
  next
    case False
    obtain n e w1 where W: "Write data w = ((n, e), w1)"
      by (metis surj_pair)
    have out: "\<exists>m. w_out w1 = w_out w @ take m data \<and> (1 \<le> n \<and> n \<le> int (length data) \<longrightarrow> m = nat n)"
      using W by (auto simp: Write_def split: list.splits intro: exI [of _ "length data"])
    show ?thesis
    proof (cases "e = None \<and> 1 \<le> n \<and> n \<le> int (length data)")
      case False
      with W \<open>data \<noteq> []\<close> "1.prems" have "w' = w1" and "res \<noteq> None"
        by (auto simp: writeAll.simps [of data w] split: option.splits if_splits)
      with out show ?thesis by (auto intro: take_is_prefix)
    next
      case True
      then have o1: "w_out w1 = w_out w @ take (nat n) data"
        using out by auto
      from True W \<open>data \<noteq> []\<close> "1.prems" have "writeAll (drop (nat n) data) w1 = (res, w')"
        by (simp add: writeAll.simps [of data w])
      with "1.IH" [OF \<open>data \<noteq> []\<close> W [symmetric]] True obtain sent where
        "prefix sent (drop (nat n) data)" "w_out w' = w_out w1 @ sent"
        "res = None \<longrightarrow> sent = drop (nat n) data"
        by fastforce
      moreover have "prefix (take (nat n) data @ sent) data" if "prefix sent (drop (nat n) data)"
        using that by (metis append_take_drop_id same_prefix_prefix)
      ultimately show ?thesis
        using o1 by (intro exI [of _ "take (nat n) data @ sent"]) simp
    qed
  qed
qed

lemma writeAll_done: "w_script w = [] \<Longrightarrow> writeAll data w = (None, w\<lparr>w_out := w_out w @ data\<rparr>)"
  by (cases "data = []") (simp_all add: writeAll.simps Write_def)

text \<open>The bytes of a frame.\<close>

definition frame_bytes :: "bytes \<Rightarrow> bytes" where
  "frame_bytes body = LE_PutUint32 (word_of_nat (length body)) @ body"

lemma checkFrameBody_None:
  "checkFrameBody body = None \<longleftrightarrow> length body \<le> MaxUint32 \<and> length body \<noteq> 200"
  by (auto simp: checkFrameBody_def BufferAvailableRecordMarker_def)

lemma MarshalFrame_eq:
  "MarshalFrame body = (case checkFrameBody body of Some e \<Rightarrow> Inl e | None \<Rightarrow> Inr (frame_bytes body))"
  by (auto simp: MarshalFrame_def frame_bytes_def copy_at_def FramePrefixSize_def split: option.splits)

lemma WriteFrame_out:
  assumes "WriteFrame body w = (res, w')"
  shows "\<exists>sent. prefix sent (frame_bytes body) \<and> w_out w' = w_out w @ sent \<and>
    (res = None \<longrightarrow> MarshalFrame body = Inr sent)"
proof (cases "checkFrameBody body")
  case (Some e)
  with assms show ?thesis by (auto simp: WriteFrame_def)
next
  case None
  let ?p = "LE_PutUint32 (word_of_nat (length body))"
  obtain r1 w1 where p: "writeAll ?p w = (r1, w1)" by (metis surj_pair)
  obtain r2 w2 where b: "writeAll body w1 = (r2, w2)" by (metis surj_pair)
  obtain s1 where s1: "prefix s1 ?p" "w_out w1 = w_out w @ s1" "r1 = None \<longrightarrow> s1 = ?p"
    using writeAll_out [OF p] by auto
  obtain s2 where s2: "prefix s2 body" "w_out w2 = w_out w1 @ s2" "r2 = None \<longrightarrow> s2 = body"
    using writeAll_out [OF b] by auto
  show ?thesis
  proof (cases r1)
    case (Some e)
    with assms None p have "w' = w1" "res \<noteq> None" by (auto simp: WriteFrame_def)
    with s1 show ?thesis by (auto simp: frame_bytes_def intro: prefix_prefix)
  next
    case r1: None
    with assms None p b have "w' = w2" "res = None \<longrightarrow> r2 = None"
      by (auto simp: WriteFrame_def split: option.splits)
    with r1 None s1 s2 show ?thesis
      by (intro exI [of _ "?p @ s2"]) (auto simp: frame_bytes_def MarshalFrame_eq)
  qed
qed

section \<open>Reading\<close>

text \<open>A connection that carries whole records, and the records it carries.\<close>

definition record_bytes :: "TransportRecord \<Rightarrow> bytes" where
  "record_bytes rec =
     (case Kind rec of
        RecordKindKeepalive \<Rightarrow> LE_PutUint32 0
      | RecordKindBufferAvailable \<Rightarrow> LE_PutUint32 200 @ LE_PutUint32 (AvailableBuffer rec)
      | RecordKindFrame \<Rightarrow> frame_bytes (Body rec))"

definition record_ok :: "u32 \<Rightarrow> TransportRecord \<Rightarrow> bool" where
  "record_ok maxBodySize rec =
     (case Kind rec of
        RecordKindKeepalive \<Rightarrow> Body rec = [] \<and> AvailableBuffer rec = 0
      | RecordKindBufferAvailable \<Rightarrow> Body rec = []
      | RecordKindFrame \<Rightarrow> AvailableBuffer rec = 0 \<and> Body rec \<noteq> [] \<and> length (Body rec) \<noteq> 200 \<and>
          length (Body rec) \<le> unat (if maxBodySize = 0 then DefaultMaxFrameBody else maxBodySize))"

lemma ReadTransportRecord_prefix:
  assumes "st_bytes st = LE_PutUint32 u @ rest"
  shows "ReadTransportRecord m st =
    (let st' = st\<lparr>st_bytes := rest\<rparr>; m' = (if m = 0 then DefaultMaxFrameBody else m)
     in if u = 0 then (Inr \<lparr>Kind = RecordKindKeepalive, Body = [], AvailableBuffer = 0\<rparr>, st')
        else if unat u = 200
        then go_bind (go_wrap (Context ''read bitdemon buffer-available value'') (ReadFull 4))
               (\<lambda>value. go_return \<lparr>Kind = RecordKindBufferAvailable, Body = [],
                                   AvailableBuffer = LE_Uint32 value\<rparr>) st'
        else if u > m' then (Inl (Context ''body exceeds maximum'' (FrameErr ErrFrameTooLarge)), st')
        else go_bind (go_wrap (Context ''read bitdemon frame body'') (ReadFull (unat u)))
               (\<lambda>body. go_return \<lparr>Kind = RecordKindFrame, Body = body, AvailableBuffer = 0\<rparr>) st')"
proof -
  have "ReadFull 4 st = (Inr (LE_PutUint32 u), st\<lparr>st_bytes := rest\<rparr>)"
    using assms by (simp add: ReadFull_def)
  then have "go_wrap w (ReadFull 4) st = (Inr (LE_PutUint32 u), st\<lparr>st_bytes := rest\<rparr>)" for w
    by simp
  moreover have "\<not> unat u > MaxInt"
    using unat_u32_bound [of u] by (simp add: MaxInt_def)
  ultimately show ?thesis
    by (simp add: ReadTransportRecord_def FramePrefixSize_def go_bind_Inr LobbyKeepaliveBodyLen_def
        BufferAvailableRecordMarker_def Let_def)
qed

lemma ReadTransportRecord_short:
  assumes "length (st_bytes st) < 4"
  shows "ReadTransportRecord m st =
    (Inl (Context ''read bitdemon transport prefix''
       (case st_end st of
          StreamEOF \<Rightarrow> IoErr (if st_bytes st = [] then EOF else ErrUnexpectedEOF)
        | StreamFails e \<Rightarrow> e)), st\<lparr>st_bytes := []\<rparr>)"
  using assms
  by (simp add: ReadTransportRecord_def FramePrefixSize_def go_bind_def go_wrap_def ReadFull_def
      split: stream_end.split)

lemma split_prefix4:
  assumes "4 \<le> length bs"
  obtains u rest where "bs = LE_PutUint32 u @ rest"
proof
  have "le_bytes 4 (LE_Uint32 (take 4 bs)) = take 4 bs"
    by (rule le_bytes_le_word) (use assms in auto)
  then show "bs = LE_PutUint32 (LE_Uint32 (take 4 bs)) @ drop 4 bs"
    by simp
qed

lemma ReadTransportRecord_sound:
  assumes "ReadTransportRecord m st = (Inr rec, st')"
  shows "record_ok m rec \<and> st_bytes st = record_bytes rec @ st_bytes st' \<and> st_end st' = st_end st"
proof -
  have "4 \<le> length (st_bytes st)"
    using assms ReadTransportRecord_short [of st m] by (auto simp: not_le [symmetric])
  then obtain u rest where st: "st_bytes st = LE_PutUint32 u @ rest"
    by (rule split_prefix4)
  have [simp]: "word_of_nat (length b) = u" if "length b = unat u" for b :: bytes
    using that by simp
  have [simp]: "LE_PutUint32 200 = LE_PutUint32 u" if "unat u = 200"
  proof -
    have "u = word_of_nat (unat u)" by simp
    then show ?thesis using that by simp
  qed
  show ?thesis
    using assms unfolding ReadTransportRecord_prefix [OF st]
    by (auto simp: st Let_def go_bind_eq_Inr ReadFull_eq_Inr record_ok_def record_bytes_def
        frame_bytes_def word_le_nat_alt not_less unat_eq_zero split: if_splits)
qed

lemma ReadTransportRecord_complete:
  assumes "record_ok m rec" and "st_bytes st = record_bytes rec @ st_bytes st'"
    and "st_end st' = st_end st"
  shows "ReadTransportRecord m st = (Inr rec, st')"
proof (cases "Kind rec")
  case RecordKindFrame
  let ?u = "word_of_nat (length (Body rec)) :: u32"
  have bound: "length (Body rec) \<le> MaxUint32"
    using assms(1) RecordKindFrame unat_u32_bound [of m]
    by (auto simp: record_ok_def DefaultMaxFrameBody_def split: if_splits)
  have u: "unat ?u = length (Body rec)" "?u \<noteq> 0"
    using bound assms(1) RecordKindFrame by (auto simp: record_ok_def unat_eq_zero [symmetric])
  have st: "st_bytes st = LE_PutUint32 ?u @ Body rec @ st_bytes st'"
    using assms(2) RecordKindFrame by (simp add: record_bytes_def frame_bytes_def)
  show ?thesis
    using assms RecordKindFrame u unfolding ReadTransportRecord_prefix [OF st]
    by (auto simp: Let_def go_bind_eq_Inr ReadFull_eq_Inr record_ok_def word_less_nat_alt
        split: if_splits intro!: exI [of _ st'])
next
  case RecordKindKeepalive
  then have st: "st_bytes st = LE_PutUint32 0 @ st_bytes st'"
    using assms(2) by (simp add: record_bytes_def)
  show ?thesis
    using assms RecordKindKeepalive unfolding ReadTransportRecord_prefix [OF st]
    by (auto simp: Let_def record_ok_def)
next
  case RecordKindBufferAvailable
  then have st: "st_bytes st = LE_PutUint32 200 @ LE_PutUint32 (AvailableBuffer rec) @ st_bytes st'"
    using assms(2) by (simp add: record_bytes_def)
  show ?thesis
    using assms RecordKindBufferAvailable unfolding ReadTransportRecord_prefix [OF st]
    by (auto simp: Let_def go_bind_eq_Inr ReadFull_eq_Inr record_ok_def intro!: exI [of _ st'])
qed

lemma ReadTransportRecord_eq:
  "ReadTransportRecord m st = (Inr rec, st') \<longleftrightarrow>
     record_ok m rec \<and> st_bytes st = record_bytes rec @ st_bytes st' \<and> st_end st' = st_end st"
  using ReadTransportRecord_sound ReadTransportRecord_complete by blast

lemma ReadTransportRecord_shorter:
  "ReadTransportRecord m st = (Inr rec, st') \<Longrightarrow> length (st_bytes st') + 4 \<le> length (st_bytes st)"
  by (auto simp: ReadTransportRecord_eq record_bytes_def frame_bytes_def
      split: TransportRecordKind.splits)

section \<open>Properties\<close>

text \<open>C34: \<^verbatim>\<open>ReadTransportRecord\<close> returns a record exactly when the connection delivers the bytes
  of an admissible record next, and it takes those bytes and nothing more: no record is accepted
  in two ways, none that fits is refused, and no frame longer than the limit is ever taken.\<close>

theorem ReadTransportRecord_exact:
  "ReadTransportRecord m st = (Inr rec, st') \<longleftrightarrow>
     record_ok m rec \<and> st_bytes st = record_bytes rec @ st_bytes st' \<and> st_end st' = st_end st"
  by (rule ReadTransportRecord_eq)

text \<open>A frame that \<^verbatim>\<open>WriteFrame\<close> reports as written, through a writer that may cut, lie about or
  fail any of its calls, has left completely, and a peer with a limit that admits it reads
  exactly its body back, whatever follows on the connection.\<close>

theorem frame_roundtrip:
  assumes "WriteFrame body w = (None, w')"
    and "body \<noteq> []" and "length body \<le> unat (if m = 0 then DefaultMaxFrameBody else m)"
  shows "\<exists>sent. w_out w' = w_out w @ sent \<and>
    ReadTransportRecord m \<lparr>st_bytes = sent @ rest, st_end = e\<rparr>
      = (Inr \<lparr>Kind = RecordKindFrame, Body = body, AvailableBuffer = 0\<rparr>,
         \<lparr>st_bytes = rest, st_end = e\<rparr>)"
proof -
  obtain sent where sent: "w_out w' = w_out w @ sent" "MarshalFrame body = Inr sent"
    using WriteFrame_out [OF assms(1)] by blast
  then have "checkFrameBody body = None" "sent = frame_bytes body"
    by (auto simp: MarshalFrame_eq split: option.splits)
  with sent assms(2,3) show ?thesis
    by (intro exI [of _ sent])
      (simp add: ReadTransportRecord_eq record_ok_def record_bytes_def checkFrameBody_None)
qed

theorem frame_roundtrip_witness:
  "\<exists>sent. w_out (snd (WriteFrame [1, 2, 3] \<lparr>w_script = [], w_out = [9]\<rparr>)) = [9] @ sent \<and>
    ReadTransportRecord 16 \<lparr>st_bytes = sent @ [5], st_end = StreamEOF\<rparr>
      = (Inr \<lparr>Kind = RecordKindFrame, Body = [1, 2, 3], AvailableBuffer = 0\<rparr>,
         \<lparr>st_bytes = [5], st_end = StreamEOF\<rparr>)"
proof -
  have "WriteFrame [1, 2, 3] \<lparr>w_script = [], w_out = [9]\<rparr> =
      (None, \<lparr>w_script = [], w_out = [9] @ LE_PutUint32 3 @ [1, 2, 3]\<rparr>)"
    by (simp add: WriteFrame_def checkFrameBody_def BufferAvailableRecordMarker_def writeAll_done)
  from frame_roundtrip [OF this, of 16 "[5]" StreamEOF] this show ?thesis by simp
qed

end
