(* ===== verification/Lobby_Messages.thy ===== *)
theory Lobby_Messages
  imports Crypto Byte_Buffer Framing
begin

text \<open>
  The messages of the lobby server other than matchmaking: the encrypted envelope of a request and
  the clear envelope of a reply (\<^verbatim>\<open>internal/online/lobby/envelope.go\<close>), the event log
  (\<^verbatim>\<open>eventlog.go\<close>) and instant messages (\<^verbatim>\<open>messaging.go\<close>). A parser is shown to accept exactly
  the encodings of what it returns.
\<close>

section \<open>envelope.go\<close>

definition encryptedEnvelopeHeaderSize :: nat where "encryptedEnvelopeHeaderSize = 5"
definition reservedClearTaskReplyBodySize :: nat where "reservedClearTaskReplyBodySize = 200"

record encryptedRequest =
  er_Seed :: u32
  er_Service :: byte
  er_Payload :: bytes

definition marshalClearTaskReplyBody :: "bytes \<Rightarrow> bytes" where
  "marshalClearTaskReplyBody logicalReply =
     (let body = [0] @ logicalReply
      in if length body = reservedClearTaskReplyBodySize then body @ [0] else body)"

definition decryptRequestBody :: "bytes \<Rightarrow> bytes \<Rightarrow> go_error + encryptedRequest" where
  "decryptRequestBody body sessionKey =
     (if length body < encryptedEnvelopeHeaderSize + TripleDESBlockSize \<or> body ! 0 \<noteq> 1
      then Inl (EnvelopeErr ErrMalformedEncryptedEnvelope)
      else let ciphertext = drop encryptedEnvelopeHeaderSize body in
        if length ciphertext mod TripleDESBlockSize \<noteq> 0
        then Inl (EnvelopeErr ErrMalformedEncryptedEnvelope)
        else let seed = LE_Uint32 (slice 1 encryptedEnvelopeHeaderSize body) in
          case Decrypt3DESCBC sessionKey (DeriveIV seed) ciphertext of
            Inl e \<Rightarrow> Inl (Context ''decrypt'' (EnvelopeErr ErrMalformedEncryptedEnvelope))
          | Inr plaintext \<Rightarrow>
              if length plaintext < TruncatedHMACSize + 1
              then Inl (EnvelopeErr ErrMalformedEncryptedEnvelope)
              else let payload = drop (TruncatedHMACSize + 1) plaintext;
                       wantHMAC = TruncatedHMACSHA1 sessionKey payload
                in if take TruncatedHMACSize plaintext \<noteq> wantHMAC
                   then Inl (EnvelopeErr ErrInvalidRequestHMAC)
                   else Inr \<lparr>er_Seed = seed, er_Service = plaintext ! TruncatedHMACSize,
                             er_Payload = payload\<rparr>)"

definition validClientRequestPadding :: "bytes \<Rightarrow> u32 \<Rightarrow> bool" where
  "validClientRequestPadding padding seed \<longleftrightarrow>
     \<not> (length padding < 1 \<or> length padding > TripleDESBlockSize \<or> padding ! 0 \<noteq> 0) \<and>
     list_all (\<lambda>value. value = ucast seed) (drop 1 padding)"

text \<open>The end of every request parser: the rest of the payload, which must be padding. The error is
  the parser's own.\<close>

definition read_request_padding :: "go_error \<Rightarrow> u32 \<Rightarrow> 'a \<Rightarrow> (ByteReader, 'a) go" where
  "read_request_padding e seed request reader =
     (case br_ReadRaw (word_of_int (br_Remaining reader)) reader of
        (Inl _, reader) \<Rightarrow> (Inl e, reader)
      | (Inr padding, reader) \<Rightarrow>
          if validClientRequestPadding padding seed then (Inr request, reader) else (Inl e, reader))"

section \<open>eventlog.go\<close>

definition EventLogServiceID :: byte where "EventLogServiceID = 0x43"
definition EventLogTaskLog :: byte where "EventLogTaskLog = 0x02"
definition defaultMaxEventBlob :: u32 where "defaultMaxEventBlob = 65536"
definition taskReplyMessage :: byte where "taskReplyMessage = 0x01"
definition statusNoError :: u32 where "statusNoError = 0"

record EventLogRequest =
  ev_Task :: byte
  ev_Blob :: bytes
  ev_Category :: u32

definition malformedEventLog :: "string \<Rightarrow> go_error \<Rightarrow> go_error" where
  "malformedEventLog step e = Context step (EventLogErr ErrMalformedEventLogRequest)"

definition parseEventLogRequest :: "bytes \<Rightarrow> u32 \<Rightarrow> go_error + EventLogRequest" where
  "parseEventLogRequest payload seed =
     fst (go_bind (go_wrap (malformedEventLog ''read task'') br_ReadUint8) (\<lambda>task.
       if task \<noteq> EventLogTaskLog
       then go_fail (Context ''task'' (EventLogErr ErrUnsupportedEventLogTask))
       else go_bind (go_wrap (malformedEventLog ''read event blob'') (br_ReadBlob defaultMaxEventBlob)) (\<lambda>blob.
         go_bind (go_wrap (malformedEventLog ''read category'') br_ReadUint32) (\<lambda>category.
           read_request_padding
             (Context ''invalid request padding'' (EventLogErr ErrMalformedEventLogRequest)) seed
             \<lparr>ev_Task = task, ev_Blob = blob, ev_Category = category\<rparr>)))
       (NewByteReader payload True))"

definition marshalTaskReply :: "u64 \<Rightarrow> byte \<Rightarrow> u32 \<Rightarrow> u32 \<Rightarrow> u32 \<Rightarrow> bytes" where
  "marshalTaskReply transactionID operation errorCode resultCount totalResultCount =
     (let writer = NewByteWriter True;
          writer = bw_WriteRaw [taskReplyMessage] writer;
          writer = bw_WriteUint64 transactionID writer;
          writer = bw_WriteUint32 errorCode writer;
          writer = bw_WriteUint8 operation writer;
          writer = bw_WriteUint32 resultCount writer;
          writer = (if resultCount \<noteq> 0 then bw_WriteUint32 totalResultCount writer else writer)
      in bw_Bytes writer)"

section \<open>messaging.go\<close>

definition MessagingServiceID :: byte where "MessagingServiceID = 0x06"
definition MessagingTaskSendGlobalInstantMessage :: byte where
  "MessagingTaskSendGlobalInstantMessage = 0x0e"
definition globalInstantMessageEvent :: u32 where "globalInstantMessageEvent = 21"
definition maxMessagingMessageBytes :: u32 where "maxMessagingMessageBytes = 4096"
definition maxMessagingSenderNameBytes :: nat where "maxMessagingSenderNameBytes = 63"
definition serverReplySignature :: u32 where "serverReplySignature = 0xdeadbeef"
definition pushMessageType :: byte where "pushMessageType = 0x02"

record MessagingRequest =
  msg_Task :: byte
  msg_Recipient :: u64
  msg_Message :: bytes

definition malformedMessaging :: "string \<Rightarrow> go_error" where
  "malformedMessaging step = Context step (MessagingErr ErrMalformedMessagingRequest)"

definition parseMessagingRequest :: "bytes \<Rightarrow> u32 \<Rightarrow> go_error + MessagingRequest" where
  "parseMessagingRequest payload seed =
     (if (length payload + TruncatedHMACSize + 1) mod TripleDESBlockSize \<noteq> 0
      then Inl (malformedMessaging ''invalid encrypted-block padding'')
      else fst (go_bind (go_wrap (\<lambda>_. malformedMessaging ''read task'') br_ReadUint8) (\<lambda>task.
        if task \<noteq> MessagingTaskSendGlobalInstantMessage
        then go_fail (Context ''task'' (MessagingErr ErrUnsupportedMessagingTask))
        else go_bind (go_wrap (\<lambda>_. malformedMessaging ''read recipient'') br_ReadUint64) (\<lambda>recipientID.
          go_bind (go_wrap (\<lambda>_. malformedMessaging ''read message'') (br_ReadBlob maxMessagingMessageBytes)) (\<lambda>message reader.
            if br_Remaining reader > int TripleDESBlockSize
            then (Inl (malformedMessaging ''excess padding''), reader)
            else read_request_padding (malformedMessaging ''invalid request padding'') seed
                   \<lparr>msg_Task = task, msg_Recipient = recipientID, msg_Message = message\<rparr> reader)))
        (NewByteReader payload True)))"

definition marshalGlobalInstantMessagePush ::
  "bytes \<Rightarrow> u32 \<Rightarrow> u64 \<Rightarrow> gostring \<Rightarrow> bytes \<Rightarrow> go_error + bytes" where
  "marshalGlobalInstantMessagePush sessionKey seed senderID senderName message =
     (if length senderName > maxMessagingSenderNameBytes \<or> IndexByte senderName 0 \<ge> 0 \<or>
         length message > unat maxMessagingMessageBytes
      then Inl (MessagingErr ErrInvalidGlobalInstantMessage)
      else
        let writer = NewByteWriter True;
            writer = bw_WriteUint32 globalInstantMessageEvent writer;
            writer = bw_WriteUint64 senderID writer
        in case bw_WriteString senderName writer of
             (Inl e, _) \<Rightarrow> Inl (Context ''sender name'' (MessagingErr ErrInvalidGlobalInstantMessage))
           | (Inr _, writer) \<Rightarrow>
               (case bw_WriteBlob message writer of
                  (Inl e, _) \<Rightarrow> Inl (Context ''message'' (MessagingErr ErrInvalidGlobalInstantMessage))
                | (Inr _, writer) \<Rightarrow>
                    let plaintext = replicate 5 0;
                        plaintext = copy_at 0 (LE_PutUint32 serverReplySignature) plaintext;
                        plaintext = plaintext[4 := pushMessageType];
                        plaintext = plaintext @ bw_Bytes writer;
                        plaintext = PadTo3DESBlock plaintext
                    in case Encrypt3DESCBC sessionKey (DeriveIV seed) plaintext of
                         Inl e \<Rightarrow> Inl (Context ''marshal encrypted global instant message'' e)
                       | Inr ciphertext \<Rightarrow>
                           let body = replicate (encryptedEnvelopeHeaderSize + length ciphertext) 0;
                               body = body[0 := 1];
                               body = copy_at 1 (LE_PutUint32 seed) body
                           in Inr (copy_at encryptedEnvelopeHeaderSize ciphertext body)))"

section \<open>The encrypted envelope\<close>

text \<open>The bytes of a request as a client seals them.\<close>

definition sealed_request :: "bytes \<Rightarrow> encryptedRequest \<Rightarrow> bytes \<Rightarrow> bool" where
  "sealed_request key req body \<longleftrightarrow>
     (\<exists>ciphertext. body = [1] @ LE_PutUint32 (er_Seed req) @ ciphertext \<and>
        Encrypt3DESCBC key (DeriveIV (er_Seed req))
          (TruncatedHMACSHA1 key (er_Payload req) @ [er_Service req] @ er_Payload req) = Inr ciphertext)"

lemma envelope_split:
  "5 \<le> length body \<and> body ! 0 = 1 \<longleftrightarrow> body = [1] @ LE_PutUint32 (LE_Uint32 (slice 1 5 body)) @ drop 5 body"
proof (cases "5 \<le> length body")
  case True
  have "take 5 body = take 1 body @ slice 1 5 body"
    by (simp add: slice_def take_add [of 1 4, simplified])
  moreover have "LE_PutUint32 (LE_Uint32 (slice 1 5 body)) = slice 1 5 body" "take 1 body = [body ! 0]"
    using True by (simp, cases body, simp_all)
  ultimately have "body = [body ! 0] @ LE_PutUint32 (LE_Uint32 (slice 1 5 body)) @ drop 5 body"
    by (metis append_assoc append_take_drop_id)
  with True show ?thesis by (metis append_Cons list.inject append_Nil)
next
  case False
  have "5 \<le> length ([1] @ LE_PutUint32 (LE_Uint32 (slice 1 5 body)) @ drop 5 body)" by simp
  with False show ?thesis by metis
qed

lemma decryptRequestBody_eq:
  "decryptRequestBody body key = Inr req \<longleftrightarrow> sealed_request key req body"
proof
  assume a: "decryptRequestBody body key = Inr req"
  let ?seed = "LE_Uint32 (slice 1 5 body)" and ?c = "drop 5 body"
  from a obtain p where len: "5 \<le> length body" "body ! 0 = 1"
    and p: "Decrypt3DESCBC key (DeriveIV ?seed) ?c = Inr p" and lp: "5 \<le> length p"
    and mac: "take 4 p = TruncatedHMACSHA1 key (drop 5 p)"
    and req: "req = \<lparr>er_Seed = ?seed, er_Service = p ! 4, er_Payload = drop 5 p\<rparr>"
    by (auto simp: decryptRequestBody_def Let_def encryptedEnvelopeHeaderSize_def TripleDESBlockSize_def
        TruncatedHMACSize_def split: if_splits sum.splits)
  have "p = take 4 p @ [p ! 4] @ drop 5 p"
    using lp by (simp add: Cons_nth_drop_Suc [of 4, simplified])
  then have "Encrypt3DESCBC key (DeriveIV ?seed) (TruncatedHMACSHA1 key (drop 5 p) @ [p ! 4] @ drop 5 p) = Inr ?c"
    using Encrypt_Decrypt3DESCBC [OF _ p] mac by simp
  then show "sealed_request key req body"
    using envelope_split [of body] len req unfolding sealed_request_def by (intro exI [of _ ?c]) simp
next
  assume "sealed_request key req body"
  then obtain c where body: "body = [1] @ LE_PutUint32 (er_Seed req) @ c" and c: "Encrypt3DESCBC key (DeriveIV (er_Seed req))
          (TruncatedHMACSHA1 key (er_Payload req) @ [er_Service req] @ er_Payload req) = Inr c"
    unfolding sealed_request_def by blast
  have d: "Decrypt3DESCBC key (DeriveIV (er_Seed req)) c =
      Inr (TruncatedHMACSHA1 key (er_Payload req) @ [er_Service req] @ er_Payload req)"
    by (rule Decrypt_Encrypt3DESCBC [OF _ c]) simp
  have "length c = length (er_Payload req) + 5" "length c mod 8 = 0"
    using length_Encrypt3DESCBC [OF _ c] c by (auto simp: Encrypt3DESCBC_eq)
  moreover have "8 \<le> n" if "n = k + 5" "n mod 8 = 0" for n k :: nat
    using that by presburger
  ultimately have "8 \<le> length c" "length c mod 8 = 0" by auto
  then show "decryptRequestBody body key = Inr req"
    by (simp add: decryptRequestBody_def body slice_def d encryptedEnvelopeHeaderSize_def
        TripleDESBlockSize_def TruncatedHMACSize_def nth_append)
qed

lemma sealed_request_unique:
  "sealed_request key req body \<Longrightarrow> sealed_request key req' body \<Longrightarrow> req = req'"
  unfolding decryptRequestBody_eq [symmetric] by simp

lemma length_marshalClearTaskReplyBody: "length (marshalClearTaskReplyBody r) \<noteq> 200"
  "length (marshalClearTaskReplyBody r) \<le> length r + 2"
  by (simp_all add: marshalClearTaskReplyBody_def reservedClearTaskReplyBodySize_def Let_def)

section \<open>The end of a request\<close>

definition request_padding :: "u32 \<Rightarrow> bytes \<Rightarrow> bool" where
  "request_padding seed padding \<longleftrightarrow> (\<exists>k \<le> 7. padding = 0 # replicate k (ucast seed))"

lemma validClientRequestPadding_eq: "validClientRequestPadding padding seed \<longleftrightarrow> request_padding seed padding"
proof
  assume a: "validClientRequestPadding padding seed"
  then have "padding = 0 # replicate (length padding - 1) (ucast seed)"
    by (cases padding) (auto simp: validClientRequestPadding_def list_all_iff TripleDESBlockSize_def
        intro!: replicate_eqI)
  moreover have "length padding - 1 \<le> 7"
    using a by (auto simp: validClientRequestPadding_def TripleDESBlockSize_def)
  ultimately show "request_padding seed padding"
    unfolding request_padding_def by blast
next
  assume "request_padding seed padding"
  then show "validClientRequestPadding padding seed"
    by (auto simp: validClientRequestPadding_def request_padding_def TripleDESBlockSize_def list_all_iff)
qed

lemma read_rest:
  assumes "br_wf r" and "length (br_rest r) \<le> MaxUint32"
  shows "br_ReadRaw (word_of_int (br_Remaining r)) r = (Inr (br_rest r), br_advance (length (br_rest r)) r)"
  using recognisesD [OF recognises_ReadRaw assms(1), of "word_of_int (br_Remaining r)" "br_rest r"] assms(2)
  by (simp add: br_Remaining_rest [OF assms(1)] del: of_nat_numeral)

lemma read_request_padding_eq:
  assumes "br_wf r" and "length (br_rest r) \<le> MaxUint32"
  shows "(\<exists>r'. read_request_padding e seed req r = (Inr v, r')) \<longleftrightarrow> v = req \<and> request_padding seed (br_rest r)"
  by (auto simp: read_request_padding_def read_rest [OF assms] validClientRequestPadding_eq)

lemma padded_request:
  assumes "recognises rd E" and "length payload \<le> MaxUint32"
    and tail: "\<And>v r. br_wf r \<Longrightarrow> br_data r = payload \<Longrightarrow>
      (\<exists>r'. tail_of v r = (Inr req, r')) \<longleftrightarrow> req = f v \<and> request_padding seed (br_rest r)"
  shows "fst (go_bind rd tail_of (NewByteReader payload True)) = Inr req \<longleftrightarrow>
    (\<exists>v bs padding. E True v bs \<and> payload = bs @ padding \<and> request_padding seed padding \<and> req = f v)"
proof -
  let ?r = "NewByteReader payload True"
  have "fst (go_bind rd tail_of ?r) = Inr req \<longleftrightarrow> (\<exists>v r1. rd ?r = (Inr v, r1) \<and> (\<exists>r'. tail_of v r1 = (Inr req, r')))"
    by (auto simp: go_bind_def split: prod.splits sum.splits) (metis fst_conv surj_pair)+
  also have "\<dots> \<longleftrightarrow> (\<exists>v bs. E True v bs \<and> prefix bs payload \<and>
      req = f v \<and> request_padding seed (drop (length bs) payload))"
  proof -
        have step: "(\<exists>r'. tail_of v (br_advance (length bs) ?r) = (Inr req, r')) \<longleftrightarrow>
        req = f v \<and> request_padding seed (drop (length bs) payload)" if "prefix bs payload" for v bs
    proof -
      have "br_wf (br_advance (length bs) ?r)" using that by (intro br_wf_advance) simp_all
      moreover have "br_data (br_advance (length bs) ?r) = payload" by (simp add: NewByteReader_def)
      ultimately show ?thesis using tail [of _ v] by (simp add: br_rest_advance)
    qed
    show ?thesis
      unfolding recognisesD [OF assms(1) br_wf_New] br_fields_New br_rest_New using step by blast
  qed
  also have "\<dots> \<longleftrightarrow> (\<exists>v bs padding. E True v bs \<and> payload = bs @ padding \<and> request_padding seed padding \<and> req = f v)"
    unfolding prefix_def by (metis append_eq_conv_conj)
  finally show ?thesis .
qed



lemma padded_request_fields:
  assumes "recognises rd E" and "length payload \<le> MaxUint32"
  shows "fst (go_bind rd (read_request_padding e seed) (NewByteReader payload True)) = Inr req \<longleftrightarrow>
    (\<exists>bs padding. E True req bs \<and> payload = bs @ padding \<and> request_padding seed padding)"
  by (subst padded_request [OF assms, where f = "\<lambda>v. v"])
    (use assms(2) in \<open>auto simp: read_request_padding_eq br_rest_def\<close>)

lemma rest_within: "br_data r = payload \<Longrightarrow> length payload \<le> n \<Longrightarrow> length (br_rest r) \<le> n"
  by (simp add: br_rest_def)

section \<open>Event log requests\<close>

definition event_bytes :: "EventLogRequest \<Rightarrow> bytes" where
  "event_bytes ev = enc_uint8 True (ev_Task ev) @ enc_blob True (ev_Blob ev) @ enc_uint32 True (ev_Category ev)"

definition event_fields :: "(ByteReader, EventLogRequest) go" where
  "event_fields =
     go_bind (go_wrap (malformedEventLog ''read task'') br_ReadUint8) (\<lambda>task.
       if task \<noteq> EventLogTaskLog
       then go_fail (Context ''task'' (EventLogErr ErrUnsupportedEventLogTask))
       else go_bind (go_wrap (malformedEventLog ''read event blob'') (br_ReadBlob defaultMaxEventBlob)) (\<lambda>blob.
         go_bind (go_wrap (malformedEventLog ''read category'') br_ReadUint32) (\<lambda>category.
           go_return \<lparr>ev_Task = task, ev_Blob = blob, ev_Category = category\<rparr>)))"

lemma recognises_event_fields:
  "recognises event_fields (\<lambda>tc v bs. ev_Task v = EventLogTaskLog \<and> length (ev_Blob v) \<le> 65536 \<and>
     bs = enc_uint8 tc (ev_Task v) @ enc_blob tc (ev_Blob v) @ enc_uint32 tc (ev_Category v))"
proof -
  have v: "v = \<lparr>ev_Task = t, ev_Blob = b, ev_Category = c\<rparr> \<longleftrightarrow> ev_Task v = t \<and> ev_Blob v = b \<and> ev_Category v = c"
    for t b c and v :: EventLogRequest
    by (cases v) auto
  show ?thesis
    unfolding event_fields_def
    by (rule recognises_cong, (rule recognise_intros)+)
      (auto simp: defaultMaxEventBlob_def v split: if_splits)
qed

lemma parseEventLogRequest_eq:
  assumes "length payload \<le> MaxUint32"
  shows "parseEventLogRequest payload seed = Inr ev \<longleftrightarrow>
    ev_Task ev = EventLogTaskLog \<and> length (ev_Blob ev) \<le> 65536 \<and>
    (\<exists>padding. payload = event_bytes ev @ padding \<and> request_padding seed padding)"
proof -
  have bind: "parseEventLogRequest payload seed = fst (go_bind event_fields (read_request_padding
      (Context ''invalid request padding'' (EventLogErr ErrMalformedEventLogRequest)) seed) (NewByteReader payload True))"
    unfolding parseEventLogRequest_def event_fields_def go_bind_laws ..
  show ?thesis
    unfolding bind event_bytes_def
    by (subst padded_request_fields [OF recognises_event_fields assms]) auto
qed

section \<open>Messaging requests\<close>

definition messaging_fields :: "(ByteReader, MessagingRequest) go" where
  "messaging_fields =
     go_bind (go_wrap (\<lambda>_. malformedMessaging ''read task'') br_ReadUint8) (\<lambda>task.
       if task \<noteq> MessagingTaskSendGlobalInstantMessage
       then go_fail (Context ''task'' (MessagingErr ErrUnsupportedMessagingTask))
       else go_bind (go_wrap (\<lambda>_. malformedMessaging ''read recipient'') br_ReadUint64) (\<lambda>recipientID.
         go_bind (go_wrap (\<lambda>_. malformedMessaging ''read message'') (br_ReadBlob maxMessagingMessageBytes)) (\<lambda>message.
           go_return \<lparr>msg_Task = task, msg_Recipient = recipientID, msg_Message = message\<rparr>)))"

definition messaging_bytes :: "MessagingRequest \<Rightarrow> bytes" where
  "messaging_bytes req = enc_uint8 True (msg_Task req) @ enc_uint64 True (msg_Recipient req) @
     enc_blob True (msg_Message req)"

lemma recognises_messaging_fields:
  "recognises messaging_fields (\<lambda>tc v bs. msg_Task v = MessagingTaskSendGlobalInstantMessage \<and>
     length (msg_Message v) \<le> 4096 \<and>
     bs = enc_uint8 tc (msg_Task v) @ enc_uint64 tc (msg_Recipient v) @ enc_blob tc (msg_Message v))"
proof -
  have v: "v = \<lparr>msg_Task = t, msg_Recipient = r, msg_Message = m\<rparr> \<longleftrightarrow> msg_Task v = t \<and> msg_Recipient v = r \<and> msg_Message v = m"
    for t r m and v :: MessagingRequest
    by (cases v) auto
  show ?thesis
    unfolding messaging_fields_def
    by (rule recognises_cong, (rule recognise_intros)+)
      (auto simp: maxMessagingMessageBytes_def v split: if_splits)
qed

lemma request_padding_length: "request_padding seed padding \<Longrightarrow> 1 \<le> length padding \<and> length padding \<le> 8"
  by (auto simp: request_padding_def)

lemma parseMessagingRequest_eq:
  assumes "length payload \<le> MaxUint32"
  shows "parseMessagingRequest payload seed = Inr req \<longleftrightarrow>
    msg_Task req = MessagingTaskSendGlobalInstantMessage \<and> length (msg_Message req) \<le> 4096 \<and>
    (\<exists>padding. payload = messaging_bytes req @ padding \<and> request_padding seed padding) \<and>
    (length payload + 5) mod 8 = 0"
proof -
  let ?tail = "\<lambda>v reader. if br_Remaining reader > int TripleDESBlockSize
      then (Inl (malformedMessaging ''excess padding''), reader)
      else read_request_padding (malformedMessaging ''invalid request padding'') seed v reader"
  have bind: "parseMessagingRequest payload seed = (if (length payload + 5) mod 8 \<noteq> 0
      then Inl (malformedMessaging ''invalid encrypted-block padding'')
      else fst (go_bind messaging_fields ?tail (NewByteReader payload True)))"
  proof -
    have n: "length payload + 4 + 1 = length payload + 5" by simp
    show ?thesis
      unfolding parseMessagingRequest_def messaging_fields_def go_bind_laws TruncatedHMACSize_def
        TripleDESBlockSize_def n ..
  qed
  have tail: "(\<exists>r'. ?tail v r = (Inr req, r')) \<longleftrightarrow> req = v \<and> request_padding seed (br_rest r)"
    if "br_wf r" "br_data r = payload" for v r
    using read_request_padding_eq [OF that(1), of _ seed v req] rest_within [OF that(2) assms]
      request_padding_length [of seed "br_rest r"]
    by (auto simp: br_Remaining_rest [OF that(1)] TripleDESBlockSize_def)
  show ?thesis
    unfolding bind messaging_bytes_def
    using padded_request [OF recognises_messaging_fields assms tail, of "\<lambda>v. v"] by auto
qed

section \<open>Replies\<close>

lemma marshalTaskReply_eq:
  "marshalTaskReply tid op err n all = taskReplyMessage # enc_uint64 True tid @ enc_uint32 True err @
     enc_uint8 True op @ enc_uint32 True n @ (if n \<noteq> 0 then enc_uint32 True all else [])"
  by (simp add: marshalTaskReply_def Let_def bw_write_eq bw_Bytes_def NewByteWriter_def)

lemma length_marshalTaskReply: "length (marshalTaskReply tid op err n all) = (if n = 0 then 22 else 27)"
  by (simp add: marshalTaskReply_eq length_enc)

definition push_plaintext :: "u64 \<Rightarrow> gostring \<Rightarrow> bytes \<Rightarrow> bytes" where
  "push_plaintext senderID senderName message =
     LE_PutUint32 serverReplySignature @ [pushMessageType] @ enc_uint32 True globalInstantMessageEvent @
     enc_uint64 True senderID @ enc_string True senderName @ enc_blob True message"

lemma length_push_plaintext: "length (push_plaintext i n m) = 27 + length n + length m"
  by (simp add: push_plaintext_def length_enc)

lemma marshalGlobalInstantMessagePush_eq:
  "marshalGlobalInstantMessagePush key seed senderID senderName message = Inr body \<longleftrightarrow>
     length senderName \<le> 63 \<and> 0 \<notin> set senderName \<and> length message \<le> 4096 \<and>
     (\<exists>c. Encrypt3DESCBC key (DeriveIV seed) (PadTo3DESBlock (push_plaintext senderID senderName message)) = Inr c \<and>
        body = [1] @ LE_PutUint32 seed @ c)"
proof (cases "length senderName \<le> 63 \<and> 0 \<notin> set senderName \<and> length message \<le> 4096")
  case False
  then show ?thesis
    by (auto simp: marshalGlobalInstantMessagePush_def maxMessagingSenderNameBytes_def
        maxMessagingMessageBytes_def linorder_not_less [symmetric])
next
  case True
  let ?w = "bw_WriteUint64 senderID (bw_WriteUint32 globalInstantMessageEvent (NewByteWriter True))"
  obtain w1 where w1: "bw_WriteString senderName ?w = (Inr (), w1)"
    using True by (simp add: bw_WriteString_eq)
  obtain w2 where w2: "bw_WriteBlob message w1 = (Inr (), w2)"
    using True by (simp add: bw_WriteBlob_eq)
  have b: "bw_Bytes w2 = enc_uint32 True globalInstantMessageEvent @ enc_uint64 True senderID @
      enc_string True senderName @ enc_blob True message"
    using w1 w2 by (auto simp: bw_WriteString_eq bw_WriteBlob_eq bw_write_eq bw_Bytes_def NewByteWriter_def)
  have z: "replicate 5 0 = replicate 4 0 @ [0 :: byte]"
    by (simp add: numeral_eq_Suc)
  have p: "(copy_at 0 (LE_PutUint32 serverReplySignature) (replicate 5 0))[4 := pushMessageType] @ bw_Bytes w2 =
      push_plaintext senderID senderName message"
    unfolding push_plaintext_def b z using copy_at_mid [of 0 "[]" "LE_PutUint32 serverReplySignature" "replicate 4 0" "[0]"]
      list_update_mid [of 4 "LE_PutUint32 serverReplySignature" 0 "[]" pushMessageType]
    by simp
  have body: "copy_at 5 c (copy_at 1 (LE_PutUint32 seed) ((replicate (5 + length c) 0)[0 := 1])) =
      [1] @ LE_PutUint32 seed @ c" for c
  proof -
    have "(replicate (5 + length c) 0)[0 := 1] = [1 :: byte] @ replicate 4 0 @ replicate (length c) 0"
      by (simp add: replicate_add numeral_eq_Suc)
    then show ?thesis
      using copy_at_mid [of 1 "[1]" "LE_PutUint32 seed" "replicate 4 0" "replicate (length c) 0"]
        copy_at_mid [of 5 "[1] @ LE_PutUint32 seed" c "replicate (length c) 0" "[]"]
      by simp
  qed
  have ok: "\<not> (length senderName > maxMessagingSenderNameBytes \<or> IndexByte senderName 0 \<ge> 0 \<or>
         length message > unat maxMessagingMessageBytes)"
    using True by (simp add: maxMessagingSenderNameBytes_def maxMessagingMessageBytes_def not_le)
  show ?thesis
    unfolding marshalGlobalInstantMessagePush_def if_not_P [OF ok] Let_def w1 w2 prod.case sum.case
      encryptedEnvelopeHeaderSize_def p body
    using True by (auto split: sum.splits)
qed

lemma push_body:
  assumes "marshalGlobalInstantMessagePush key seed senderID senderName message = Inr body"
  shows "length body < 5000" "length body \<noteq> 200"
proof -
  from assms obtain c where l: "length senderName \<le> 63" "length message \<le> 4096"
    and c: "Encrypt3DESCBC key (DeriveIV seed) (PadTo3DESBlock (push_plaintext senderID senderName message)) = Inr c"
    "body = [1] @ LE_PutUint32 seed @ c"
    unfolding marshalGlobalInstantMessagePush_eq by blast
  let ?p = "push_plaintext senderID senderName message"
  have s: "length ?p < 2 ^ 62" using l by (simp add: length_push_plaintext)
  have e: "length c = length (PadTo3DESBlock ?p)" using length_Encrypt3DESCBC [OF _ c(1)] by simp
  have "length (PadTo3DESBlock ?p) \<le> length ?p + 8"
    unfolding PadTo3DESBlock_eq [OF s] by simp
  then show "length body < 5000" using e c(2) l by (simp add: length_push_plaintext)
  have "length c mod 8 = 0" using e length_PadTo3DESBlock [OF s] by simp
  then show "length body \<noteq> 200" using c(2) by auto
qed

lemma push_recovers:
  assumes "marshalGlobalInstantMessagePush key seed senderID senderName message = Inr body"
  shows "\<exists>c k. body = [1] @ LE_PutUint32 seed @ c \<and> k < 8 \<and>
    Decrypt3DESCBC key (DeriveIV seed) c =
      Inr (push_plaintext senderID senderName message @ replicate k 0) \<and>
    checkFrameBody body = None"
proof -
  from assms obtain c where l: "length senderName \<le> 63" "length message \<le> 4096"
    and c: "Encrypt3DESCBC key (DeriveIV seed) (PadTo3DESBlock (push_plaintext senderID senderName message)) = Inr c"
    "body = [1] @ LE_PutUint32 seed @ c"
    unfolding marshalGlobalInstantMessagePush_eq by blast
  have "Decrypt3DESCBC key (DeriveIV seed) c = Inr (PadTo3DESBlock (push_plaintext senderID senderName message))"
    by (rule Decrypt_Encrypt3DESCBC [OF _ c(1)]) simp
  moreover have "length (push_plaintext senderID senderName message) < 2 ^ 62"
    using l by (simp add: length_push_plaintext)
  ultimately show ?thesis
    using push_body [OF assms] c(2) by (auto simp: PadTo3DESBlock_eq checkFrameBody_None)
qed

section \<open>Properties\<close>

text \<open>C26: an encrypted request is accepted exactly when it is the clear byte 1, a seed and the
  encryption, under the session key and the seed's vector, of the truncated HMAC of the payload,
  the service and the payload; so what is returned was sealed with the session key, and what a
  holder of the key seals is accepted.\<close>

theorem decryptRequestBody_exact:
  "decryptRequestBody body key = Inr req \<longleftrightarrow>
     (\<exists>ciphertext. body = [1] @ LE_PutUint32 (er_Seed req) @ ciphertext \<and>
        Encrypt3DESCBC key (DeriveIV (er_Seed req))
          (TruncatedHMACSHA1 key (er_Payload req) @ [er_Service req] @ er_Payload req) = Inr ciphertext)"
  unfolding decryptRequestBody_eq sealed_request_def ..

text \<open>An instant-message request is accepted exactly when its payload is the encoding of the
  task, the recipient and a message of at most 4096 bytes, then a zero and at most seven bytes of
  the seed, filled up to whole cipher blocks.\<close>

theorem parseMessagingRequest_exact:
  assumes "length payload \<le> MaxUint32"
  shows "parseMessagingRequest payload seed = Inr req \<longleftrightarrow>
    msg_Task req = MessagingTaskSendGlobalInstantMessage \<and> length (msg_Message req) \<le> 4096 \<and>
    (\<exists>k \<le> 7. payload = enc_uint8 True (msg_Task req) @ enc_uint64 True (msg_Recipient req) @
       enc_blob True (msg_Message req) @ 0 # replicate k (ucast seed)) \<and>
    (length payload + 5) mod 8 = 0"
  using parseMessagingRequest_eq [OF assms, of seed req]
  by (auto simp: messaging_bytes_def request_padding_def)

theorem parseMessagingRequest_exact_witness:
  "parseMessagingRequest [3, 0x0e, 0x0a, 7, 0, 0, 0, 0, 0, 0, 0, 0x13, 8, 1, 0, 0, 0, 65, 0] 5 =
     Inr \<lparr>msg_Task = 0x0e, msg_Recipient = 7, msg_Message = [65]\<rparr>"
proof -
  let ?p = "[3, 0x0e, 0x0a, 7, 0, 0, 0, 0, 0, 0, 0, 0x13, 8, 1, 0, 0, 0, 65, 0] :: bytes"
  have "?p = enc_uint8 True 0x0e @ enc_uint64 True 7 @ enc_blob True [65] @ 0 # replicate 0 (ucast (5 :: u32))"
    by code_simp
  moreover have "length ?p \<le> MaxUint32" "(length ?p + 5) mod 8 = 0" by simp_all
  ultimately show ?thesis
    using parseMessagingRequest_exact [of ?p 5 "\<lparr>msg_Task = 0x0e, msg_Recipient = 7, msg_Message = [65]\<rparr>"]
    by (auto simp: MessagingTaskSendGlobalInstantMessage_def simp del: replicate_0)
qed

text \<open>C36: an instant message that is pushed to a recipient opens under the recipient's session key to
  the sender's identity, name and message, and its body can always be sent: it is short and never
  has the reserved length.\<close>

theorem push_opens:
  assumes "marshalGlobalInstantMessagePush key seed senderID senderName message = Inr body"
  shows "\<exists>c k. body = [1] @ LE_PutUint32 seed @ c \<and> k < 8 \<and>
    Decrypt3DESCBC key (DeriveIV seed) c =
      Inr (push_plaintext senderID senderName message @ replicate k 0) \<and>
    checkFrameBody body = None"
  by (rule push_recovers [OF assms])

theorem push_opens_witness:
  "\<exists>body. marshalGlobalInstantMessagePush (replicate 24 1) 5 9 [65] [66] = Inr body \<and> checkFrameBody body = None"
proof -
  have "length (PadTo3DESBlock (push_plaintext 9 [65] [66])) mod 8 = 0"
    by (rule length_PadTo3DESBlock) (simp add: length_push_plaintext)
  then obtain body where "marshalGlobalInstantMessagePush (replicate 24 1) 5 9 [65] [66] = Inr body"
    unfolding marshalGlobalInstantMessagePush_eq by (auto simp: Encrypt3DESCBC_eq)
  with push_opens show ?thesis by blast
qed

end
