(* ===== verification/Matchmaking.thy ===== *)
theory Matchmaking
  imports Lobby_Messages
begin

text \<open>
  \<^verbatim>\<open>internal/online/lobby/matchmaking.go\<close>: the requests of the matchmaking service, their parser, and
  the encoding of a session in a search reply. An \<^verbatim>\<open>int32\<close> field is its 32 bits. The parser is shown
  to accept exactly the encodings of the requests it returns, and a search result to be read back.
\<close>

definition MatchmakingServiceID :: byte where "MatchmakingServiceID = 0x15"
definition MatchmakingTaskCreate :: byte where "MatchmakingTaskCreate = 0x01"
definition MatchmakingTaskUpdate :: byte where "MatchmakingTaskUpdate = 0x02"
definition MatchmakingTaskDelete :: byte where "MatchmakingTaskDelete = 0x03"
definition MatchmakingTaskFind :: byte where "MatchmakingTaskFind = 0x05"
definition matchmakingSessionIDSize :: nat where "matchmakingSessionIDSize = 8"
definition maxHostAddressSize :: nat where "maxHostAddressSize = 255"
definition maxMatchmakingTextBytes :: nat where "maxMatchmakingTextBytes = 31"
definition maxFindResults :: u32 where "maxFindResults = 50"
definition matchmakingWildcardKey :: u32 where "matchmakingWildcardKey = 5381"

type_synonym MatchmakingSessionID = bytes

record MatchmakingAttributes =
  AppU32At11C :: u32
  AppU32At120 :: u32
  AppU64At128 :: u64
  AppStringAt130 :: gostring
  AppU32At154 :: u32
  AppU32At158 :: u32
  AppI32At15C :: u32

record MatchmakingInfo =
  mi_HostAddress :: bytes
  mi_SessionID :: MatchmakingSessionID
  mi_GameType :: u32
  mi_MaxPlayers :: u32
  mi_NumPlayers :: u32
  mi_Attributes :: MatchmakingAttributes

record MatchmakingQuery =
  mq_Key :: u32
  mq_Value :: u32

record MatchmakingRequest =
  mr_Task :: byte
  mr_SessionID :: MatchmakingSessionID
  mr_Info :: MatchmakingInfo
  mr_NumParams :: u32
  mr_Offset :: u32
  mr_MaxResults :: u32
  mr_Query :: MatchmakingQuery

text \<open>The zero values of the structs.\<close>

definition zero_attributes :: MatchmakingAttributes where
  "zero_attributes = \<lparr>AppU32At11C = 0, AppU32At120 = 0, AppU64At128 = 0, AppStringAt130 = [],
     AppU32At154 = 0, AppU32At158 = 0, AppI32At15C = 0\<rparr>"

definition zero_session_id :: MatchmakingSessionID where
  "zero_session_id = replicate matchmakingSessionIDSize 0"

definition zero_info :: MatchmakingInfo where
  "zero_info = \<lparr>mi_HostAddress = [], mi_SessionID = zero_session_id, mi_GameType = 0,
     mi_MaxPlayers = 0, mi_NumPlayers = 0, mi_Attributes = zero_attributes\<rparr>"

definition zero_request :: MatchmakingRequest where
  "zero_request = \<lparr>mr_Task = 0, mr_SessionID = zero_session_id, mr_Info = zero_info,
     mr_NumParams = 0, mr_Offset = 0, mr_MaxResults = 0, mr_Query = \<lparr>mq_Key = 0, mq_Value = 0\<rparr>\<rparr>"

section \<open>Operations\<close>

definition bindMatchmakingIdentity :: "MatchmakingRequest \<Rightarrow> gostring \<Rightarrow> go_error + MatchmakingRequest" where
  "bindMatchmakingIdentity request username =
     (if mr_Task request \<noteq> MatchmakingTaskCreate \<and> mr_Task request \<noteq> MatchmakingTaskUpdate
      then Inr request
      else if length username > maxMatchmakingTextBytes then Inl (MatchmakingErr ErrMatchmakingIdentity)
      else Inr (request\<lparr>mr_Info := (mr_Info request)\<lparr>mi_Attributes :=
                  (mi_Attributes (mr_Info request))\<lparr>AppStringAt130 := username\<rparr>\<rparr>\<rparr>))"

definition malformedMatchmaking :: "string \<Rightarrow> go_error" where
  "malformedMatchmaking step = Context step (MatchmakingErr ErrMalformedMatchmakingRequest)"

definition readMatchmakingAttributes :: "(ByteReader, MatchmakingAttributes) go" where
  "readMatchmakingAttributes =
     go_bind (go_wrap (Context ''read field 0x11c'') br_ReadUint32) (\<lambda>u11c.
     go_bind (go_wrap (Context ''read field 0x120'') br_ReadUint32) (\<lambda>u120.
     go_bind (go_wrap (Context ''read field 0x128'') br_ReadUint64) (\<lambda>u128.
     go_bind (go_wrap (Context ''read field 0x130'')
                (br_ReadString (word_of_nat maxMatchmakingTextBytes))) (\<lambda>s130.
     go_bind (go_wrap (Context ''read field 0x154'') br_ReadUint32) (\<lambda>u154.
     go_bind (go_wrap (Context ''read field 0x158'') br_ReadUint32) (\<lambda>u158.
     go_bind (go_wrap (Context ''read field 0x15c'') br_ReadInt32) (\<lambda>i15c.
       go_return \<lparr>AppU32At11C = u11c, AppU32At120 = u120, AppU64At128 = u128,
                  AppStringAt130 = s130, AppU32At154 = u154, AppU32At158 = u158,
                  AppI32At15C = i15c\<rparr>)))))))"

definition readMatchmakingRequestInfo :: "(ByteReader, MatchmakingInfo) go" where
  "readMatchmakingRequestInfo =
     go_bind (go_wrap (Context ''read host address'')
                (br_ReadBlob (word_of_nat maxHostAddressSize))) (\<lambda>hostAddress.
     go_bind (go_wrap (Context ''read game type'') br_ReadUint32) (\<lambda>gameType.
     go_bind (go_wrap (Context ''read maximum players'') br_ReadUint32) (\<lambda>maxPlayers.
     go_bind (go_wrap (Context ''read attributes'') readMatchmakingAttributes) (\<lambda>attributes.
       go_return (zero_info\<lparr>mi_HostAddress := hostAddress, mi_GameType := gameType,
                  mi_MaxPlayers := maxPlayers, mi_Attributes := attributes\<rparr>)))))"

definition readMatchmakingSessionID :: "(ByteReader, MatchmakingSessionID) go" where
  "readMatchmakingSessionID =
     go_bind (br_ReadBlob (word_of_nat matchmakingSessionIDSize)) (\<lambda>encoded.
       if length encoded \<noteq> matchmakingSessionIDSize then go_fail (Message ''session ID size'')
       else go_return (copy_at 0 encoded (replicate matchmakingSessionIDSize 0)))"

text \<open>The cases of the switch over the task, with the check of \<^verbatim>\<open>err\<close> that follows it.\<close>

definition read_task_arguments :: "byte \<Rightarrow> (ByteReader, MatchmakingRequest) go" where
  "read_task_arguments task =
     (let request = zero_request\<lparr>mr_Task := task\<rparr>
      in if task = MatchmakingTaskCreate
         then go_bind (go_wrap (\<lambda>_. malformedMatchmaking ''read task arguments'') readMatchmakingRequestInfo)
           (\<lambda>info. go_return (request\<lparr>mr_Info := info\<rparr>))
         else if task = MatchmakingTaskUpdate
         then go_bind (go_wrap (\<lambda>_. malformedMatchmaking ''read update session ID'') readMatchmakingSessionID) (\<lambda>sid.
           go_bind (go_wrap (\<lambda>_. malformedMatchmaking ''read task arguments'') readMatchmakingRequestInfo)
             (\<lambda>info. go_return (request\<lparr>mr_SessionID := sid, mr_Info := info\<rparr>)))
         else if task = MatchmakingTaskDelete
         then go_bind (go_wrap (\<lambda>_. malformedMatchmaking ''read delete session ID'') readMatchmakingSessionID)
           (\<lambda>sid. go_return (request\<lparr>mr_SessionID := sid\<rparr>))
         else if task = MatchmakingTaskFind
         then go_bind (go_wrap (\<lambda>_. malformedMatchmaking ''read find parameter count'') br_ReadUint32) (\<lambda>numParams.
           go_bind (go_wrap (\<lambda>_. malformedMatchmaking ''read find result offset'') br_ReadUint32) (\<lambda>off.
           go_bind (go_wrap (\<lambda>_. malformedMatchmaking ''read find result limit'') br_ReadUint32) (\<lambda>maxResults.
             if numParams \<noteq> 1 \<or> maxResults > maxFindResults
             then go_fail (MatchmakingErr ErrUnsupportedMatchmakingQuery)
             else go_bind (go_wrap (\<lambda>_. malformedMatchmaking ''read find query key'') br_ReadUint32) (\<lambda>key.
               go_bind (go_wrap (\<lambda>_. malformedMatchmaking ''read find query value'') br_ReadInt32) (\<lambda>val.
                 go_return (request\<lparr>mr_NumParams := numParams, mr_Offset := off,
                   mr_MaxResults := maxResults, mr_Query := \<lparr>mq_Key = key, mq_Value = val\<rparr>\<rparr>))))))
         else go_fail (Context ''task'' (MatchmakingErr ErrUnsupportedMatchmakingTask)))"

definition parseMatchmakingRequest :: "bytes \<Rightarrow> u32 \<Rightarrow> go_error + MatchmakingRequest" where
  "parseMatchmakingRequest payload seed =
     fst (go_bind (go_wrap (\<lambda>_. malformedMatchmaking ''read task'') br_ReadUint8) (\<lambda>task.
       go_bind (read_task_arguments task) (\<lambda>request.
         read_request_padding (malformedMatchmaking ''invalid request padding'') seed request))
       (NewByteReader payload True))"

definition writeMatchmakingSessionID :: "MatchmakingSessionID \<Rightarrow> (ByteWriter, unit) go" where
  "writeMatchmakingSessionID sessionID = bw_WriteBlob sessionID"

text \<open>A write that cannot fail, in a sequence of writes.\<close>

definition bw_then :: "(ByteWriter \<Rightarrow> ByteWriter) \<Rightarrow> (ByteWriter, unit) go" where
  "bw_then f writer = (Inr (), f writer)"

definition writeMatchmakingResult :: "MatchmakingInfo \<Rightarrow> (ByteWriter, unit) go" where
  "writeMatchmakingResult info =
     (let attributes = mi_Attributes info
      in if length (mi_HostAddress info) > maxHostAddressSize \<or>
            length (AppStringAt130 attributes) > maxMatchmakingTextBytes
         then go_fail (MatchmakingErr ErrMalformedMatchmakingRequest)
         else go_bind (bw_WriteBlob (mi_HostAddress info)) (\<lambda>_.
           go_bind (writeMatchmakingSessionID (mi_SessionID info)) (\<lambda>_.
           go_bind (bw_then (bw_WriteUint32 (mi_GameType info))) (\<lambda>_.
           go_bind (bw_then (bw_WriteUint32 (mi_MaxPlayers info))) (\<lambda>_.
           go_bind (bw_then (bw_WriteUint32 (mi_NumPlayers info))) (\<lambda>_.
           go_bind (bw_then (bw_WriteUint32 (AppU32At11C attributes))) (\<lambda>_.
           go_bind (bw_then (bw_WriteUint32 (AppU32At120 attributes))) (\<lambda>_.
           go_bind (bw_then (bw_WriteUint64 (AppU64At128 attributes))) (\<lambda>_.
           go_bind (bw_WriteString (AppStringAt130 attributes)) (\<lambda>_.
           go_bind (bw_then (bw_WriteUint32 (AppU32At154 attributes))) (\<lambda>_.
           go_bind (bw_then (bw_WriteUint32 (AppU32At158 attributes))) (\<lambda>_.
             bw_then (bw_WriteInt32 (AppI32At15C attributes))))))))))))))"

section \<open>What the parser accepts\<close>

text \<open>The encodings, and the requests that have one: fields a task does not carry are zero.\<close>

definition attributes_bytes :: "bool \<Rightarrow> MatchmakingAttributes \<Rightarrow> bytes" where
  "attributes_bytes tc a = enc_uint32 tc (AppU32At11C a) @ enc_uint32 tc (AppU32At120 a) @
     enc_uint64 tc (AppU64At128 a) @ enc_string tc (AppStringAt130 a) @ enc_uint32 tc (AppU32At154 a) @
     enc_uint32 tc (AppU32At158 a) @ enc_int32 tc (AppI32At15C a)"

definition info_bytes :: "bool \<Rightarrow> MatchmakingInfo \<Rightarrow> bytes" where
  "info_bytes tc info = enc_blob tc (mi_HostAddress info) @ enc_uint32 tc (mi_GameType info) @
     enc_uint32 tc (mi_MaxPlayers info) @ attributes_bytes tc (mi_Attributes info)"

definition attributes_ok :: "MatchmakingAttributes \<Rightarrow> bool" where
  "attributes_ok a \<longleftrightarrow> 0 \<notin> set (AppStringAt130 a) \<and> length (AppStringAt130 a) \<le> 31"

definition request_info_ok :: "MatchmakingInfo \<Rightarrow> bool" where
  "request_info_ok info \<longleftrightarrow> length (mi_HostAddress info) \<le> 255 \<and> attributes_ok (mi_Attributes info) \<and>
     mi_SessionID info = zero_session_id \<and> mi_NumPlayers info = 0"

lemma attributes_eq:
  "a = \<lparr>AppU32At11C = b, AppU32At120 = c, AppU64At128 = d, AppStringAt130 = e, AppU32At154 = f,
        AppU32At158 = g, AppI32At15C = h\<rparr> \<longleftrightarrow>
   AppU32At11C a = b \<and> AppU32At120 a = c \<and> AppU64At128 a = d \<and> AppStringAt130 a = e \<and>
   AppU32At154 a = f \<and> AppU32At158 a = g \<and> AppI32At15C a = h"
  by (cases a) auto

lemma recognises_attributes [recognise_intros]:
  "recognises readMatchmakingAttributes (\<lambda>tc a bs. attributes_ok a \<and> bs = attributes_bytes tc a)"
  unfolding readMatchmakingAttributes_def maxMatchmakingTextBytes_def
  by (rule recognises_cong, (rule recognise_intros)+)
    (auto simp: attributes_eq attributes_ok_def attributes_bytes_def)

lemma info_eq:
  "i = zero_info\<lparr>mi_HostAddress := h, mi_GameType := g, mi_MaxPlayers := m, mi_Attributes := a\<rparr> \<longleftrightarrow>
   mi_HostAddress i = h \<and> mi_GameType i = g \<and> mi_MaxPlayers i = m \<and> mi_Attributes i = a \<and>
   mi_SessionID i = zero_session_id \<and> mi_NumPlayers i = 0"
  by (cases i) (auto simp: zero_info_def)

lemma recognises_info [recognise_intros]:
  "recognises readMatchmakingRequestInfo (\<lambda>tc i bs. request_info_ok i \<and> bs = info_bytes tc i)"
  unfolding readMatchmakingRequestInfo_def maxHostAddressSize_def
  by (rule recognises_cong, (rule recognise_intros)+)
    (auto simp: info_eq request_info_ok_def info_bytes_def)

lemma recognises_session_id [recognise_intros]:
  "recognises readMatchmakingSessionID (\<lambda>tc i bs. length i = 8 \<and> bs = enc_blob tc i)"
proof -
  have c: "copy_at 0 e (replicate 8 0) = e" if "length e = 8" for e :: bytes
    using that by (simp add: copy_at_def)
  show ?thesis
    unfolding readMatchmakingSessionID_def matchmakingSessionIDSize_def
    by (rule recognises_cong, (rule recognise_intros)+) (auto simp: c split: if_splits, metis order_refl)
qed

definition matchmaking_bytes :: "bool \<Rightarrow> MatchmakingRequest \<Rightarrow> bytes" where
  "matchmaking_bytes tc req = enc_uint8 tc (mr_Task req) @
     (if mr_Task req = MatchmakingTaskCreate then info_bytes tc (mr_Info req)
      else if mr_Task req = MatchmakingTaskUpdate
      then enc_blob tc (mr_SessionID req) @ info_bytes tc (mr_Info req)
      else if mr_Task req = MatchmakingTaskDelete then enc_blob tc (mr_SessionID req)
      else enc_uint32 tc (mr_NumParams req) @ enc_uint32 tc (mr_Offset req) @
        enc_uint32 tc (mr_MaxResults req) @ enc_uint32 tc (mq_Key (mr_Query req)) @
        enc_int32 tc (mq_Value (mr_Query req)))"

definition matchmaking_request_ok :: "MatchmakingRequest \<Rightarrow> bool" where
  "matchmaking_request_ok req \<longleftrightarrow>
     (let task = mr_Task req; z = zero_request\<lparr>mr_Task := task\<rparr>
      in if task = MatchmakingTaskCreate
         then req = z\<lparr>mr_Info := mr_Info req\<rparr> \<and> request_info_ok (mr_Info req)
         else if task = MatchmakingTaskUpdate
         then req = z\<lparr>mr_SessionID := mr_SessionID req, mr_Info := mr_Info req\<rparr> \<and>
              length (mr_SessionID req) = 8 \<and> request_info_ok (mr_Info req)
         else if task = MatchmakingTaskDelete
         then req = z\<lparr>mr_SessionID := mr_SessionID req\<rparr> \<and> length (mr_SessionID req) = 8
         else task = MatchmakingTaskFind \<and>
              req = z\<lparr>mr_NumParams := 1, mr_Offset := mr_Offset req, mr_MaxResults := mr_MaxResults req,
                      mr_Query := mr_Query req\<rparr> \<and> mr_MaxResults req \<le> maxFindResults)"

lemmas task_defs = MatchmakingTaskCreate_def MatchmakingTaskUpdate_def MatchmakingTaskDelete_def
  MatchmakingTaskFind_def

lemma request_eq:
  "r = \<lparr>mr_Task = t, mr_SessionID = s, mr_Info = i, mr_NumParams = n, mr_Offset = k, mr_MaxResults = m,
        mr_Query = q\<rparr> \<longleftrightarrow>
   mr_Task r = t \<and> mr_SessionID r = s \<and> mr_Info r = i \<and> mr_NumParams r = n \<and> mr_Offset r = k \<and>
   mr_MaxResults r = m \<and> mr_Query r = q"
  by (cases r) auto

lemma query_eq: "q = \<lparr>mq_Key = a, mq_Value = b\<rparr> \<longleftrightarrow> mq_Key q = a \<and> mq_Value q = b"
  by (cases q) auto

lemma recognises_task_arguments [recognise_intros]:
  "recognises (go_bind (go_wrap w br_ReadUint8) read_task_arguments)
     (\<lambda>tc req bs. matchmaking_request_ok req \<and> bs = matchmaking_bytes tc req)"
proof -
  have arms: "recognises (read_task_arguments task)
     (\<lambda>tc req bs. mr_Task req = task \<and> matchmaking_request_ok req \<and> enc_uint8 tc task @ bs = matchmaking_bytes tc req)"
    for task
  proof -
    consider (c) "task = MatchmakingTaskCreate" | (u) "task = MatchmakingTaskUpdate"
      | (d) "task = MatchmakingTaskDelete" | (f) "task = MatchmakingTaskFind"
      | (other) "task \<notin> {MatchmakingTaskCreate, MatchmakingTaskUpdate, MatchmakingTaskDelete, MatchmakingTaskFind}"
      by auto
    then show ?thesis
    proof cases
      case c
      show ?thesis
        unfolding c read_task_arguments_def Let_def if_True simp_thms
        by (rule recognises_cong, (rule recognise_intros)+)
          (auto simp: matchmaking_request_ok_def matchmaking_bytes_def zero_request_def)
    next
      case u
      then show ?thesis
        unfolding u read_task_arguments_def Let_def
        apply (simp add: task_defs)
        by (rule recognises_cong, (rule recognise_intros)+)
          (auto simp: matchmaking_request_ok_def matchmaking_bytes_def zero_request_def task_defs)
    next
      case d
      show ?thesis
        unfolding d read_task_arguments_def Let_def
        apply (simp add: task_defs)
        by (rule recognises_cong, (rule recognise_intros)+)
          (auto simp: matchmaking_request_ok_def matchmaking_bytes_def zero_request_def task_defs)
    next
      case f
      show ?thesis
        unfolding f read_task_arguments_def Let_def
        apply (simp add: task_defs)
        by (rule recognises_cong, (rule recognise_intros)+)
          (auto simp: matchmaking_request_ok_def matchmaking_bytes_def zero_request_def task_defs
            request_eq query_eq if_bool_eq_conj not_less [symmetric] cong: conj_cong)
    next
      case other
      then show ?thesis
        unfolding read_task_arguments_def Let_def
        by simp (rule recognises_cong, rule recognises_fail, auto simp: matchmaking_request_ok_def Let_def)
    qed
  qed
  show ?thesis
    by (rule recognises_cong, (rule recognise_intros arms)+) (auto, auto simp: matchmaking_bytes_def)
qed

lemma parseMatchmakingRequest_eq:
  assumes "length payload \<le> MaxUint32"
  shows "parseMatchmakingRequest payload seed = Inr req \<longleftrightarrow>
    matchmaking_request_ok req \<and>
    (\<exists>k \<le> 7. payload = matchmaking_bytes True req @ 0 # replicate k (ucast seed))"
proof -
  have bind: "parseMatchmakingRequest payload seed =
      fst (go_bind (go_bind (go_wrap (\<lambda>_. malformedMatchmaking ''read task'') br_ReadUint8) read_task_arguments)
        (read_request_padding (malformedMatchmaking ''invalid request padding'') seed) (NewByteReader payload True))"
    unfolding parseMatchmakingRequest_def go_bind_assoc ..
  note eq = padded_request_fields [OF recognises_task_arguments assms, of "\<lambda>_. malformedMatchmaking ''read task''"
      "malformedMatchmaking ''invalid request padding''" seed req]
  show ?thesis
    unfolding bind eq request_padding_def by blast
qed

section \<open>What a search reply holds\<close>

definition result_bytes :: "bool \<Rightarrow> MatchmakingInfo \<Rightarrow> bytes" where
  "result_bytes tc info = enc_blob tc (mi_HostAddress info) @ enc_blob tc (mi_SessionID info) @
     enc_uint32 tc (mi_GameType info) @ enc_uint32 tc (mi_MaxPlayers info) @
     enc_uint32 tc (mi_NumPlayers info) @ attributes_bytes tc (mi_Attributes info)"

text \<open>What the store keeps: the host address and the text are within their limits, and the
  identifier has its size.\<close>

definition stored_info_ok :: "MatchmakingInfo \<Rightarrow> bool" where
  "stored_info_ok info \<longleftrightarrow> length (mi_HostAddress info) \<le> 255 \<and> length (mi_SessionID info) = 8 \<and>
     attributes_ok (mi_Attributes info)"

lemma bw_then_apply [simp]: "bw_then f w = (Inr (), f w)"
  by (simp add: bw_then_def)

lemma writeMatchmakingResult_eq:
  assumes "stored_info_ok info"
  shows "writeMatchmakingResult info w = (Inr (), bw_append (result_bytes (bw_typeChecked w) info) w)"
proof -
  let ?a = "mi_Attributes info"
  have blob: "bw_WriteBlob b w = (Inr (), bw_append (enc_blob (bw_typeChecked w) b) w)" if "length b \<le> 255" for b w
    using that by (simp add: bw_WriteBlob_eq)
  have str: "bw_WriteString (AppStringAt130 ?a) w = (Inr (), bw_append (enc_string (bw_typeChecked w) (AppStringAt130 ?a)) w)" for w
    using assms by (simp add: bw_WriteString_eq stored_info_ok_def attributes_ok_def)
  have ok: "\<not> (length (mi_HostAddress info) > maxHostAddressSize \<or>
            length (AppStringAt130 ?a) > maxMatchmakingTextBytes)" "length (mi_SessionID info) \<le> 255"
      "length (mi_HostAddress info) \<le> 255"
    using assms by (simp_all add: stored_info_ok_def attributes_ok_def maxHostAddressSize_def maxMatchmakingTextBytes_def)
  show ?thesis
    unfolding writeMatchmakingResult_def Let_def if_not_P [OF ok(1)] writeMatchmakingSessionID_def
    by (simp add: go_simps blob ok(2,3) str bw_write_eq result_bytes_def attributes_bytes_def)
qed

lemma length_result_bytes: "stored_info_ok info \<Longrightarrow> length (result_bytes True info) \<le> 400"
  by (simp add: result_bytes_def attributes_bytes_def length_enc stored_info_ok_def attributes_ok_def)

section \<open>Properties\<close>

text \<open>C37: a matchmaking request is accepted exactly when its payload is the encoding of the task and
  of that task's arguments (host addresses of at most 255 bytes, text of at most 31 bytes without
  a NUL, identifiers of 8 bytes, searches for at most 50 results), followed by valid padding;
  what the task does not carry is zero in the request that is returned.\<close>

theorem parseMatchmakingRequest_exact:
  assumes "length payload \<le> MaxUint32"
  shows "parseMatchmakingRequest payload seed = Inr req \<longleftrightarrow>
    matchmaking_request_ok req \<and>
    (\<exists>k \<le> 7. payload = matchmaking_bytes True req @ 0 # replicate k (ucast seed))"
  by (rule parseMatchmakingRequest_eq [OF assms])

theorem parseMatchmakingRequest_exact_witness:
  "parseMatchmakingRequest (matchmaking_bytes True
       (zero_request\<lparr>mr_Task := MatchmakingTaskDelete, mr_SessionID := replicate 8 7\<rparr>) @ 0 # replicate 2 (ucast (5 :: u32))) 5 =
     Inr (zero_request\<lparr>mr_Task := MatchmakingTaskDelete, mr_SessionID := replicate 8 7\<rparr>)"
proof -
  let ?req = "zero_request\<lparr>mr_Task := MatchmakingTaskDelete, mr_SessionID := replicate 8 7\<rparr>"
  let ?p = "matchmaking_bytes True ?req @ 0 # replicate 2 (ucast (5 :: u32))"
  have "matchmaking_request_ok ?req"
    by (simp add: matchmaking_request_ok_def zero_request_def task_defs)
  moreover have "length ?p \<le> MaxUint32"
    by (simp add: matchmaking_bytes_def length_enc task_defs)
  ultimately show ?thesis
    by (intro iffD2 [OF parseMatchmakingRequest_exact] conjI exI [of _ 2] refl) simp_all
qed

end
