(* ===== verification/Counted_Store.thy ===== *)
theory Counted_Store
  imports Go_Prelude
begin

text \<open>
  A map of entries that each belong to an owner, kept together with a counter per owner: the
  shape of the lobby session store and of the matchmaking store. The locale states what one
  insertion and one deletion do to the two maps; that the counters never drift from the
  entries, whatever is inserted, deleted or purged, is proved once here.
\<close>

definition owned :: "('v \<Rightarrow> 'o) \<Rightarrow> ('k, 'v) gomap \<Rightarrow> 'o \<Rightarrow> nat" where
  "owned owner m x = length (filter (\<lambda>(k, v). owner v = x) m)"

lemma owned_Nil [simp]: "owned owner [] x = 0"
  by (simp add: owned_def)

lemma owned_Cons: "owned owner ((k, v) # m) x = (if owner v = x then 1 else 0) + owned owner m x"
  by (simp add: owned_def)

lemma owned_append [simp]: "owned owner (m @ m') x = owned owner m x + owned owner m' x"
  by (simp add: owned_def)

lemma owned_le_length: "owned owner m x \<le> length m"
  by (simp add: owned_def)

lemma owned_delete:
  "gm_ok m \<Longrightarrow> map_of m k = Some v \<Longrightarrow>
   owned owner m x = owned owner (AList.delete k m) x + (if owner v = x then 1 else 0)"
proof (induction m)
  case (Cons e m)
  obtain k' v' where e: "e = (k', v')" by (cases e)
  show ?case
  proof (cases "k' = k")
    case True
    then have "map_of m k = None"
      using Cons.prems(1) e by (auto simp: map_of_eq_None_iff)
    then have "AList.delete k m = m" by (rule delete_absent)
    with True Cons.prems e show ?thesis by (simp add: owned_Cons)
  next
    case False
    with Cons e show ?thesis by (simp add: owned_Cons)
  qed
qed simp

lemma owned_pos: "map_of m k = Some v \<Longrightarrow> owned owner m (owner v) > 0"
  by (auto simp: owned_def filter_empty_conv dest!: map_of_SomeD)

locale counted_store =
  fixes entries :: "'s \<Rightarrow> ('k, 'v) gomap"
    and counts :: "'s \<Rightarrow> ('o, int) gomap"
    and owner :: "'v \<Rightarrow> 'o"
    and put :: "'k \<Rightarrow> 'v \<Rightarrow> 's \<Rightarrow> 's"
    and del :: "'k \<Rightarrow> 'v \<Rightarrow> 's \<Rightarrow> 's"
  assumes entries_put: "entries (put k v s) = AList.update k v (entries s)"
    and entries_del: "entries (del k v s) = AList.delete k (entries s)"
    and count_put: "gm_count (counts (put k v s)) x =
        gm_count (counts s) x + (if x = owner v then 1 else 0)"
    and count_del: "gm_count (counts (del k v s)) x =
        (if x = owner v then max 0 (gm_count (counts s) x - 1) else gm_count (counts s) x)"
begin

definition counted :: "'s \<Rightarrow> bool" where
  "counted s \<longleftrightarrow> gm_ok (entries s) \<and>
     (\<forall>x. gm_count (counts s) x = int (owned owner (entries s) x))"

lemma counted_put:
  assumes "counted s" and "map_of (entries s) k = None"
  shows "counted (put k v s)" "entries (put k v s) = entries s @ [(k, v)]"
proof -
  show e: "entries (put k v s) = entries s @ [(k, v)]"
    using assms(2) by (simp add: entries_put length_update_fresh)
  have "k \<notin> fst ` set (entries s)"
    using assms(2) by (simp add: map_of_eq_None_iff)
  with assms(1) show "counted (put k v s)"
    by (auto simp: counted_def e count_put owned_Cons)
qed

lemma counted_replace:
  assumes "counted s" and "map_of (entries s) k = Some v" and "owner w = owner v"
    and "entries s' = AList.update k w (entries s)" and "counts s' = counts s"
  shows "counted s'"
proof -
  have same: "owned owner (AList.update k w m) x = owned owner m x" if "map_of m k = Some v" for m :: "('k, 'v) gomap" and x
    using that assms(3) by (induction m) (auto simp: owned_Cons split: if_splits)
  show ?thesis
    using assms same [OF assms(2)] by (simp add: counted_def distinct_update)
qed

lemma counted_del:
  assumes "counted s" and "map_of (entries s) k = Some v"
  shows "counted (del k v s)"
proof -
  have "gm_ok (AList.delete k (entries s))"
    using assms(1) by (simp add: counted_def distinct_delete)
  moreover have "gm_count (counts (del k v s)) x = int (owned owner (entries (del k v s)) x)" for x
    using assms owned_delete [of "entries s" k v owner x]
    by (auto simp: counted_def count_del entries_del)
  ultimately show ?thesis
    by (simp add: counted_def entries_del)
qed

text \<open>Deleting every entry that satisfies a condition while ranging over the map.\<close>

definition purge :: "('k \<Rightarrow> 'v \<Rightarrow> bool) \<Rightarrow> 's \<Rightarrow> 's" where
  "purge P s = fold (\<lambda>(k, v) s. if P k v then del k v s else s) (entries s) s"

lemma purge_prefix:
  assumes "counted s" and "entries s = seen @ todo" and "\<forall>(k, v)\<in>set seen. \<not> P k v"
  shows "counted (fold (\<lambda>(k, v) s. if P k v then del k v s else s) todo s) \<and>
    entries (fold (\<lambda>(k, v) s. if P k v then del k v s else s) todo s) =
      seen @ filter (\<lambda>(k, v). \<not> P k v) todo"
  using assms
proof (induction todo arbitrary: seen s)
  case Nil
  then show ?case by simp
next
  case (Cons e todo)
  obtain k v where e: "e = (k, v)" by (cases e)
  have ok: "gm_ok (entries s)" using Cons.prems(1) by (simp add: counted_def)
  show ?case
  proof (cases "P k v")
    case True
    have m: "map_of (entries s) k = Some v"
      using ok Cons.prems(2) e by (intro map_of_is_SomeI) auto
    have "k \<notin> fst ` set seen" "k \<notin> fst ` set todo"
      using ok Cons.prems(2) e by auto
    then have "filter (\<lambda>(k', _). k \<noteq> k') seen = seen" "filter (\<lambda>(k', _). k \<noteq> k') todo = todo"
      by (force intro!: filter_True)+
    then have "entries (del k v s) = seen @ todo"
      using Cons.prems(2) e by (simp add: entries_del AList.delete_eq)
    with True e Cons.IH [OF counted_del [OF Cons.prems(1) m]] Cons.prems(3) show ?thesis by simp
  next
    case False
    with e Cons.IH [OF Cons.prems(1), of "seen @ [e]"] Cons.prems(2,3) show ?thesis by simp
  qed
qed

lemma counted_purge:
  assumes "counted s"
  shows "counted (purge P s)" "entries (purge P s) = filter (\<lambda>(k, v). \<not> P k v) (entries s)"
  using purge_prefix [OF assms, of "[]"] by (simp_all add: purge_def)

lemma purge_keeps:
  assumes "\<And>k v s. f (del k v s) = f s"
  shows "f (purge P s) = f s"
proof -
  have "f (fold (\<lambda>(k, v) s. if P k v then del k v s else s) es s) = f s" for es
    by (induction es arbitrary: s) (auto simp: assms split: prod.splits)
  then show ?thesis by (simp add: purge_def)
qed

lemma owned_purge_le:
  assumes "counted s"
  shows "owned owner (entries (purge P s)) x \<le> owned owner (entries s) x"
    and "length (entries (purge P s)) \<le> length (entries s)"
  unfolding counted_purge(2) [OF assms] owned_def filter_filter
  using length_filter_le [of "\<lambda>(k, v). \<not> P k v" "filter (\<lambda>(k, v). owner v = x) (entries s)"]
  by (simp_all add: filter_filter conj_commute case_prod_unfold)

text \<open>A counter that stays within a limit bounds the number of entries of its owner.\<close>

lemma owned_bound:
  assumes "counted s" and "gm_count (counts s) x \<le> n"
  shows "int (owned owner (entries s) x) \<le> n"
  using assms by (simp add: counted_def)

end

end
