(* ===== verification/Matchmaking_Store.thy ===== *)
theory Matchmaking_Store
  imports Matchmaking Counted_Store
begin

text \<open>
  \<^verbatim>\<open>internal/online/lobby/matchmaking_store.go\<close>: the sessions that players advertise. A session
  belongs to the lobby connection that created it. The counters per owner are those of
  \<open>Counted_Store\<close>; the locale is interpreted on the store below. The mutex makes every operation
  atomic, so a run is a sequence of operations.
\<close>

definition DefaultMaxMatchmakingSessions :: int where "DefaultMaxMatchmakingSessions = 4096"
definition DefaultMaxMatchmakingSessionsPerOwner :: int where
  "DefaultMaxMatchmakingSessionsPerOwner = 4"
definition maxSessionIDAttempts :: nat where "maxSessionIDAttempts = 16"

record storedMatchmakingSession =
  sm_info :: MatchmakingInfo
  sm_owner :: u64
  sm_order :: u64

record MatchmakingStore =
  mms_maxSessions :: int
  mms_maxSessionsPerOwner :: int
  mms_nextOrder :: u64
  mms_byID :: "(MatchmakingSessionID, storedMatchmakingSession) gomap"
  mms_sessionsByOwner :: "(u64, int) gomap"

section \<open>Operations\<close>

definition NewMatchmakingStore :: "int \<Rightarrow> int \<Rightarrow> go_error + MatchmakingStore" where
  "NewMatchmakingStore maxSessions maxSessionsPerOwner =
     (let maxSessions = (if maxSessions = 0 then DefaultMaxMatchmakingSessions else maxSessions);
          maxSessionsPerOwner = (if maxSessionsPerOwner = 0 then DefaultMaxMatchmakingSessionsPerOwner
                                 else maxSessionsPerOwner)
      in if maxSessions < 1 \<or> maxSessions > 1000000
         then Inl (Message ''lobby: maximum matchmaking sessions must be between 1 and 1000000'')
         else if maxSessionsPerOwner < 1 \<or> maxSessionsPerOwner > 1000000
         then Inl (Message ''lobby: maximum matchmaking sessions per owner must be between 1 and 1000000'')
         else Inr \<lparr>mms_maxSessions = maxSessions, mms_maxSessionsPerOwner = maxSessionsPerOwner,
                   mms_nextOrder = 0, mms_byID = [], mms_sessionsByOwner = []\<rparr>)"

text \<open>\<^verbatim>\<open>allZero\<close> of \<^verbatim>\<open>lsg.go\<close>: the bytes combined with a bitwise or.\<close>

definition lobby_allZero :: "bytes \<Rightarrow> bool" where
  "lobby_allZero value \<longleftrightarrow> fold (\<lambda>current combined. combined OR current) value 0 = 0"

text \<open>\<^verbatim>\<open>cloneMatchmakingInfo\<close> copies the host address; a list is a value already.\<close>

definition cloneMatchmakingInfo :: "MatchmakingInfo \<Rightarrow> MatchmakingInfo" where
  "cloneMatchmakingInfo info = info\<lparr>mi_HostAddress := [] @ mi_HostAddress info\<rparr>"

definition validStoredMatchmakingInfo :: "MatchmakingInfo \<Rightarrow> bool" where
  "validStoredMatchmakingInfo info \<longleftrightarrow>
     length (mi_HostAddress info) \<le> maxHostAddressSize \<and> mi_MaxPlayers info \<noteq> 0 \<and>
     length (AppStringAt130 (mi_Attributes info)) \<le> maxMatchmakingTextBytes \<and>
     IndexByte (AppStringAt130 (mi_Attributes info)) 0 < 0"

text \<open>The assignments that enter a session.\<close>

definition mms_insert :: "MatchmakingSessionID \<Rightarrow> storedMatchmakingSession \<Rightarrow> MatchmakingStore \<Rightarrow> MatchmakingStore" where
  "mms_insert sessionID session store =
     store\<lparr>mms_byID := AList.update sessionID session (mms_byID store),
           mms_sessionsByOwner := AList.update (sm_owner session)
             (gm_count (mms_sessionsByOwner store) (sm_owner session) + 1) (mms_sessionsByOwner store)\<rparr>"

text \<open>The loop over the attempts to find an unused identifier; the first argument counts those left.\<close>

fun create_attempts ::
  "nat \<Rightarrow> u64 \<Rightarrow> MatchmakingInfo \<Rightarrow> (MatchmakingStore \<times> go_stream, MatchmakingInfo) go" where
  "create_attempts 0 owner requested st = (Inl (MatchmakingStoreErr ErrMatchmakingSessionID), st)"
| "create_attempts (Suc n) owner requested (store, random) =
     (case ReadFull matchmakingSessionIDSize random of
        (Inl e, random) \<Rightarrow> (Inl e, (store, random))
      | (Inr sessionID, random) \<Rightarrow>
          if lobby_allZero sessionID then create_attempts n owner requested (store, random)
          else if map_of (mms_byID store) sessionID \<noteq> None
          then create_attempts n owner requested (store, random)
          else let created = (cloneMatchmakingInfo requested)\<lparr>mi_SessionID := sessionID, mi_NumPlayers := 1\<rparr>;
                   store = store\<lparr>mms_nextOrder := mms_nextOrder store + 1\<rparr>;
                   store = mms_insert sessionID
                     \<lparr>sm_info = created, sm_owner = owner, sm_order = mms_nextOrder store\<rparr> store
               in (Inr (cloneMatchmakingInfo created), (store, random)))"

definition mms_Create ::
  "u64 \<Rightarrow> MatchmakingInfo \<Rightarrow> (MatchmakingStore \<times> go_stream option, MatchmakingInfo) go" where
  "mms_Create owner requested st =
     (case st of (store, random) \<Rightarrow>
        if owner = 0 \<or> random = None \<or> \<not> validStoredMatchmakingInfo requested
        then (Inl (MatchmakingErr ErrMalformedMatchmakingRequest), st)
        else if int (length (mms_byID store)) \<ge> mms_maxSessions store
        then (Inl (MatchmakingStoreErr ErrMatchmakingSessionLimit), st)
        else if gm_count (mms_sessionsByOwner store) owner \<ge> mms_maxSessionsPerOwner store
        then (Inl (MatchmakingStoreErr ErrMatchmakingOwnerSessionLimit), st)
        else (case create_attempts maxSessionIDAttempts owner requested (store, the random) of
                (r, (store, random)) \<Rightarrow> (r, (store, Some random))))"

definition mms_Update ::
  "u64 \<Rightarrow> MatchmakingSessionID \<Rightarrow> MatchmakingInfo \<Rightarrow> MatchmakingStore \<Rightarrow> go_error option \<times> MatchmakingStore" where
  "mms_Update owner sessionID requested store =
     (if owner = 0 \<or> \<not> validStoredMatchmakingInfo requested
      then (Some (MatchmakingErr ErrMalformedMatchmakingRequest), store)
      else (case map_of (mms_byID store) sessionID of
              None \<Rightarrow> (Some (MatchmakingStoreErr ErrMatchmakingSessionMiss), store)
            | Some existing \<Rightarrow>
                if sm_owner existing \<noteq> owner
                then (Some (MatchmakingStoreErr ErrMatchmakingSessionOwner), store)
                else let updated = (cloneMatchmakingInfo requested)\<lparr>mi_SessionID := sessionID,
                                     mi_NumPlayers := mi_NumPlayers (sm_info existing)\<rparr>
                     in (None, store\<lparr>mms_byID := AList.update sessionID (existing\<lparr>sm_info := updated\<rparr>)
                                        (mms_byID store)\<rparr>)))"

definition mms_deleteLocked ::
  "MatchmakingSessionID \<Rightarrow> storedMatchmakingSession \<Rightarrow> MatchmakingStore \<Rightarrow> MatchmakingStore" where
  "mms_deleteLocked sessionID session store =
     (let store = store\<lparr>mms_byID := AList.delete sessionID (mms_byID store)\<rparr>;
          remaining = gm_count (mms_sessionsByOwner store) (sm_owner session) - 1
      in if remaining \<le> 0
         then store\<lparr>mms_sessionsByOwner := AList.delete (sm_owner session) (mms_sessionsByOwner store)\<rparr>
         else store\<lparr>mms_sessionsByOwner :=
                AList.update (sm_owner session) remaining (mms_sessionsByOwner store)\<rparr>)"

definition mms_Delete ::
  "u64 \<Rightarrow> MatchmakingSessionID \<Rightarrow> MatchmakingStore \<Rightarrow> go_error option \<times> MatchmakingStore" where
  "mms_Delete owner sessionID store =
     (case map_of (mms_byID store) sessionID of
        None \<Rightarrow> (Some (MatchmakingStoreErr ErrMatchmakingSessionMiss), store)
      | Some existing \<Rightarrow>
          if sm_owner existing \<noteq> owner
          then (Some (MatchmakingStoreErr ErrMatchmakingSessionOwner), store)
          else (None, mms_deleteLocked sessionID existing store))"

definition mms_DeleteOwner :: "u64 \<Rightarrow> MatchmakingStore \<Rightarrow> MatchmakingStore" where
  "mms_DeleteOwner owner store =
     fold (\<lambda>(sessionID, session) store.
         if sm_owner session = owner then mms_deleteLocked sessionID session store else store)
       (mms_byID store) store"

definition matchesQuery :: "MatchmakingInfo \<Rightarrow> MatchmakingQuery \<Rightarrow> bool" where
  "matchesQuery info query \<longleftrightarrow>
     (let attributes = mi_Attributes info
      in if AppI32At15C attributes \<noteq> mq_Value query then False
         else if mq_Key query = matchmakingWildcardKey then True
         else AppU32At11C attributes = mq_Key query \<and> AppU32At158 attributes = mq_Key query)"

text \<open>\<^verbatim>\<open>sort.Slice\<close> is not stable; the orders it compares are distinct (\<open>mms_inv\<close> below).\<close>

definition mms_Find :: "MatchmakingQuery \<Rightarrow> u32 \<Rightarrow> u32 \<Rightarrow> MatchmakingStore \<Rightarrow> MatchmakingInfo list \<times> u32" where
  "mms_Find query offset maximum store =
     (let sessions = filter (\<lambda>session. matchesQuery (sm_info session) query) (map snd (mms_byID store));
          sessions = sort_key sm_order sessions;
          total = word_of_nat (length sessions)
      in if offset \<ge> total \<or> maximum = 0 then ([], total)
         else let stop = (ucast offset :: u64) + ucast maximum;
                  stop = (if stop > ucast total then ucast total else stop)
              in (map (\<lambda>session. cloneMatchmakingInfo (sm_info session))
                    (slice (unat offset) (unat stop) sessions), total))"

section \<open>The counters follow the sessions\<close>

lemma cloneMatchmakingInfo_id [simp]: "cloneMatchmakingInfo info = info"
  by (simp add: cloneMatchmakingInfo_def)

lemma mms_insert_fields [simp]:
  "mms_byID (mms_insert k v s) = AList.update k v (mms_byID s)"
  "mms_nextOrder (mms_insert k v s) = mms_nextOrder s"
  "mms_maxSessions (mms_insert k v s) = mms_maxSessions s"
  "mms_maxSessionsPerOwner (mms_insert k v s) = mms_maxSessionsPerOwner s"
  by (simp_all add: mms_insert_def)

lemma mms_deleteLocked_fields [simp]:
  "mms_byID (mms_deleteLocked k v s) = AList.delete k (mms_byID s)"
  "mms_nextOrder (mms_deleteLocked k v s) = mms_nextOrder s"
  "mms_maxSessions (mms_deleteLocked k v s) = mms_maxSessions s"
  "mms_maxSessionsPerOwner (mms_deleteLocked k v s) = mms_maxSessionsPerOwner s"
  by (simp_all add: mms_deleteLocked_def Let_def)

interpretation match_counts:
  counted_store mms_byID mms_sessionsByOwner sm_owner mms_insert mms_deleteLocked
  by unfold_locales (auto simp: mms_deleteLocked_def mms_insert_def Let_def)

lemma mms_DeleteOwner_eq: "mms_DeleteOwner owner s = match_counts.purge (\<lambda>_ v. sm_owner v = owner) s"
  by (simp add: mms_DeleteOwner_def match_counts.purge_def)

section \<open>The invariant\<close>

datatype match_op =
    MatchCreate u64 MatchmakingInfo "go_stream option"
  | MatchUpdate u64 MatchmakingSessionID MatchmakingInfo
  | MatchDelete u64 MatchmakingSessionID
  | MatchDeleteOwner u64

fun mms_step :: "match_op \<Rightarrow> MatchmakingStore \<Rightarrow> MatchmakingStore" where
  "mms_step (MatchCreate owner info random) s = fst (snd (mms_Create owner info (s, random)))"
| "mms_step (MatchUpdate owner sid info) s = snd (mms_Update owner sid info s)"
| "mms_step (MatchDelete owner sid) s = snd (mms_Delete owner sid s)"
| "mms_step (MatchDeleteOwner owner) s = mms_DeleteOwner owner s"

fun match_actor :: "match_op \<Rightarrow> u64" where
  "match_actor (MatchCreate owner info random) = owner"
| "match_actor (MatchUpdate owner sid info) = owner"
| "match_actor (MatchDelete owner sid) = owner"
| "match_actor (MatchDeleteOwner owner) = owner"

definition mms_run :: "match_op list \<Rightarrow> MatchmakingStore \<Rightarrow> MatchmakingStore" where
  "mms_run ops s = fold mms_step ops s"

text \<open>A stored session.\<close>

definition mms_entry_ok :: "MatchmakingStore \<Rightarrow> MatchmakingSessionID \<times> storedMatchmakingSession \<Rightarrow> bool" where
  "mms_entry_ok s = (\<lambda>(sid, v). stored_info_ok (sm_info v) \<and> mi_SessionID (sm_info v) = sid \<and>
     mi_MaxPlayers (sm_info v) \<noteq> 0 \<and> mi_NumPlayers (sm_info v) = 1 \<and> sm_owner v \<noteq> 0 \<and>
     sm_order v \<le> mms_nextOrder s)"

definition mms_orders :: "MatchmakingStore \<Rightarrow> u64 list" where
  "mms_orders s = map (\<lambda>e. sm_order (snd e)) (mms_byID s)"

definition mms_inv :: "MatchmakingStore \<Rightarrow> bool" where
  "mms_inv s \<longleftrightarrow> match_counts.counted s \<and> int (length (mms_byID s)) \<le> mms_maxSessions s \<and>
     (\<forall>x. gm_count (mms_sessionsByOwner s) x \<le> mms_maxSessionsPerOwner s) \<and>
     list_all (mms_entry_ok s) (mms_byID s) \<and> sorted_wrt (<) (mms_orders s)"

lemma validStored_attributes:
  "validStoredMatchmakingInfo i \<longleftrightarrow>
     length (mi_HostAddress i) \<le> 255 \<and> mi_MaxPlayers i \<noteq> 0 \<and> attributes_ok (mi_Attributes i)"
  by (auto simp: validStoredMatchmakingInfo_def attributes_ok_def maxHostAddressSize_def
      maxMatchmakingTextBytes_def)

text \<open>A session of the store just made.\<close>

definition made_session :: "u64 \<Rightarrow> MatchmakingInfo \<Rightarrow> MatchmakingSessionID \<Rightarrow> MatchmakingStore \<Rightarrow> MatchmakingStore" where
  "made_session owner info sid s =
     mms_insert sid \<lparr>sm_info = info\<lparr>mi_SessionID := sid, mi_NumPlayers := 1\<rparr>, sm_owner = owner,
         sm_order = mms_nextOrder s + 1\<rparr>
       (s\<lparr>mms_nextOrder := mms_nextOrder s + 1\<rparr>)"

lemma create_attempts_result:
  "create_attempts n owner info (s, r) = (res, (s', r')) \<Longrightarrow>
   (\<exists>e. res = Inl e \<and> s' = s) \<or>
   (\<exists>sid. length sid = 8 \<and> map_of (mms_byID s) sid = None \<and> \<not> lobby_allZero sid \<and>
      res = Inr (info\<lparr>mi_SessionID := sid, mi_NumPlayers := 1\<rparr>) \<and> s' = made_session owner info sid s)"
proof (induction n arbitrary: r)
  case (Suc n)
  obtain x r1 where rd: "ReadFull matchmakingSessionIDSize r = (x, r1)" by (metis surj_pair)
  show ?case
  proof (cases x)
    case (Inl e)
    with Suc.prems rd show ?thesis by auto
  next
    case (Inr sid)
    with rd have len: "length sid = 8" by (simp add: ReadFull_eq_Inr matchmakingSessionIDSize_def)
    show ?thesis
    proof (cases "lobby_allZero sid \<or> map_of (mms_byID s) sid \<noteq> None")
      case True
      with Suc.prems rd Inr have "create_attempts n owner info (s, r1) = (res, (s', r'))"
        by (auto split: if_splits)
      then show ?thesis by (rule Suc.IH)
    next
      case False
      with Suc.prems rd Inr len show ?thesis by (auto simp: made_session_def Let_def)
    qed
  qed
qed auto

lemma made_session_fields [simp]:
  "mms_maxSessions (made_session owner info sid s) = mms_maxSessions s"
  "mms_maxSessionsPerOwner (made_session owner info sid s) = mms_maxSessionsPerOwner s"
  "mms_nextOrder (made_session owner info sid s) = mms_nextOrder s + 1"
  by (simp_all add: made_session_def)

text \<open>What one operation does to the entries.\<close>

lemma mms_step_cases:
  obtains (same) "mms_step op s = s"
  | (created) sid info where "length sid = 8" "map_of (mms_byID s) sid = None"
      "validStoredMatchmakingInfo info" "match_actor op \<noteq> 0"
      "int (length (mms_byID s)) < mms_maxSessions s"
      "gm_count (mms_sessionsByOwner s) (match_actor op) < mms_maxSessionsPerOwner s"
      "mms_step op s = made_session (match_actor op) info sid s"
  | (updated) sid v info where "map_of (mms_byID s) sid = Some v" "sm_owner v = match_actor op"
      "validStoredMatchmakingInfo info"
      "mms_step op s = s\<lparr>mms_byID := AList.update sid (v\<lparr>sm_info := info\<lparr>mi_SessionID := sid,
          mi_NumPlayers := mi_NumPlayers (sm_info v)\<rparr>\<rparr>) (mms_byID s)\<rparr>"
  | (deleted) sid v where "map_of (mms_byID s) sid = Some v" "sm_owner v = match_actor op"
      "mms_step op s = mms_deleteLocked sid v s"
  | (purged) "mms_step op s = mms_DeleteOwner (match_actor op) s"
proof (cases op)
  case (MatchCreate owner info random)
  show ?thesis
  proof (cases "owner = 0 \<or> random = None \<or> \<not> validStoredMatchmakingInfo info \<or>
      mms_maxSessions s \<le> int (length (mms_byID s)) \<or>
      mms_maxSessionsPerOwner s \<le> gm_count (mms_sessionsByOwner s) owner")
    case True
    then have "mms_step op s = s" by (auto simp: MatchCreate mms_Create_def)
    then show ?thesis by (rule same)
  next
    case False
    then obtain r where r: "random = Some r" by auto
    obtain res s1 r1 where c: "create_attempts maxSessionIDAttempts owner info (s, r) = (res, (s1, r1))"
      by (metis surj_pair)
    have step: "mms_step op s = s1" using False r c by (auto simp: MatchCreate mms_Create_def)
    from create_attempts_result [OF c] show ?thesis
    proof
      assume "\<exists>e. res = Inl e \<and> s1 = s"
      then show ?thesis using step same by auto
    next
      assume "\<exists>sid. length sid = 8 \<and> map_of (mms_byID s) sid = None \<and> \<not> lobby_allZero sid \<and>
        res = Inr (info\<lparr>mi_SessionID := sid, mi_NumPlayers := 1\<rparr>) \<and> s1 = made_session owner info sid s"
      then obtain sid where "length sid = 8" "map_of (mms_byID s) sid = None" "s1 = made_session owner info sid s"
        by blast
      then show ?thesis using step False by (intro created [of sid info]) (auto simp: MatchCreate)
    qed
  qed
next
  case (MatchUpdate owner sid info)
  show ?thesis
  proof (cases "\<exists>v. map_of (mms_byID s) sid = Some v \<and> sm_owner v = owner \<and> owner \<noteq> 0 \<and> validStoredMatchmakingInfo info")
    case True
    then obtain v where "map_of (mms_byID s) sid = Some v" "sm_owner v = owner" "owner \<noteq> 0" "validStoredMatchmakingInfo info"
      by blast
    then show ?thesis
      by (intro updated [of sid v info]) (auto simp: MatchUpdate mms_Update_def Let_def)
  next
    case False
    then have "mms_step op s = s" by (auto simp: MatchUpdate mms_Update_def split: option.splits)
    then show ?thesis by (rule same)
  qed
next
  case (MatchDelete owner sid)
  show ?thesis
  proof (cases "\<exists>v. map_of (mms_byID s) sid = Some v \<and> sm_owner v = owner")
    case True
    then obtain v where "map_of (mms_byID s) sid = Some v" "sm_owner v = owner"
      by blast
    then show ?thesis by (intro deleted [of sid v]) (auto simp: MatchDelete mms_Delete_def)
  next
    case False
    then have "mms_step op s = s" by (auto simp: MatchDelete mms_Delete_def split: option.splits)
    then show ?thesis by (rule same)
  qed
next
  case (MatchDeleteOwner owner)
  then show ?thesis by (intro purged) simp
qed

lemma mms_orders_below:
  "mms_inv s \<Longrightarrow> (sid, v) \<in> set (mms_byID s) \<Longrightarrow> mms_entry_ok s (sid, v)"
  by (auto simp: mms_inv_def list_all_iff)

lemma sorted_wrt_map_filter: "sorted_wrt R (map f xs) \<Longrightarrow> sorted_wrt R (map f (filter P xs))"
  by (induction xs) auto

lemma u64_Suc: "unat (w :: u64) + 1 < 2 ^ 64 \<Longrightarrow> unat (w + 1) = unat w + 1"
  using iffD1 [OF unat_add_lem, of w 1] by simp

lemma mms_inv_made:
  assumes i: "mms_inv s" and sid: "length sid = 8" "map_of (mms_byID s) sid = None"
    and v: "validStoredMatchmakingInfo info" "owner \<noteq> 0" and l: "int (length (mms_byID s)) < mms_maxSessions s"
    "gm_count (mms_sessionsByOwner s) owner < mms_maxSessionsPerOwner s" "unat (mms_nextOrder s) + 1 < 2 ^ 64"
  shows "mms_inv (made_session owner info sid s)"
proof -
  let ?n = "mms_nextOrder s + 1"
  let ?v = "\<lparr>sm_info = info\<lparr>mi_SessionID := sid, mi_NumPlayers := 1\<rparr>, sm_owner = owner, sm_order = ?n\<rparr>"
  let ?s = "made_session owner info sid s"
  have c: "match_counts.counted (s\<lparr>mms_nextOrder := ?n\<rparr>)"
    using i by (simp add: mms_inv_def match_counts.counted_def)
  note put = match_counts.counted_put [OF c, of sid ?v]
  have byID: "mms_byID ?s = mms_byID s @ [(sid, ?v)]"
    using put(2) sid(2) by (simp add: made_session_def)
  have n: "mms_nextOrder s < ?n" using u64_Suc [OF l(3)] by (simp add: word_less_nat_alt)
  have old: "mms_entry_ok s e \<Longrightarrow> mms_entry_ok ?s e" for e
    using n by (auto simp: mms_entry_ok_def made_session_def)
  have "mms_entry_ok ?s (sid, ?v)"
    using v sid by (simp add: mms_entry_ok_def made_session_def stored_info_ok_def validStored_attributes)
  moreover have "sorted_wrt (<) (mms_orders ?s)"
    using i n by (fastforce simp: mms_inv_def mms_orders_def byID sorted_wrt_append list_all_iff mms_entry_ok_def)
  moreover have "match_counts.counted ?s"
    using put(1) sid(2) by (simp add: made_session_def)
  moreover have "gm_count (mms_sessionsByOwner ?s) x \<le> mms_maxSessionsPerOwner s" for x
    using i l(2) match_counts.count_put [of sid ?v "s\<lparr>mms_nextOrder := ?n\<rparr>" x]
    by (auto simp: made_session_def mms_inv_def)
  ultimately show ?thesis
    using i l(1) old unfolding mms_inv_def by (simp add: byID list_all_iff)
qed

lemma length_filter_int: "int (length xs) \<le> n \<Longrightarrow> int (length (filter P xs)) \<le> n"
  by (rule order_trans [OF of_nat_mono [OF length_filter_le]])

lemma mms_inv_delete:
  assumes i: "mms_inv s" and m: "map_of (mms_byID s) sid = Some v"
  shows "mms_inv (mms_deleteLocked sid v s)"
proof -

  have "gm_count (mms_sessionsByOwner (mms_deleteLocked sid v s)) x \<le> mms_maxSessionsPerOwner s" for x
  proof -
    have "gm_count (mms_sessionsByOwner s) x \<le> mms_maxSessionsPerOwner s"
      using i by (simp add: mms_inv_def)
    moreover have "0 \<le> gm_count (mms_sessionsByOwner s) x"
      using i by (simp add: mms_inv_def match_counts.counted_def)
    ultimately show ?thesis by (auto simp: match_counts.count_del)
  qed
  moreover have "match_counts.counted (mms_deleteLocked sid v s)"
    using i m by (simp add: mms_inv_def match_counts.counted_del)
  moreover have "int (length (filter (\<lambda>e. fst e \<noteq> sid) (mms_byID s))) \<le> mms_maxSessions s"
    using i by (simp add: mms_inv_def length_filter_int)
  ultimately show ?thesis
    using i sorted_wrt_map_filter
    by (auto simp: mms_inv_def delete_filter list_all_iff mms_entry_ok_def mms_orders_def)
qed

lemma mms_inv_purge:
  assumes i: "mms_inv s"
  shows "mms_inv (mms_DeleteOwner owner s)"
    and "mms_byID (mms_DeleteOwner owner s) = filter (\<lambda>(sid, v). sm_owner v \<noteq> owner) (mms_byID s)"
    and "mms_nextOrder (mms_DeleteOwner owner s) = mms_nextOrder s"
    and "mms_maxSessions (mms_DeleteOwner owner s) = mms_maxSessions s"
    and "mms_maxSessionsPerOwner (mms_DeleteOwner owner s) = mms_maxSessionsPerOwner s"
proof -
  have c: "match_counts.counted s" using i by (simp add: mms_inv_def)
  let ?s = "mms_DeleteOwner owner s"
  show e: "mms_byID ?s = filter (\<lambda>(sid, v). sm_owner v \<noteq> owner) (mms_byID s)"
    using match_counts.counted_purge(2) [OF c] by (simp add: mms_DeleteOwner_eq)
  show k: "mms_nextOrder ?s = mms_nextOrder s" "mms_maxSessions ?s = mms_maxSessions s"
    "mms_maxSessionsPerOwner ?s = mms_maxSessionsPerOwner s"
    unfolding mms_DeleteOwner_eq by (rule match_counts.purge_keeps, simp)+
  have pc: "match_counts.counted ?s"
    using match_counts.counted_purge(1) [OF c] by (simp add: mms_DeleteOwner_eq)
  have "gm_count (mms_sessionsByOwner ?s) x \<le> mms_maxSessionsPerOwner s" for x
  proof -
    have "gm_count (mms_sessionsByOwner ?s) x \<le> gm_count (mms_sessionsByOwner s) x"
      using pc c match_counts.owned_purge_le(1) [OF c] by (simp add: match_counts.counted_def mms_DeleteOwner_eq)
    also have "\<dots> \<le> mms_maxSessionsPerOwner s" using i by (simp add: mms_inv_def)
    finally show ?thesis .
  qed
  moreover have "int (length (mms_byID ?s)) \<le> mms_maxSessions s"
    using i match_counts.owned_purge_le(2) [OF c, of "\<lambda>_ v. sm_owner v = owner"]
    by (simp add: mms_inv_def mms_DeleteOwner_eq)
  ultimately show "mms_inv ?s"
    using i pc sorted_wrt_map_filter unfolding mms_inv_def k
    by (auto simp: e list_all_iff mms_entry_ok_def mms_orders_def k)
qed

lemma mms_inv_replace:
  assumes i: "mms_inv s" and m: "map_of (mms_byID s) sid = Some v" and info: "validStoredMatchmakingInfo info"
    and s': "s' = s\<lparr>mms_byID := AList.update sid (v\<lparr>sm_info := info\<lparr>mi_SessionID := sid,
          mi_NumPlayers := mi_NumPlayers (sm_info v)\<rparr>\<rparr>) (mms_byID s)\<rparr>"
  shows "mms_inv s'"
proof -
  let ?w = "v\<lparr>sm_info := info\<lparr>mi_SessionID := sid, mi_NumPlayers := mi_NumPlayers (sm_info v)\<rparr>\<rparr>"
  have c: "match_counts.counted s'"
    using match_counts.counted_replace [of s sid v ?w s'] i m s' by (simp add: mms_inv_def)
  have v: "mms_entry_ok s (sid, v)" using i m by (auto intro: mms_orders_below dest: map_of_SomeD)
  have ok: "mms_entry_ok s' (sid, ?w)"
    using v info by (auto simp: mms_entry_ok_def s' stored_info_ok_def validStored_attributes)
  have keep: "mms_entry_ok s e \<Longrightarrow> mms_entry_ok s' e" for e by (simp add: mms_entry_ok_def s')
  have "list_all (mms_entry_ok s') (mms_byID s')"
    using ok keep i set_update_subset [of sid ?w "mms_byID s"] by (auto simp: s' list_all_iff mms_inv_def)
  moreover have "map (\<lambda>e. sm_order (snd e)) (AList.update sid ?w xs) = map (\<lambda>e. sm_order (snd e)) xs"
    if "map_of xs sid = Some v" for xs using that by (induction xs) (auto split: if_splits)
  then have "mms_orders s' = mms_orders s" using m by (simp add: mms_orders_def s')
  ultimately show ?thesis
    using i c m by (simp add: mms_inv_def s' length_update_old)
qed

lemma mms_inv_step:
  assumes i: "mms_inv s" and n: "unat (mms_nextOrder s) + 1 < 2 ^ 64"
  shows "mms_inv (mms_step op s)" and "mms_maxSessions (mms_step op s) = mms_maxSessions s"
    and "mms_maxSessionsPerOwner (mms_step op s) = mms_maxSessionsPerOwner s"
    and "unat (mms_nextOrder (mms_step op s)) \<le> unat (mms_nextOrder s) + 1"
proof -
  have "mms_inv (mms_step op s) \<and> mms_maxSessions (mms_step op s) = mms_maxSessions s \<and>
    mms_maxSessionsPerOwner (mms_step op s) = mms_maxSessionsPerOwner s \<and>
    unat (mms_nextOrder (mms_step op s)) \<le> unat (mms_nextOrder s) + 1"
  proof (rule mms_step_cases [of op s])
    assume "mms_step op s = s"
    with i show ?thesis by simp
  next
    fix sid info
    assume "length sid = 8" "map_of (mms_byID s) sid = None"
      "validStoredMatchmakingInfo info" "match_actor op \<noteq> 0"
      "int (length (mms_byID s)) < mms_maxSessions s"
      "gm_count (mms_sessionsByOwner s) (match_actor op) < mms_maxSessionsPerOwner s"
      and "mms_step op s = made_session (match_actor op) info sid s"
    with mms_inv_made [OF i, of sid info "match_actor op"] n show ?thesis by (simp add: u64_Suc)
  next
    fix sid v info
    assume m: "map_of (mms_byID s) sid = Some v" "validStoredMatchmakingInfo info"
      and "mms_step op s = s\<lparr>mms_byID := AList.update sid (v\<lparr>sm_info := info\<lparr>mi_SessionID := sid,
          mi_NumPlayers := mi_NumPlayers (sm_info v)\<rparr>\<rparr>) (mms_byID s)\<rparr>"
    with mms_inv_replace [OF i m this(3)] show ?thesis by simp
  next
    fix sid v
    assume "map_of (mms_byID s) sid = Some v" and "mms_step op s = mms_deleteLocked sid v s"
    with mms_inv_delete [OF i] show ?thesis by simp
  next
    assume "mms_step op s = mms_DeleteOwner (match_actor op) s"
    with mms_inv_purge [OF i] show ?thesis by simp
  qed
  then show "mms_inv (mms_step op s)" "mms_maxSessions (mms_step op s) = mms_maxSessions s"
    "mms_maxSessionsPerOwner (mms_step op s) = mms_maxSessionsPerOwner s"
    "unat (mms_nextOrder (mms_step op s)) \<le> unat (mms_nextOrder s) + 1" by blast+
qed

lemma mms_inv_run:
  assumes "mms_inv s" and "unat (mms_nextOrder s) + length ops < 2 ^ 64"
  shows "mms_inv (mms_run ops s) \<and> mms_maxSessions (mms_run ops s) = mms_maxSessions s \<and>
    mms_maxSessionsPerOwner (mms_run ops s) = mms_maxSessionsPerOwner s"
  using assms
proof (induction ops arbitrary: s)
  case (Cons op ops)
  then have n: "unat (mms_nextOrder s) + 1 < 2 ^ 64" by simp
  note step = mms_inv_step [OF Cons.prems(1) n, of op]
  from Cons.IH [OF step(1)] step Cons.prems(2) show ?case by (simp add: mms_run_def)
qed (simp add: mms_run_def)

lemma mms_inv_New: "NewMatchmakingStore n m = Inr s \<Longrightarrow> mms_inv s \<and> mms_nextOrder s = 0"
  by (auto simp: NewMatchmakingStore_def Let_def mms_inv_def match_counts.counted_def mms_orders_def
      DefaultMaxMatchmakingSessions_def DefaultMaxMatchmakingSessionsPerOwner_def split: if_splits)

lemma reachable_inv:
  assumes "NewMatchmakingStore n m = Inr s0" and "length ops < 2 ^ 64"
  shows "mms_inv (mms_run ops s0)" and "mms_maxSessions (mms_run ops s0) = mms_maxSessions s0"
    and "mms_maxSessionsPerOwner (mms_run ops s0) = mms_maxSessionsPerOwner s0"
  using mms_inv_run [of s0 ops] mms_inv_New [OF assms(1)] assms(2) by simp_all

section \<open>Searching\<close>

text \<open>The sessions a query matches, oldest first.\<close>

definition matching_sessions :: "MatchmakingQuery \<Rightarrow> MatchmakingStore \<Rightarrow> storedMatchmakingSession list" where
  "matching_sessions query s = filter (\<lambda>v. matchesQuery (sm_info v) query) (map snd (mms_byID s))"

lemma matching_sessions_sorted: "mms_inv s \<Longrightarrow> sorted_wrt (<) (map sm_order (matching_sessions q s))"
  by (auto simp: matching_sessions_def mms_inv_def mms_orders_def comp_def intro: sorted_wrt_map_filter)

lemma mms_Find_eq:
  assumes i: "mms_inv s" and m: "mms_maxSessions s \<le> 1000000"
  shows "mms_Find q off n s =
    (map sm_info (take (unat n) (drop (unat off) (matching_sessions q s))), word_of_nat (length (matching_sessions q s)))"
proof -
  let ?all = "matching_sessions q s"
  have "sorted (map sm_order ?all)"
    using matching_sessions_sorted [OF i, of q] by (auto intro: sorted_wrt_mono_rel [rotated])
  then have sort: "sort_key sm_order ?all = ?all" by (rule sort_key_id_if_sorted)
  have "int (length ?all) \<le> mms_maxSessions s"
    unfolding matching_sessions_def by (rule length_filter_int) (use i in \<open>simp add: mms_inv_def\<close>)
  with m have len: "length ?all \<le> 1000000" by simp
  then have total: "unat (word_of_nat (length ?all) :: u32) = length ?all" by simp
  show ?thesis
  proof (cases "length ?all \<le> unat off \<or> n = 0")
    case True
    then have "off \<ge> word_of_nat (length ?all) \<or> n = 0" by (simp add: word_le_nat_alt total)
    with True show ?thesis
      unfolding mms_Find_def Let_def matching_sessions_def [symmetric] sort by (auto simp: if_P)
  next
    case False
    then have no: "\<not> (off \<ge> word_of_nat (length ?all) \<or> n = 0)" by (simp add: word_le_nat_alt total)
    let ?upto = "(ucast off :: u64) + ucast n"
    have u: "unat (ucast w :: u64) = unat w" for w :: u32
      using unat_u32_bound [of w] by (simp add: unsigned_ucast_eq take_bit_nat_eq_self)
    have "unat ?upto = unat off + unat n"
      using unat_u32_bound [of off] unat_u32_bound [of n]
      by (subst iffD1 [OF unat_add_lem]) (simp_all add: u)
    then have "unat (if ?upto > ucast (word_of_nat (length ?all) :: u32) then ucast (word_of_nat (length ?all) :: u32) else ?upto) =
        min (unat off + unat n) (length ?all)"
      by (auto simp: word_less_nat_alt u total)
    moreover have "slice (unat off) (min (unat off + unat n) (length ?all)) ?all = take (unat n) (drop (unat off) ?all)"
      by (simp add: slice_def min_def)
    ultimately show ?thesis
      unfolding mms_Find_def Let_def matching_sessions_def [symmetric] sort if_not_P [OF no] by simp
  qed
qed

section \<open>Properties\<close>

text \<open>C20: after any sequence of operations the store is within its limits, in total and per owner, its
  counters are the numbers of sessions, and every session can be sent in a search reply: it holds
  its own identifier, one player, a nonzero maximum and fields within the sizes of the wire format.\<close>

theorem matchmaking_store_limits:
  assumes "NewMatchmakingStore n m = Inr s0" and "length ops < 2 ^ 64" and "s = mms_run ops s0"
  shows "gm_ok (mms_byID s) \<and> int (length (mms_byID s)) \<le> mms_maxSessions s0 \<and>
    gm_count (mms_sessionsByOwner s) owner =
      int (length (filter (\<lambda>(sid, v). sm_owner v = owner) (mms_byID s))) \<and>
    gm_count (mms_sessionsByOwner s) owner \<le> mms_maxSessionsPerOwner s0 \<and>
    (\<forall>(sid, v)\<in>set (mms_byID s). mi_SessionID (sm_info v) = sid \<and> mi_NumPlayers (sm_info v) = 1 \<and>
       mi_MaxPlayers (sm_info v) \<noteq> 0 \<and> stored_info_ok (sm_info v) \<and> sm_owner v \<noteq> 0)"
proof -
  have i: "mms_inv s" "mms_maxSessions s = mms_maxSessions s0" "mms_maxSessionsPerOwner s = mms_maxSessionsPerOwner s0"
    using reachable_inv [OF assms(1,2)] assms(3) by simp_all
  have "gm_count (mms_sessionsByOwner s) owner \<le> mms_maxSessionsPerOwner s"
    using i(1) by (simp add: mms_inv_def)
  moreover have "gm_count (mms_sessionsByOwner s) owner = int (owned sm_owner (mms_byID s) owner)" "gm_ok (mms_byID s)"
    using i(1) by (simp_all add: mms_inv_def match_counts.counted_def)
  ultimately show ?thesis
    using i by (auto simp: mms_inv_def owned_def list_all_iff mms_entry_ok_def)
qed

definition example_info :: MatchmakingInfo where
  "example_info = zero_info\<lparr>mi_MaxPlayers := 4\<rparr>"

theorem matchmaking_store_limits_witness:
  "\<exists>s0. NewMatchmakingStore 0 0 = Inr s0 \<and>
     gm_count (mms_sessionsByOwner (mms_run [MatchCreate 1 example_info (Some \<lparr>st_bytes = replicate 8 1, st_end = StreamEOF\<rparr>)] s0)) 1 \<le> 4"
proof -
  obtain s0 where s0: "NewMatchmakingStore 0 0 = Inr s0" and "mms_maxSessionsPerOwner s0 = 4"
    by (simp add: NewMatchmakingStore_def DefaultMaxMatchmakingSessions_def DefaultMaxMatchmakingSessionsPerOwner_def)
  then show ?thesis
    using matchmaking_store_limits [OF s0 _ refl, of "[MatchCreate 1 example_info (Some \<lparr>st_bytes = replicate 8 1, st_end = StreamEOF\<rparr>)]" 1]
    by auto
qed

text \<open>C13: sessions belong to the connection that created them. No operation of one connection, whether
  it succeeds or fails, changes or removes a session of another, and what a connection enters is
  its own.\<close>

theorem matchmaking_ownership:
  assumes "NewMatchmakingStore n m = Inr s0" and "length ops < 2 ^ 64" and "s = mms_run ops s0"
    and "owner \<noteq> match_actor op"
  shows "map_of (mms_byID s) sid = Some v \<and> sm_owner v = owner \<longleftrightarrow>
    map_of (mms_byID (mms_step op s)) sid = Some v \<and> sm_owner v = owner"
proof -
  have i: "mms_inv s" using reachable_inv(1) [OF assms(1,2)] assms(3) by simp
  show ?thesis
  proof (rule mms_step_cases [of op s])
    assume p: "mms_step op s = mms_DeleteOwner (match_actor op) s"
    have ok: "gm_ok (mms_byID s)" using i by (simp add: mms_inv_def match_counts.counted_def)
    then have "gm_ok (mms_byID (mms_step op s))"
      using mms_inv_purge(1) [OF i] p by (simp add: mms_inv_def match_counts.counted_def)
    then show ?thesis
      using ok assms(4) unfolding gm_in_set [OF ok, symmetric] gm_in_set [of "mms_byID (mms_step op s)", symmetric]
      by (auto simp: p mms_inv_purge(2) [OF i])
  qed (use assms(4) in \<open>auto simp: made_session_def split: if_splits\<close>)
qed

definition example_create :: match_op where
  "example_create = MatchCreate 5 example_info (Some \<lparr>st_bytes = replicate 8 1, st_end = StreamEOF\<rparr>)"

theorem matchmaking_ownership_witness:
  "\<exists>s0 v. NewMatchmakingStore 0 0 = Inr s0 \<and>
     map_of (mms_byID (mms_run [example_create] s0)) (replicate 8 1) = Some v \<and>
     map_of (mms_byID (mms_step (MatchDeleteOwner 4) (mms_run [example_create] s0))) (replicate 8 1) = Some v"
proof -
  obtain s0 where s0: "NewMatchmakingStore 0 0 = Inr s0" and f: "mms_maxSessionsPerOwner s0 = 4"
    "mms_maxSessions s0 = 4096" "mms_byID s0 = []" "mms_sessionsByOwner s0 = []"
    by (simp add: NewMatchmakingStore_def DefaultMaxMatchmakingSessions_def DefaultMaxMatchmakingSessionsPerOwner_def)
  have valid: "validStoredMatchmakingInfo example_info"
    by (simp add: validStored_attributes attributes_ok_def example_info_def zero_info_def zero_attributes_def)
  have z: "\<not> lobby_allZero (replicate 8 1)" by code_simp
  have rd: "ReadFull 8 \<lparr>st_bytes = replicate 8 1, st_end = StreamEOF\<rparr> = (Inr (replicate 8 1), \<lparr>st_bytes = [], st_end = StreamEOF\<rparr>)"
    by (simp add: ReadFull_def)
  have "create_attempts (Suc k) 5 example_info (s0, \<lparr>st_bytes = replicate 8 1, st_end = StreamEOF\<rparr>) =
      (Inr (example_info\<lparr>mi_SessionID := replicate 8 1, mi_NumPlayers := 1\<rparr>),
       (made_session 5 example_info (replicate 8 1) s0, \<lparr>st_bytes = [], st_end = StreamEOF\<rparr>))" for k
    using z f unfolding create_attempts.simps matchmakingSessionIDSize_def rd
    by (simp add: made_session_def Let_def)
  from this [of 15] have "mms_run [example_create] s0 = made_session 5 example_info (replicate 8 1) s0"
    using f valid by (simp add: mms_run_def example_create_def mms_Create_def maxSessionIDAttempts_def)
  then obtain v where "map_of (mms_byID (mms_run [example_create] s0)) (replicate 8 1) = Some v" "sm_owner v = 5"
    by (simp add: made_session_def Let_def)
  then show ?thesis
    using matchmaking_ownership [OF s0 _ refl, of "[example_create]" 5 "MatchDeleteOwner 4" "replicate 8 1" v] s0
    by auto
qed



end
