(* ===== verification/Std_Net.thy ===== *)
theory Std_Net
  imports Go_Prelude
begin

text \<open>
  The parts of packages net and net/netip the server uses: \<^verbatim>\<open>netip.Addr\<close> with its predicates, its
  text form and its parser, \<^verbatim>\<open>net.SplitHostPort\<close>, and the peers of a connection. Characters are
  written as byte values: 37 \<open>%\<close>, 46 \<open>.\<close>, 47 \<open>/\<close>, 48 to 57 the digits, 58 \<open>:\<close>, 91 \<open>[\<close>, 93 \<open>]\<close>.
\<close>

section \<open>Addresses\<close>

text \<open>The zero \<^verbatim>\<open>netip.Addr\<close>, an IPv4 address of four bytes, an IPv6 address of sixteen bytes with a
  zone.\<close>

datatype netip_addr = AddrInvalid | Addr4 bytes | Addr6 bytes gostring

definition AddrFromSlice :: "bytes \<Rightarrow> netip_addr option" where
  "AddrFromSlice ip =
     (if length ip = 4 then Some (Addr4 ip)
      else if length ip = 16 then Some (Addr6 ip [])
      else None)"

text \<open>The addresses package netip can make.\<close>

fun addr_wf :: "netip_addr \<Rightarrow> bool" where
  "addr_wf AddrInvalid = True"
| "addr_wf (Addr4 ip) = (length ip = 4)"
| "addr_wf (Addr6 ip zone) = (length ip = 16)"

lemma addr_wf_AddrFromSlice: "AddrFromSlice ip = Some a \<Longrightarrow> addr_wf a"
  by (auto simp: AddrFromSlice_def split: if_splits)

definition v4_mapped_prefix :: bytes where
  "v4_mapped_prefix = [0, 0, 0, 0, 0, 0, 0, 0, 0, 0, 255, 255]"

fun Is4In6 :: "netip_addr \<Rightarrow> bool" where
  "Is4In6 (Addr6 ip zone) = (take 12 ip = v4_mapped_prefix)"
| "Is4In6 _ = False"

fun Unmap :: "netip_addr \<Rightarrow> netip_addr" where
  "Unmap (Addr6 ip zone) = (if Is4In6 (Addr6 ip zone) then Addr4 (drop 12 ip) else Addr6 ip zone)"
| "Unmap a = a"

lemma addr_wf_Unmap: "addr_wf a \<Longrightarrow> addr_wf (Unmap a)"
  by (cases a) auto

definition addr_IsValid :: "netip_addr \<Rightarrow> bool" where
  "addr_IsValid a \<longleftrightarrow> a \<noteq> AddrInvalid"

fun addr_Is4 :: "netip_addr \<Rightarrow> bool" where
  "addr_Is4 (Addr4 ip) = True"
| "addr_Is4 _ = False"

fun addr_Is6 :: "netip_addr \<Rightarrow> bool" where
  "addr_Is6 (Addr6 ip zone) = True"
| "addr_Is6 _ = False"

definition addr_IsUnspecified :: "netip_addr \<Rightarrow> bool" where
  "addr_IsUnspecified a \<longleftrightarrow> a = Addr4 (replicate 4 0) \<or> a = Addr6 (replicate 16 0) []"

definition addr_IsLoopback :: "netip_addr \<Rightarrow> bool" where
  "addr_IsLoopback a =
     (case Unmap a of
        AddrInvalid \<Rightarrow> False
      | Addr4 ip \<Rightarrow> ip ! 0 = 127
      | Addr6 ip zone \<Rightarrow> ip = replicate 15 0 @ [1])"

definition addr_IsMulticast :: "netip_addr \<Rightarrow> bool" where
  "addr_IsMulticast a =
     (case Unmap a of
        AddrInvalid \<Rightarrow> False
      | Addr4 ip \<Rightarrow> ip ! 0 AND 0xf0 = 0xe0
      | Addr6 ip zone \<Rightarrow> ip ! 0 = 0xff)"

definition addr_IsLinkLocalUnicast :: "netip_addr \<Rightarrow> bool" where
  "addr_IsLinkLocalUnicast a =
     (case Unmap a of
        AddrInvalid \<Rightarrow> False
      | Addr4 ip \<Rightarrow> ip ! 0 = 169 \<and> ip ! 1 = 254
      | Addr6 ip zone \<Rightarrow> ip ! 0 = 0xfe \<and> ip ! 1 AND 0xc0 = 0x80)"

definition addr_IsGlobalUnicast :: "netip_addr \<Rightarrow> bool" where
  "addr_IsGlobalUnicast a \<longleftrightarrow>
     addr_IsValid a \<and>
     \<not> (a = Addr4 (replicate 4 0) \<or> a = Addr4 (replicate 4 255)) \<and>
     a \<noteq> Addr6 (replicate 16 0) [] \<and>
     \<not> addr_IsLoopback a \<and> \<not> addr_IsMulticast a \<and> \<not> addr_IsLinkLocalUnicast a"

section \<open>Text form\<close>

definition decimal_byte :: "byte \<Rightarrow> gostring" where
  "decimal_byte b =
     (let n = unat b; digit = (\<lambda>d. word_of_nat (48 + d))
      in if n < 10 then [digit n]
         else if n < 100 then [digit (n div 10), digit (n mod 10)]
         else [digit (n div 100), digit (n div 10 mod 10), digit (n mod 10)])"

definition string4 :: "bytes \<Rightarrow> gostring" where
  "string4 ip = decimal_byte (ip ! 0) @ [46] @ decimal_byte (ip ! 1) @ [46] @
     decimal_byte (ip ! 2) @ [46] @ decimal_byte (ip ! 3)"

definition hex_char :: "nat \<Rightarrow> byte" where
  "hex_char d = (if d < 10 then word_of_nat (48 + d) else word_of_nat (87 + d))"

text \<open>\<^verbatim>\<open>appendHex\<close>: a 16-bit group without leading zeros.\<close>

definition hex_group :: "nat \<Rightarrow> gostring" where
  "hex_group n =
     (if n \<ge> 0x1000 then [hex_char (n div 0x1000)] else []) @
     (if n \<ge> 0x100 then [hex_char (n div 0x100 mod 16)] else []) @
     (if n \<ge> 0x10 then [hex_char (n div 0x10 mod 16)] else []) @
     [hex_char (n mod 16)]"

definition v6_groups :: "bytes \<Rightarrow> nat list" where
  "v6_groups ip = map (\<lambda>i. unat (ip ! (2 * i)) * 256 + unat (ip ! (2 * i + 1))) [0..<8]"

text \<open>The run of zero groups that \<open>::\<close> replaces: the first of the longest, if it has two or more.
  As in the code \<open>(255, 255)\<close> stands for no run.\<close>

definition zero_run :: "nat list \<Rightarrow> nat \<times> nat" where
  "zero_run groups =
     fold (\<lambda>i (zeroStart, zeroEnd).
        let j = i + length (takeWhile (\<lambda>g. g = 0) (drop i groups)); l = j - i
        in if l \<ge> 2 \<and> l > zeroEnd - zeroStart then (i, j) else (zeroStart, zeroEnd))
      [0..<8] (255, 255)"

function groups_text :: "nat list \<Rightarrow> nat \<times> nat \<Rightarrow> nat \<Rightarrow> gostring" where
  "groups_text groups (zeroStart, zeroEnd) i =
     (if i \<ge> 8 then []
      else if i = zeroStart \<and> i < zeroEnd
      then [58, 58] @ (if zeroEnd \<ge> 8 then []
              else hex_group (groups ! zeroEnd) @ groups_text groups (zeroStart, zeroEnd) (zeroEnd + 1))
      else (if i > 0 then [58] else []) @ hex_group (groups ! i) @
           groups_text groups (zeroStart, zeroEnd) (i + 1))"
  by pat_completeness auto
termination
  by (relation "measure (\<lambda>(groups, (zeroStart, zeroEnd), i). 8 - i)") auto

declare groups_text.simps [simp del]

definition string6 :: "bytes \<Rightarrow> gostring \<Rightarrow> gostring" where
  "string6 ip zone =
     groups_text (v6_groups ip) (zero_run (v6_groups ip)) 0 @ (if zone = [] then [] else [37] @ zone)"

fun addr_String :: "netip_addr \<Rightarrow> gostring" where
  "addr_String AddrInvalid = ascii ''invalid IP''"
| "addr_String (Addr4 ip) = string4 ip"
| "addr_String (Addr6 ip zone) =
     (if Is4In6 (Addr6 ip zone)
      then ascii ''::ffff:'' @ string4 (drop 12 ip) @ (if zone = [] then [] else [37] @ zone)
      else string6 ip zone)"

text \<open>\<^verbatim>\<open>netip.PrefixFrom(address, 64).Masked().String()\<close> of an IPv6 address: the zone goes, the low
  eight bytes are cleared.\<close>

definition prefix64_String :: "bytes \<Rightarrow> gostring" where
  "prefix64_String ip = addr_String (Addr6 (take 8 ip @ replicate 8 0) []) @ ascii ''/64''"

section \<open>Parsing\<close>

fun parse_IPv4_fields :: "bytes \<Rightarrow> bytes \<Rightarrow> nat \<Rightarrow> nat \<Rightarrow> bytes option" where
  "parse_IPv4_fields [] fields val digLen =
     (if length fields < 3 then None else Some (fields @ [word_of_nat val]))"
| "parse_IPv4_fields (c # s) fields val digLen =
     (if 48 \<le> c \<and> c \<le> 57
      then if digLen = 1 \<and> val = 0 then None
           else let val' = val * 10 + (unat c - 48)
                in if val' > 255 then None else parse_IPv4_fields s fields val' (digLen + 1)
      else if c = 46
      then if digLen = 0 \<or> s = [] then None
           else if length fields = 3 then None
           else parse_IPv4_fields s (fields @ [word_of_nat val]) 0 0
      else None)"

definition hex_value :: "byte \<Rightarrow> nat option" where
  "hex_value c =
     (if 48 \<le> c \<and> c \<le> 57 then Some (unat c - 48)
      else if 97 \<le> c \<and> c \<le> 102 then Some (unat c - 87)
      else if 65 \<le> c \<and> c \<le> 70 then Some (unat c - 55)
      else None)"

text \<open>The hex digits at the front: how many there are and their value; \<open>None\<close> when there are too
  many.\<close>

fun parse_hex :: "bytes \<Rightarrow> nat \<Rightarrow> nat \<Rightarrow> (nat \<times> nat) option" where
  "parse_hex [] off acc = Some (off, acc)"
| "parse_hex (c # s) off acc =
     (case hex_value c of
        None \<Rightarrow> Some (off, acc)
      | Some d \<Rightarrow>
          let acc' = acc * 16 + d
          in if off > 3 \<or> acc' > 65535 then None else parse_hex s (off + 1) acc')"

function parse_IPv6_fields :: "bytes \<Rightarrow> nat option \<Rightarrow> bytes \<Rightarrow> (bytes \<times> nat option) option" where
  "parse_IPv6_fields s ellipsis ip =
     (if length ip \<ge> 16 then (if s = [] then Some (ip, ellipsis) else None)
      else case parse_hex s 0 0 of
             None \<Rightarrow> None
           | Some (off, acc) \<Rightarrow>
               if off = 0 then None
               else let r = drop off s
                    in if r \<noteq> [] \<and> hd r = 46
                       then if ellipsis = None \<and> length ip \<noteq> 12 then None
                            else if length ip + 4 > 16 then None
                            else (case parse_IPv4_fields s [] 0 0 of
                                    None \<Rightarrow> None
                                  | Some fields \<Rightarrow> Some (ip @ fields, ellipsis))
                       else let ip = ip @ [word_of_nat (acc div 256), word_of_nat (acc mod 256)]
                            in if r = [] then Some (ip, ellipsis)
                               else if hd r \<noteq> 58 then None
                               else if length r = 1 then None
                               else let s = tl r
                                    in if hd s = 58
                                       then if ellipsis \<noteq> None then None
                                            else if tl s = [] then Some (ip, Some (length ip))
                                            else parse_IPv6_fields (tl s) (Some (length ip)) ip
                                       else parse_IPv6_fields s ellipsis ip)"
  by pat_completeness auto
termination
  by (relation "measure (\<lambda>(s, ellipsis, ip). length s)")
    (simp_all only: wf_measure in_measure case_prod_conv, simp_all)

declare parse_IPv6_fields.simps [simp del]

definition expand_ellipsis :: "bytes \<Rightarrow> nat option \<Rightarrow> bytes option" where
  "expand_ellipsis ip ellipsis =
     (if length ip < 16
      then (case ellipsis of
              None \<Rightarrow> None
            | Some e \<Rightarrow> Some (take e ip @ replicate (16 - length ip) 0 @ drop e ip))
      else if ellipsis \<noteq> None then None else Some ip)"

definition parse_IPv6 :: "gostring \<Rightarrow> netip_addr option" where
  "parse_IPv6 text =
     (let i = IndexByte text 37;
          s = (if i < 0 then text else take (nat i) text);
          zone = (if i < 0 then [] else drop (nat i + 1) text)
      in if i \<ge> 0 \<and> zone = [] then None
         else if take 2 s = [58, 58] \<and> length s = 2 then Some (Addr6 (replicate 16 0) zone)
         else case (if take 2 s = [58, 58] then parse_IPv6_fields (drop 2 s) (Some 0) []
                    else parse_IPv6_fields s None []) of
                None \<Rightarrow> None
              | Some (ip, ellipsis) \<Rightarrow>
                  (case expand_ellipsis ip ellipsis of
                     None \<Rightarrow> None
                   | Some ip \<Rightarrow> Some (Addr6 ip zone)))"

text \<open>\<^verbatim>\<open>netip.ParseAddr\<close>: the first of the three characters decides.\<close>

definition ParseAddr :: "gostring \<Rightarrow> netip_addr option" where
  "ParseAddr s =
     (case dropWhile (\<lambda>c. c \<noteq> 46 \<and> c \<noteq> 58 \<and> c \<noteq> 37) s of
        [] \<Rightarrow> None
      | c # _ \<Rightarrow>
          if c = 46 then map_option Addr4 (parse_IPv4_fields s [] 0 0)
          else if c = 58 then parse_IPv6 s
          else None)"

text \<open>\<^verbatim>\<open>net.SplitHostPort\<close>, \<open>None\<close> for its errors.\<close>

definition LastIndexByte :: "bytes \<Rightarrow> byte \<Rightarrow> int" where
  "LastIndexByte s c =
     (let i = IndexByte (rev s) c in if i < 0 then -1 else int (length s) - 1 - i)"

definition SplitHostPort :: "gostring \<Rightarrow> (gostring \<times> gostring) option" where
  "SplitHostPort hostport =
     (let i = LastIndexByte hostport 58
      in if i < 0 then None
         else let port = drop (nat i + 1) hostport
              in if hostport ! 0 = 91
                 then let stop = IndexByte hostport 93
                      in if stop < 0 then None
                         else if stop + 1 \<noteq> i then None
                         else if 91 \<in> set (drop 1 hostport) then None
                         else if 93 \<in> set (drop (nat stop + 1) hostport) then None
                         else Some (slice 1 (nat stop) hostport, port)
                 else let host = take (nat i) hostport
                      in if 58 \<in> set host then None
                         else if 91 \<in> set hostport then None
                         else if 93 \<in> set hostport then None
                         else Some (host, port))"

section \<open>Peers\<close>

text \<open>
  What \<^verbatim>\<open>net.Conn.RemoteAddr\<close> may be: nil, a \<^verbatim>\<open>*net.TCPAddr\<close> with its IP slice, or another
  implementation, of which only \<^verbatim>\<open>Network()\<close> and \<^verbatim>\<open>String()\<close> are used.
\<close>

datatype net_addr =
    NilAddr
  | TCPAddr bytes
  | OtherAddr (addr_Network: gostring) (addr_text: gostring)

section \<open>The text of an IPv4 address determines it\<close>

lemma decimal_digit:
  assumes "d < 10"
  shows "(48 :: byte) \<le> word_of_nat (48 + d)" "word_of_nat (48 + d) \<le> (57 :: byte)"
    "unat (word_of_nat (48 + d) :: byte) = 48 + d"
proof -
  show u: "unat (word_of_nat (48 + d) :: byte) = 48 + d"
    using assms unfolding unat_of_nat by (intro mod_less) simp
  show "(48 :: byte) \<le> word_of_nat (48 + d)" "word_of_nat (48 + d) \<le> (57 :: byte)"
    using assms by (simp_all only: word_le_nat_alt u) simp_all
qed

lemma parse_decimal_digit:
  assumes "d < 10" and "\<not> (digLen = 1 \<and> val = 0)" and "val * 10 + d \<le> 255"
  shows "parse_IPv4_fields (word_of_nat (48 + d) # s) fields val digLen =
    parse_IPv4_fields s fields (val * 10 + d) (Suc digLen)"
  using assms decimal_digit [OF assms(1)] by (auto simp: Let_def simp del: of_nat_add)

lemma parse_decimal_byte:
  "parse_IPv4_fields (decimal_byte b @ s) fields 0 0 =
     parse_IPv4_fields s fields (unat b) (length (decimal_byte b))"
proof -
  define n where "n = unat b"
  have n: "n < 256" using unsigned_less [of b] by (simp add: n_def)
  define x y z where "x = n div 100" and "y = n div 10 mod 10" and "z = n mod 10"
  have d: "y < 10" "z < 10" "n = (n div 10) * 10 + z" by (simp_all add: y_def z_def)
  have "n div 10 div 10 = x" by (simp add: x_def div_mult2_eq [symmetric])
  then have x: "x < 10" "n div 10 = x * 10 + y" using n by (auto simp: y_def)
  consider (one) "n < 10" | (two) "10 \<le> n" "n < 100" | (three) "100 \<le> n"
    by linarith
  then show ?thesis
  proof cases
    case one
    then show ?thesis
      using parse_decimal_digit [of n 0 0 s fields] by (simp add: decimal_byte_def n_def Let_def)
  next
    case two
    then have y: "n div 10 = y" "y \<noteq> 0" by (auto simp: y_def)
    have "decimal_byte b = [word_of_nat (48 + y), word_of_nat (48 + z)]"
      using two y(1) by (simp add: decimal_byte_def n_def [symmetric] Let_def z_def)
    then show ?thesis
      using d y n parse_decimal_digit [of y 0 0 "word_of_nat (48 + z) # s" fields]
        parse_decimal_digit [of z "Suc 0" y s fields]
      by (simp add: n_def [symmetric] del: of_nat_add)
  next
    case three
    then have x0: "x \<noteq> 0" by (simp add: x_def)
    have "decimal_byte b = [word_of_nat (48 + x), word_of_nat (48 + y), word_of_nat (48 + z)]"
      using three by (simp add: decimal_byte_def n_def [symmetric] Let_def x_def y_def z_def)
    then show ?thesis
      using d x x0 n parse_decimal_digit [of x 0 0 "word_of_nat (48 + y) # word_of_nat (48 + z) # s" fields]
        parse_decimal_digit [of y "Suc 0" x "word_of_nat (48 + z) # s" fields]
        parse_decimal_digit [of z "Suc (Suc 0)" "x * 10 + y" s fields]
      by (simp add: n_def [symmetric] del: of_nat_add)
  qed
qed

lemma decimal_byte_digits:
  assumes "c \<in> set (decimal_byte b)"
  shows "48 \<le> c \<and> c \<le> 57"
proof -
  have "unat b < 256" using unsigned_less [of b] by simp
  then have "unat b div 100 < 10" by auto
  moreover have "c = word_of_nat (48 + unat b div 10) \<and> unat b < 100 \<or>
      c = word_of_nat (48 + unat b div 10 mod 10) \<or> c = word_of_nat (48 + unat b mod 10) \<or>
      c = word_of_nat (48 + unat b div 100) \<or> c = word_of_nat (48 + unat b) \<and> unat b < 10"
    using assms by (auto simp: decimal_byte_def Let_def simp del: of_nat_add split: if_splits)
  moreover have "unat b div 10 mod 10 < 10" "unat b mod 10 < 10" "unat b < 100 \<Longrightarrow> unat b div 10 < 10"
    by auto
  ultimately show ?thesis
    by (elim disjE conjE; simp only: decimal_digit simp_thms)
qed

lemma decimal_byte_Nil [simp]: "decimal_byte b \<noteq> []"
  by (simp add: decimal_byte_def Let_def)

lemma parse_string4:
  assumes "length ip = 4"
  shows "parse_IPv4_fields (string4 ip) [] 0 0 = Some ip"
proof -
  from assms obtain a b c d where ip: "ip = [a, b, c, d]"
    by (auto simp: numeral_eq_Suc length_Suc_conv)
  have "parse_IPv4_fields (decimal_byte d) fs 0 0 = parse_IPv4_fields [] fs (unat d) (length (decimal_byte d))" for fs
    using parse_decimal_byte [of d "[]" fs] by simp
  then show ?thesis
    by (simp add: ip string4_def parse_decimal_byte)
qed

lemma string4_inject:
  assumes "length ip = 4" and "length ip' = 4"
  shows "string4 ip = string4 ip' \<longleftrightarrow> ip = ip'"
  by (metis parse_string4 [OF assms(1)] parse_string4 [OF assms(2)] option.inject)

lemma ParseAddr_string4:
  assumes "length ip = 4"
  shows "ParseAddr (string4 ip) = Some (Addr4 ip)"
proof -
  have "c \<noteq> 46 \<and> c \<noteq> 58 \<and> c \<noteq> 37" if "c \<in> set (decimal_byte b)" for b c
    using decimal_byte_digits [OF that] by (auto simp: word_le_nat_alt)
  then have "dropWhile (\<lambda>c. c \<noteq> 46 \<and> c \<noteq> 58 \<and> c \<noteq> 37) (decimal_byte b @ 46 # s) = 46 # s" for b s
    by (simp add: dropWhile_append)
  then show ?thesis
    using parse_string4 [OF assms] by (simp add: ParseAddr_def string4_def)
qed

text \<open>No text of an IPv4 address is the text of a prefix.\<close>

lemma string4_no_slash: "47 \<notin> set (string4 ip)"
  using decimal_byte_digits [of 47] by (auto simp: string4_def word_le_nat_alt)

lemma prefix64_String_slash: "47 \<in> set (prefix64_String ip)"
  by (simp add: prefix64_String_def ascii_def)

end
