(* ===== verification/Lobby_Session.thy ===== *)
theory Lobby_Session
  imports Std_Net Counted_Store
begin

text \<open>
  \<^verbatim>\<open>internal/online/auth/lobby_session.go\<close>: the pending lobby sessions between the
  authentication server, which reserves one when it issues a ticket, and the lobby server, which
  consumes it once the client has proved that it holds the session key. A time is a number of
  nanoseconds; the mutex makes every operation atomic, so a run is a sequence of operations.
\<close>

definition BOZTitleID :: u32 where "BOZTitleID = 18436"
definition DefaultMaxLobbySessions :: int where "DefaultMaxLobbySessions = 4096"
definition DefaultMaxLobbySessionsPerAccount :: int where "DefaultMaxLobbySessionsPerAccount = 4"

record LobbySession =
  ls_TicketSeed :: u32
  ls_UserID :: u64
  ls_AccountHash :: u64
  ls_TitleID :: u32
  ls_SessionKey :: bytes
  ls_ExpiresAt :: int

record pendingLobbySession =
  pend_session :: LobbySession
  pend_peer :: gostring
  pend_token :: u64

record LobbySessionStore =
  lss_maxSessions :: int
  lss_maxSessionsPerAccount :: int
  lss_bySeed :: "(u32, pendingLobbySession) gomap"
  lss_sessionsByAccount :: "(u64, int) gomap"
  lss_nextToken :: u64

section \<open>Operations\<close>

definition NewLobbySessionStore :: "int \<Rightarrow> int \<Rightarrow> go_error + LobbySessionStore" where
  "NewLobbySessionStore maxSessions maxSessionsPerAccount =
     (let maxSessions = (if maxSessions = 0 then DefaultMaxLobbySessions else maxSessions);
          maxSessionsPerAccount =
            (if maxSessionsPerAccount = 0 then DefaultMaxLobbySessionsPerAccount
             else maxSessionsPerAccount)
      in if maxSessions < 1 \<or> maxSessions > 1000000
         then Inl (Message ''auth: maximum pending lobby sessions must be between 1 and 1000000'')
         else if maxSessionsPerAccount < 1 \<or> maxSessionsPerAccount > 1000000
         then Inl (Message ''auth: maximum pending lobby sessions per account must be between 1 and 1000000'')
         else Inr \<lparr>lss_maxSessions = maxSessions, lss_maxSessionsPerAccount = maxSessionsPerAccount,
                   lss_bySeed = [], lss_sessionsByAccount = [], lss_nextToken = 0\<rparr>)"

definition lobbyPeerIdentity :: "net_addr \<Rightarrow> go_error + gostring" where
  "lobbyPeerIdentity peer =
     (case peer of
        NilAddr \<Rightarrow> Inl (LobbySessionErr ErrInvalidLobbySession)
      | TCPAddr ip \<Rightarrow>
          (case AddrFromSlice ip of
             None \<Rightarrow> Inl (LobbySessionErr ErrInvalidLobbySession)
           | Some address \<Rightarrow>
               if \<not> addr_IsValid address then Inl (LobbySessionErr ErrInvalidLobbySession)
               else Inr (addr_String (Unmap address)))
      | OtherAddr network text \<Rightarrow>
          (case SplitHostPort text of
             Some (host, _) \<Rightarrow>
               (case ParseAddr host of
                  Some address \<Rightarrow> Inr (addr_String (Unmap address))
                | None \<Rightarrow> Inr host)
           | None \<Rightarrow>
               if network = [] \<or> text = [] then Inl (LobbySessionErr ErrInvalidLobbySession)
               else Inr (network @ [58] @ text)))"

definition lss_deleteLocked :: "u32 \<Rightarrow> pendingLobbySession \<Rightarrow> LobbySessionStore \<Rightarrow> LobbySessionStore" where
  "lss_deleteLocked seed pending store =
     (let store = store\<lparr>lss_bySeed := AList.delete seed (lss_bySeed store)\<rparr>;
          user = ls_UserID (pend_session pending);
          remaining = gm_count (lss_sessionsByAccount store) user - 1
      in if remaining \<le> 0
         then store\<lparr>lss_sessionsByAccount := AList.delete user (lss_sessionsByAccount store)\<rparr>
         else store\<lparr>lss_sessionsByAccount := AList.update user remaining (lss_sessionsByAccount store)\<rparr>)"

definition lss_expired :: "int \<Rightarrow> pendingLobbySession \<Rightarrow> bool" where
  "lss_expired now pending \<longleftrightarrow> \<not> ls_ExpiresAt (pend_session pending) > now"

definition lss_purgeExpiredLocked :: "int \<Rightarrow> LobbySessionStore \<Rightarrow> LobbySessionStore" where
  "lss_purgeExpiredLocked now store =
     fold (\<lambda>(seed, pending) store.
         if lss_expired now pending then lss_deleteLocked seed pending store else store)
       (lss_bySeed store) store"

text \<open>The two assignments that enter a session.\<close>

definition lss_insert :: "u32 \<Rightarrow> pendingLobbySession \<Rightarrow> LobbySessionStore \<Rightarrow> LobbySessionStore" where
  "lss_insert seed pending store =
     (let user = ls_UserID (pend_session pending)
      in store\<lparr>lss_bySeed := AList.update seed pending (lss_bySeed store),
               lss_sessionsByAccount :=
                 AList.update user (gm_count (lss_sessionsByAccount store) user + 1)
                   (lss_sessionsByAccount store)\<rparr>)"

definition next_token :: "u64 \<Rightarrow> u64" where
  "next_token t = (let t = t + 1 in if t = 0 then t + 1 else t)"

definition lss_Reserve :: "LobbySession \<Rightarrow> net_addr \<Rightarrow> int \<Rightarrow> (LobbySessionStore, u64) go" where
  "lss_Reserve session peer now store =
     (case lobbyPeerIdentity peer of
        Inl _ \<Rightarrow> (Inl (LobbySessionErr ErrInvalidLobbySession), store)
      | Inr peerID \<Rightarrow>
          if ls_UserID session = 0 \<or> ls_TitleID session \<noteq> BOZTitleID \<or> \<not> ls_ExpiresAt session > now
          then (Inl (LobbySessionErr ErrInvalidLobbySession), store)
          else let store = lss_purgeExpiredLocked now store in
            if map_of (lss_bySeed store) (ls_TicketSeed session) \<noteq> None
            then (Inl (LobbySessionErr ErrLobbySessionSeedCollision), store)
            else if gm_count (lss_sessionsByAccount store) (ls_UserID session) \<ge> lss_maxSessionsPerAccount store
            then (Inl (LobbySessionErr ErrLobbySessionAccountLimit), store)
            else if int (length (lss_bySeed store)) \<ge> lss_maxSessions store
            then (Inl (LobbySessionErr ErrLobbySessionLimit), store)
            else let token = next_token (lss_nextToken store);
                     store = store\<lparr>lss_nextToken := token\<rparr>
                 in (Inr token, lss_insert (ls_TicketSeed session)
                       \<lparr>pend_session = session, pend_peer = peerID, pend_token = token\<rparr> store))"

definition lss_Lookup ::
  "u32 \<Rightarrow> net_addr \<Rightarrow> int \<Rightarrow> LobbySessionStore \<Rightarrow> (LobbySession \<times> u64) option \<times> LobbySessionStore" where
  "lss_Lookup ticketSeed peer now store =
     (case lobbyPeerIdentity peer of
        Inl _ \<Rightarrow> (None, store)
      | Inr peerID \<Rightarrow>
          (case map_of (lss_bySeed store) ticketSeed of
             None \<Rightarrow> (None, store)
           | Some pending \<Rightarrow>
               if lss_expired now pending then (None, lss_deleteLocked ticketSeed pending store)
               else if pend_peer pending \<noteq> peerID then (None, store)
               else (Some (pend_session pending, pend_token pending), store)))"

definition lss_Consume ::
  "u32 \<Rightarrow> u64 \<Rightarrow> net_addr \<Rightarrow> int \<Rightarrow> LobbySessionStore \<Rightarrow> LobbySession option \<times> LobbySessionStore" where
  "lss_Consume ticketSeed token peer now store =
     (case lobbyPeerIdentity peer of
        Inl _ \<Rightarrow> (None, store)
      | Inr peerID \<Rightarrow>
          (case map_of (lss_bySeed store) ticketSeed of
             None \<Rightarrow> (None, store)
           | Some pending \<Rightarrow>
               if pend_token pending \<noteq> token then (None, store)
               else if lss_expired now pending then (None, lss_deleteLocked ticketSeed pending store)
               else if pend_peer pending \<noteq> peerID then (None, store)
               else (Some (pend_session pending), lss_deleteLocked ticketSeed pending store)))"

definition lss_Revoke :: "u32 \<Rightarrow> u64 \<Rightarrow> LobbySessionStore \<Rightarrow> LobbySessionStore" where
  "lss_Revoke ticketSeed token store =
     (case map_of (lss_bySeed store) ticketSeed of
        None \<Rightarrow> store
      | Some pending \<Rightarrow>
          if pend_token pending = token then lss_deleteLocked ticketSeed pending store else store)"

section \<open>The counters follow the entries\<close>

lemma lss_deleteLocked_fields [simp]:
  "lss_bySeed (lss_deleteLocked k v s) = AList.delete k (lss_bySeed s)"
  "lss_nextToken (lss_deleteLocked k v s) = lss_nextToken s"
  "lss_maxSessions (lss_deleteLocked k v s) = lss_maxSessions s"
  "lss_maxSessionsPerAccount (lss_deleteLocked k v s) = lss_maxSessionsPerAccount s"
  by (simp_all add: lss_deleteLocked_def Let_def)

lemma lss_insert_fields [simp]:
  "lss_bySeed (lss_insert k v s) = AList.update k v (lss_bySeed s)"
  "lss_nextToken (lss_insert k v s) = lss_nextToken s"
  "lss_maxSessions (lss_insert k v s) = lss_maxSessions s"
  "lss_maxSessionsPerAccount (lss_insert k v s) = lss_maxSessionsPerAccount s"
  by (simp_all add: lss_insert_def Let_def)

interpretation lobby_counts:
  counted_store lss_bySeed lss_sessionsByAccount "\<lambda>p. ls_UserID (pend_session p)" lss_insert
    lss_deleteLocked
  by unfold_locales (auto simp: lss_deleteLocked_def lss_insert_def Let_def)

lemma lss_purge_eq: "lss_purgeExpiredLocked now s = lobby_counts.purge (\<lambda>_. lss_expired now) s"
  by (simp add: lss_purgeExpiredLocked_def lobby_counts.purge_def)

section \<open>What one operation does\<close>

text \<open>The calls the two servers make, as operations on the store.\<close>

datatype lobby_op =
    OpReserve LobbySession net_addr int
  | OpLookup u32 net_addr int
  | OpConsume u32 u64 net_addr int
  | OpRevoke u32 u64

fun lss_step :: "lobby_op \<Rightarrow> LobbySessionStore \<Rightarrow> LobbySessionStore" where
  "lss_step (OpReserve session peer now) s = snd (lss_Reserve session peer now s)"
| "lss_step (OpLookup seed peer now) s = snd (lss_Lookup seed peer now s)"
| "lss_step (OpConsume seed token peer now) s = snd (lss_Consume seed token peer now s)"
| "lss_step (OpRevoke seed token) s = lss_Revoke seed token s"

definition lss_run :: "lobby_op list \<Rightarrow> LobbySessionStore \<Rightarrow> LobbySessionStore" where
  "lss_run ops s = fold lss_step ops s"

text \<open>An operation deletes present entries, or purges and then enters at most one fresh entry.\<close>

definition lss_fresh_entry :: "LobbySession \<Rightarrow> net_addr \<Rightarrow> int \<Rightarrow> u64 \<Rightarrow> pendingLobbySession \<Rightarrow> bool" where
  "lss_fresh_entry session peer now token p \<longleftrightarrow>
     p = \<lparr>pend_session = session, pend_peer = pend_peer p, pend_token = token\<rparr> \<and>
     lobbyPeerIdentity peer = Inr (pend_peer p) \<and> ls_UserID session \<noteq> 0 \<and>
     ls_TitleID session = BOZTitleID \<and> now < ls_ExpiresAt session"

lemma lss_Reserve_cases:
  assumes "lss_Reserve session peer now s = (res, s')"
  obtains (nothing) e where "res = Inl e" and "s' = s"
    | (purged) e where "res = Inl e" and "s' = lss_purgeExpiredLocked now s"
    | (entered) s1 token p where "s1 = lss_purgeExpiredLocked now s" and
        "token = next_token (lss_nextToken s1)" and "res = Inr token" and
        "lss_fresh_entry session peer now token p" and
        "map_of (lss_bySeed s1) (ls_TicketSeed session) = None" and
        "gm_count (lss_sessionsByAccount s1) (ls_UserID session) < lss_maxSessionsPerAccount s1" and
        "int (length (lss_bySeed s1)) < lss_maxSessions s1" and
        "s' = lss_insert (ls_TicketSeed session) p (s1\<lparr>lss_nextToken := token\<rparr>)"
proof (cases "lobbyPeerIdentity peer")
  case (Inl e)
  show thesis by (rule nothing) (use assms Inl in \<open>auto simp: lss_Reserve_def\<close>)
next
  case (Inr pid)
  show thesis
  proof (cases "ls_UserID session = 0 \<or> ls_TitleID session \<noteq> BOZTitleID \<or> \<not> ls_ExpiresAt session > now")
    case True
    show thesis by (rule nothing) (use assms Inr True in \<open>auto simp: lss_Reserve_def\<close>)
  next
    case valid: False
    let ?s1 = "lss_purgeExpiredLocked now s" and ?seed = "ls_TicketSeed session"
    let ?token = "next_token (lss_nextToken ?s1)"
    let ?p = "\<lparr>pend_session = session, pend_peer = pid, pend_token = ?token\<rparr>"
    let ?full = "int (length (lss_bySeed ?s1)) \<ge> lss_maxSessions ?s1"
    let ?many = "gm_count (lss_sessionsByAccount ?s1) (ls_UserID session) \<ge> lss_maxSessionsPerAccount ?s1"
    have r: "(res, s') = (if map_of (lss_bySeed ?s1) ?seed \<noteq> None
        then (Inl (LobbySessionErr ErrLobbySessionSeedCollision), ?s1)
        else if ?many then (Inl (LobbySessionErr ErrLobbySessionAccountLimit), ?s1)
        else if ?full then (Inl (LobbySessionErr ErrLobbySessionLimit), ?s1)
        else (Inr ?token, lss_insert ?seed ?p (?s1\<lparr>lss_nextToken := ?token\<rparr>)))"
      using assms [symmetric] Inr valid by (simp add: lss_Reserve_def Let_def)
    show thesis
    proof (cases "map_of (lss_bySeed ?s1) ?seed \<noteq> None \<or> ?many \<or> ?full")
      case True
      with r purged show thesis by (auto split: if_splits)
    next
      case False
      show thesis
        by (rule entered [of ?s1 ?token ?p]) (use r False Inr valid in \<open>auto simp: lss_fresh_entry_def\<close>)
    qed
  qed
qed

lemma lss_deleting_steps:
  assumes "\<nexists>session peer now. op = OpReserve session peer now"
  shows "lss_step op s = s \<or>
    (\<exists>k v. map_of (lss_bySeed s) k = Some v \<and> lss_step op s = lss_deleteLocked k v s)"
proof (cases op)
  case (OpLookup seed peer now)
  then show ?thesis by (auto simp: lss_Lookup_def split: sum.splits option.splits)
next
  case (OpConsume seed token peer now)
  then show ?thesis by (auto simp: lss_Consume_def split: sum.splits option.splits)
next
  case (OpRevoke seed token)
  then show ?thesis by (auto simp: lss_Revoke_def split: option.splits)
qed (use assms in auto)

lemma lss_step_cases:
  obtains (same) "lss_step op s = s"
    | (deleted) k v where "map_of (lss_bySeed s) k = Some v" and "lss_step op s = lss_deleteLocked k v s"
    | (purged) now where "lss_step op s = lss_purgeExpiredLocked now s"
    | (entered) session peer now s1 p where "op = OpReserve session peer now" and
        "s1 = lss_purgeExpiredLocked now s" and
        "lss_fresh_entry session peer now (next_token (lss_nextToken s1)) p" and
        "map_of (lss_bySeed s1) (ls_TicketSeed session) = None" and
        "gm_count (lss_sessionsByAccount s1) (ls_UserID session) < lss_maxSessionsPerAccount s1" and
        "int (length (lss_bySeed s1)) < lss_maxSessions s1" and
        "lss_step op s = lss_insert (ls_TicketSeed session) p
           (s1\<lparr>lss_nextToken := next_token (lss_nextToken s1)\<rparr>)"
proof (cases "\<exists>session peer now. op = OpReserve session peer now")
  case True
  then obtain session peer now where OpReserve: "op = OpReserve session peer now" by blast
  obtain res s' where r: "lss_Reserve session peer now s = (res, s')" by (metis surj_pair)
  have step: "lss_step op s = s'" using r OpReserve by simp
  show thesis
    by (rule lss_Reserve_cases [OF r]) (use step in \<open>auto intro: that(1,3) that(4) [OF OpReserve]\<close>)
next
  case False
  with lss_deleting_steps [of op s] that(1,2) show thesis by blast
qed

lemma lss_purge_fields [simp]:
  "lss_nextToken (lss_purgeExpiredLocked now s) = lss_nextToken s"
  "lss_maxSessions (lss_purgeExpiredLocked now s) = lss_maxSessions s"
  "lss_maxSessionsPerAccount (lss_purgeExpiredLocked now s) = lss_maxSessionsPerAccount s"
  by (simp_all add: lss_purge_eq lobby_counts.purge_keeps)

section \<open>The invariant\<close>

definition lss_inv :: "LobbySessionStore \<Rightarrow> bool" where
  "lss_inv s \<longleftrightarrow>
     lobby_counts.counted s \<and>
     int (length (lss_bySeed s)) \<le> lss_maxSessions s \<and>
     (\<forall>user. gm_count (lss_sessionsByAccount s) user \<le> lss_maxSessionsPerAccount s)"

lemma counted_set_token [simp]:
  "lobby_counts.counted (s\<lparr>lss_nextToken := t\<rparr>) = lobby_counts.counted s"
  by (simp add: lobby_counts.counted_def)

lemma lss_inv_delete:
  assumes "lss_inv s" and "map_of (lss_bySeed s) k = Some v"
  shows "lss_inv (lss_deleteLocked k v s)"
proof -
  have c: "gm_count (lss_sessionsByAccount s) (ls_UserID (pend_session v)) > 0"
    using assms owned_pos [OF assms(2), of "\<lambda>p. ls_UserID (pend_session p)"]
    by (simp add: lss_inv_def lobby_counts.counted_def)
  have "length (AList.delete k (lss_bySeed s)) \<le> length (lss_bySeed s)"
    by (rule length_delete_le)
  moreover have "gm_count (lss_sessionsByAccount (lss_deleteLocked k v s)) user \<le> lss_maxSessionsPerAccount s" for user
  proof -
    have "gm_count (lss_sessionsByAccount (lss_deleteLocked k v s)) user \<le> gm_count (lss_sessionsByAccount s) user"
      using c unfolding lobby_counts.count_del by auto
    with assms(1) show ?thesis by (meson lss_inv_def order_trans)
  qed
  ultimately show ?thesis
    using assms lobby_counts.counted_del by (auto simp: lss_inv_def)
qed

lemma lss_inv_purge:
  assumes "lss_inv s"
  shows "lss_inv (lss_purgeExpiredLocked now s)"
proof -
  have c: "lobby_counts.counted s" using assms by (simp add: lss_inv_def)
  have "lobby_counts.counted (lss_purgeExpiredLocked now s)"
    unfolding lss_purge_eq by (rule lobby_counts.counted_purge(1) [OF c])
  moreover have "gm_count (lss_sessionsByAccount (lss_purgeExpiredLocked now s)) user \<le> gm_count (lss_sessionsByAccount s) user" for user
    using calculation c lobby_counts.owned_purge_le(1) [OF c, of "\<lambda>_. lss_expired now" user]
    by (simp add: lobby_counts.counted_def flip: lss_purge_eq)
  moreover have "length (lss_bySeed (lss_purgeExpiredLocked now s)) \<le> length (lss_bySeed s)"
    using lobby_counts.owned_purge_le(2) [OF c] by (simp add: lss_purge_eq)
  ultimately show ?thesis
    using assms by (auto simp: lss_inv_def intro: order_trans)
qed

lemma lss_inv_step:
  assumes "lss_inv s"
  shows "lss_inv (lss_step op s)"
proof (cases rule: lss_step_cases [of op s])
  case (entered session peer now s1 p)
  have i: "lss_inv s1" using lss_inv_purge [OF assms] entered(2) by simp
  have user: "ls_UserID (pend_session p) = ls_UserID session"
    using entered(3) by (simp add: lss_fresh_entry_def) (metis pendingLobbySession.select_convs(1))
  let ?s = "s1\<lparr>lss_nextToken := next_token (lss_nextToken s1)\<rparr>"
  let ?s' = "lss_insert (ls_TicketSeed session) p ?s"
  have "lobby_counts.counted ?s'" "lss_bySeed ?s' = lss_bySeed s1 @ [(ls_TicketSeed session, p)]"
    using lobby_counts.counted_put [of ?s "ls_TicketSeed session" p] i entered(4)
    by (simp_all add: lss_inv_def)
  moreover have "gm_count (lss_sessionsByAccount ?s') user \<le> lss_maxSessionsPerAccount s1" for user
    using i entered(5) unfolding lobby_counts.count_put by (auto simp: lss_inv_def user)
  ultimately show ?thesis
    using entered(6,7) by (simp add: lss_inv_def)
qed (use assms lss_inv_delete lss_inv_purge in auto)

lemma lss_inv_run: "lss_inv s \<Longrightarrow> lss_inv (lss_run ops s)"
  by (induction ops arbitrary: s) (auto simp: lss_run_def lss_inv_step)

lemma lss_inv_New: "NewLobbySessionStore n m = Inr s \<Longrightarrow> lss_inv s"
  by (auto simp: NewLobbySessionStore_def Let_def lss_inv_def lobby_counts.counted_def split: if_splits)

section \<open>Entries come from reservations, and tokens are not reused\<close>

lemma lss_purge_subset:
  assumes "lobby_counts.counted s"
  shows "set (lss_bySeed (lss_purgeExpiredLocked now s)) \<subseteq> set (lss_bySeed s)"
  unfolding lss_purge_eq lobby_counts.counted_purge(2) [OF assms] by auto

lemma lss_step_entry:
  assumes "lss_inv s" and "(k, p) \<in> set (lss_bySeed (lss_step op s))"
  obtains (old) "(k, p) \<in> set (lss_bySeed s)"
    | (new) session peer now where "op = OpReserve session peer now" and "k = ls_TicketSeed session" and
        "lss_fresh_entry session peer now (next_token (lss_nextToken s)) p"
proof -
  have c: "lobby_counts.counted s" using assms(1) by (simp add: lss_inv_def)
  from lss_step_cases [of op s] have "(k, p) \<in> set (lss_bySeed s) \<or> (\<exists>session peer now.
      op = OpReserve session peer now \<and> k = ls_TicketSeed session \<and>
      lss_fresh_entry session peer now (next_token (lss_nextToken s)) p)"
  proof cases
    case same
    with assms(2) show ?thesis by simp
  next
    case (deleted k' v)
    with assms(2) show ?thesis by (auto simp: AList.delete_eq)
  next
    case (purged now)
    with assms(2) lss_purge_subset [OF c] show ?thesis by auto
  next
    case (entered session peer now s1 q)
    have "set (lss_bySeed (lss_step op s)) = insert (ls_TicketSeed session, q) (set (lss_bySeed s1))"
      using entered(4,7) by (simp add: length_update_fresh)
    with assms(2) entered(1,2,3) lss_purge_subset [OF c, of now] show ?thesis by auto
  qed
  with that show thesis by blast
qed

lemma lss_step_token: "lss_nextToken (lss_step op s) = lss_nextToken s \<or>
   lss_nextToken (lss_step op s) = next_token (lss_nextToken s)"
  by (cases rule: lss_step_cases [of op s]) auto

lemma lss_step_fresh_token:
  assumes "(k, p) \<in> set (lss_bySeed (lss_step op s))" and "(k, p) \<notin> set (lss_bySeed s)" and "lss_inv s"
  shows "lss_nextToken (lss_step op s) = pend_token p \<and> pend_token p = next_token (lss_nextToken s)"
proof -
  have c: "lobby_counts.counted s" using assms(3) by (simp add: lss_inv_def)
  from lss_step_cases [of op s] show ?thesis
  proof cases
    case (entered session peer now s1 q)
    have "set (lss_bySeed (lss_step op s)) = insert (ls_TicketSeed session, q) (set (lss_bySeed s1))"
      using entered(4,7) by (simp add: length_update_fresh)
    then have "p = q" using assms(1,2) entered(2) lss_purge_subset [OF c, of now] by auto
    moreover have "pend_token q = next_token (lss_nextToken s1)"
      using entered(3) unfolding lss_fresh_entry_def by (metis pendingLobbySession.select_convs(3))
    ultimately show ?thesis using entered(2,7) by simp
  qed (use assms lss_purge_subset [OF c] in \<open>auto simp: AList.delete_eq\<close>)
qed

lemma unat_next_token: "unat t + 1 < 2 ^ 64 \<Longrightarrow> unat (next_token t) = unat t + 1"
proof -
  assume "unat t + 1 < 2 ^ 64"
  then have "unat (t + 1) = unat t + 1"
    using iffD1 [OF unat_add_lem, of t 1] by simp
  then show "unat (next_token t) = unat t + 1"
    by (auto simp: next_token_def Let_def)
qed

text \<open>A pair of a seed and a token that is gone stays gone.\<close>

definition lss_spent :: "u32 \<Rightarrow> u64 \<Rightarrow> LobbySessionStore \<Rightarrow> bool" where
  "lss_spent seed token s \<longleftrightarrow> unat token \<le> unat (lss_nextToken s) \<and>
     (\<forall>p. map_of (lss_bySeed s) seed = Some p \<longrightarrow> pend_token p \<noteq> token)"

lemma lss_spent_step:
  assumes "lss_inv s" and "lss_spent seed token s" and "unat (lss_nextToken s) + 1 < 2 ^ 64"
  shows "lss_spent seed token (lss_step op s)"
proof -
  have t: "unat (next_token (lss_nextToken s)) = unat (lss_nextToken s) + 1"
    using assms(3) by (rule unat_next_token)
  have "pend_token p \<noteq> token" if p: "map_of (lss_bySeed (lss_step op s)) seed = Some p" for p
  proof (cases "(seed, p) \<in> set (lss_bySeed s)")
    case True
    then have "map_of (lss_bySeed s) seed = Some p"
      using assms(1) by (simp add: lss_inv_def lobby_counts.counted_def map_of_is_SomeI)
    with assms(2) show ?thesis by (simp add: lss_spent_def)
  next
    case False
    with lss_step_fresh_token [OF map_of_SomeD [OF p] False assms(1)] t assms(2) show ?thesis
      by (auto simp: lss_spent_def)
  qed
  moreover have "unat token \<le> unat (lss_nextToken (lss_step op s))"
    using lss_step_token [of op s] t assms(2) by (auto simp: lss_spent_def)
  ultimately show ?thesis by (simp add: lss_spent_def)
qed

lemma lss_spent_run:
  "lss_inv s \<Longrightarrow> lss_spent seed token s \<Longrightarrow> unat (lss_nextToken s) + length ops < 2 ^ 64 \<Longrightarrow>
   lss_spent seed token (lss_run ops s)"
proof (induction ops arbitrary: s)
  case (Cons op ops)
  have "unat (lss_nextToken (lss_step op s)) \<le> unat (lss_nextToken s) + 1"
    using lss_step_token [of op s] unat_next_token [of "lss_nextToken s"] Cons.prems(3) by auto
  with Cons show ?case
    by (simp add: lss_run_def lss_inv_step lss_spent_step)
qed (simp add: lss_run_def)

lemma lss_run_nextToken: "unat (lss_nextToken (lss_run ops s)) \<le> unat (lss_nextToken s) + length ops"
proof (induction ops arbitrary: s)
  case (Cons op ops)
  have "unat (next_token t) \<le> unat t + 1" for t
    using unat_next_token [of t] unsigned_less [of t, where 'a = nat] unsigned_less [of "next_token t", where 'a = nat]
    by (cases "unat t + 1 < 2 ^ 64") auto
  then have "unat (lss_nextToken (lss_step op s)) \<le> unat (lss_nextToken s) + 1"
    using lss_step_token [of op s] by auto
  with Cons [of "lss_step op s"] show ?case by (simp add: lss_run_def)
qed (simp add: lss_run_def)

lemma lss_run_token_bound:
  assumes "lss_inv s" and "lss_nextToken s = 0" and "lss_bySeed s = []"
    and "(k, q) \<in> set (lss_bySeed (lss_run ops s))" and "length ops < 2 ^ 64"
  shows "unat (pend_token q) \<le> unat (lss_nextToken (lss_run ops s))"
  using assms(4,5)
proof (induction ops rule: rev_induct)
  case (snoc op ops)
  let ?r = "lss_run ops s"
  have r: "lss_run (ops @ [op]) s = lss_step op ?r" by (simp add: lss_run_def)
  have "unat (lss_nextToken ?r) + 1 < 2 ^ 64"
    using lss_run_nextToken [of ops s] assms(2) snoc.prems(2) by simp
  then have up: "unat (lss_nextToken ?r) \<le> unat (lss_nextToken (lss_step op ?r))"
    using unat_next_token lss_step_token [of op ?r] by auto
  show ?case
  proof (cases "(k, q) \<in> set (lss_bySeed ?r)")
    case True
    with snoc up r show ?thesis by auto
  next
    case False
    then show ?thesis
      using lss_step_fresh_token [OF _ False lss_inv_run [OF assms(1)]] snoc.prems(1) r
      by (metis order_refl)
  qed
qed (simp add: lss_run_def assms)

text \<open>Where an entry of a run comes from.\<close>

lemma lss_run_origin:
  assumes "lss_inv s" and "lss_bySeed s = []" and "(k, p) \<in> set (lss_bySeed (lss_run ops s))"
  shows "\<exists>session peer now token. OpReserve session peer now \<in> set ops \<and>
    k = ls_TicketSeed session \<and> lss_fresh_entry session peer now token p"
  using assms(3)
proof (induction ops rule: rev_induct)
  case Nil
  then show ?case using assms(2) by (simp add: lss_run_def)
next
  case (snoc op ops)
  have "lss_inv (lss_run ops s)" using assms(1) by (rule lss_inv_run)
  moreover have "(k, p) \<in> set (lss_bySeed (lss_step op (lss_run ops s)))"
    using snoc.prems by (simp add: lss_run_def)
  ultimately show ?case
    by (rule lss_step_entry) (use snoc.IH in auto)
qed

lemma lss_Consume_Some:
  assumes "lss_Consume seed token peer now s = (Some session, s')"
  obtains p where "map_of (lss_bySeed s) seed = Some p" and "pend_session p = session" and
    "pend_token p = token" and "now < ls_ExpiresAt session" and
    "lobbyPeerIdentity peer = Inr (pend_peer p)" and "s' = lss_deleteLocked seed p s"
  using assms
  by (auto simp: lss_Consume_def lss_expired_def split: sum.splits option.splits if_splits)

section \<open>Properties\<close>

text \<open>C19: whatever the two servers do, the counter of an account is the number of its pending
  sessions, no account has more than its limit and the store no more than its own, so neither
  stale counters nor pending tickets can lock an account out or grow without bound.\<close>

theorem lobby_store_limits:
  assumes "NewLobbySessionStore n m = Inr s0" and "s = lss_run ops s0"
  shows "gm_ok (lss_bySeed s) \<and> int (length (lss_bySeed s)) \<le> lss_maxSessions s0 \<and>
    gm_count (lss_sessionsByAccount s) user =
      int (length (filter (\<lambda>(seed, p). ls_UserID (pend_session p) = user) (lss_bySeed s))) \<and>
    gm_count (lss_sessionsByAccount s) user \<le> lss_maxSessionsPerAccount s0"
proof -
  have "lss_maxSessions (lss_step op s) = lss_maxSessions s \<and>
      lss_maxSessionsPerAccount (lss_step op s) = lss_maxSessionsPerAccount s" for op s
    by (cases rule: lss_step_cases [of op s]) auto
  then have "lss_maxSessions s = lss_maxSessions s0 \<and>
      lss_maxSessionsPerAccount s = lss_maxSessionsPerAccount s0"
    unfolding assms(2) lss_run_def by (induction ops arbitrary: s0) auto
  with lss_inv_run [OF lss_inv_New [OF assms(1)], of ops] show ?thesis
    unfolding assms(2) by (simp add: lss_inv_def lobby_counts.counted_def owned_def) metis
qed

theorem lobby_store_limits_witness:
  "\<exists>s0. NewLobbySessionStore 0 0 = Inr s0 \<and>
     gm_count (lss_sessionsByAccount (lss_run [OpRevoke 1 2] s0)) 7 \<le> 4"
proof -
  obtain s0 where s0: "NewLobbySessionStore 0 0 = Inr s0" and "lss_maxSessionsPerAccount s0 = 4"
    by (simp add: NewLobbySessionStore_def DefaultMaxLobbySessions_def
        DefaultMaxLobbySessionsPerAccount_def)
  then show ?thesis using lobby_store_limits [OF s0 refl, of "[OpRevoke 1 2]" 7] by simp
qed

text \<open>C7: a ticket opens the lobby at most once. After \<^verbatim>\<open>Consume\<close> has returned a session for a
  seed and a token, no later \<^verbatim>\<open>Consume\<close> with that seed and token returns anything, for any peer
  and time, whatever the servers do in between, reusing the seed included (in fewer than 2^64
  operations, after which token numbers would repeat).\<close>

theorem lobby_session_single_use:
  assumes "NewLobbySessionStore n m = Inr s0"
    and "lss_Consume seed token peer now (lss_run ops s0) = (Some session, s1)"
    and "length ops + length later < 2 ^ 64"
  shows "fst (lss_Consume seed token peer' now' (lss_run later s1)) = None"
proof -
  have i: "lss_inv s0" using assms(1) by (rule lss_inv_New)
  have zero: "lss_nextToken s0 = 0" "lss_bySeed s0 = []"
    using assms(1) by (auto simp: NewLobbySessionStore_def Let_def split: if_splits)
  from assms(2) obtain p where p: "map_of (lss_bySeed (lss_run ops s0)) seed = Some p"
    "pend_token p = token" "s1 = lss_deleteLocked seed p (lss_run ops s0)"
    by (rule lss_Consume_Some)
  have "lss_spent seed token s1"
    using lss_run_token_bound [OF i zero map_of_SomeD [OF p(1)]] assms(3) p by (simp add: lss_spent_def)
  moreover have "lss_inv s1" using lss_inv_delete [OF lss_inv_run [OF i] p(1)] p(3) by simp
  moreover have "unat (lss_nextToken s1) + length later < 2 ^ 64"
    using lss_run_nextToken [of ops s0] assms(3) p(3) zero by simp
  ultimately have "lss_spent seed token (lss_run later s1)" by (intro lss_spent_run)
  then show ?thesis
    by (auto simp: lss_Consume_def lss_spent_def split: sum.splits option.splits)
qed

text \<open>C18: \<^verbatim>\<open>Consume\<close> returns a session only if the authentication server reserved exactly that
  session, for a peer with the same identity as the one that asks now, and it has not expired;
  the entry is gone afterwards.\<close>

theorem lobby_session_origin:
  assumes "NewLobbySessionStore n m = Inr s0"
    and "lss_Consume seed token peer now (lss_run ops s0) = (Some session, s1)"
  shows "seed = ls_TicketSeed session \<and> now < ls_ExpiresAt session \<and> ls_UserID session \<noteq> 0 \<and>
    (\<exists>peer' now'. OpReserve session peer' now' \<in> set ops \<and>
       lobbyPeerIdentity peer' = lobbyPeerIdentity peer) \<and>
    map_of (lss_bySeed s1) seed = None"
proof -
  have zero: "lss_bySeed s0 = []"
    using assms(1) by (auto simp: NewLobbySessionStore_def Let_def split: if_splits)
  from assms(2) obtain p where p: "map_of (lss_bySeed (lss_run ops s0)) seed = Some p"
    "pend_session p = session" "now < ls_ExpiresAt session"
    "lobbyPeerIdentity peer = Inr (pend_peer p)" "s1 = lss_deleteLocked seed p (lss_run ops s0)"
    by (rule lss_Consume_Some)
  from lss_run_origin [OF lss_inv_New [OF assms(1)] zero map_of_SomeD [OF p(1)]]
  obtain session' peer' now' token' where o: "OpReserve session' peer' now' \<in> set ops"
    "seed = ls_TicketSeed session'" "lss_fresh_entry session' peer' now' token' p" by blast
  have "session' = session"
    using o(3) p(2) unfolding lss_fresh_entry_def by (metis pendingLobbySession.select_convs(1))
  with o p show ?thesis by (auto simp: lss_fresh_entry_def)
qed

definition example_session :: LobbySession where
  "example_session = \<lparr>ls_TicketSeed = 5, ls_UserID = 1, ls_AccountHash = 9, ls_TitleID = 18436,
     ls_SessionKey = replicate 24 3, ls_ExpiresAt = 100\<rparr>"

lemma example_consume:
  "\<exists>s0 s1. NewLobbySessionStore 0 0 = Inr s0 \<and>
     lss_Consume 5 1 (OtherAddr [112] [113]) 60
       (lss_run [OpReserve example_session (OtherAddr [112] [113]) 50] s0) = (Some example_session, s1)"
proof -
  have "SplitHostPort [113] = None" by code_simp
  then show ?thesis
    by (simp add: NewLobbySessionStore_def DefaultMaxLobbySessions_def Let_def
        DefaultMaxLobbySessionsPerAccount_def lss_Consume_def lss_run_def lss_Reserve_def
        lobbyPeerIdentity_def lss_purgeExpiredLocked_def example_session_def BOZTitleID_def
        lss_insert_def next_token_def lss_expired_def)
qed

text \<open>The session is reserved, consumed by its peer, and gone when the same peer comes again.\<close>

theorem lobby_session_single_use_witness:
  "\<exists>s0 s1. NewLobbySessionStore 0 0 = Inr s0 \<and>
     lss_Consume 5 1 (OtherAddr [112] [113]) 60 (lss_run [OpReserve example_session (OtherAddr [112] [113]) 50] s0) =
       (Some example_session, s1) \<and>
     fst (lss_Consume 5 1 (OtherAddr [112] [113]) 61 (lss_run [OpLookup 5 (OtherAddr [112] [113]) 60] s1)) = None"
proof -
  obtain s0 s1 where s: "NewLobbySessionStore 0 0 = Inr s0"
    "lss_Consume 5 1 (OtherAddr [112] [113]) 60 (lss_run [OpReserve example_session (OtherAddr [112] [113]) 50] s0) =
       (Some example_session, s1)"
    using example_consume by blast
  with lobby_session_single_use [OF s, of "[OpLookup 5 (OtherAddr [112] [113]) 60]"] show ?thesis by fastforce
qed

theorem lobby_session_origin_witness:
  "\<exists>s0 s1. NewLobbySessionStore 0 0 = Inr s0 \<and>
     lss_Consume 5 1 (OtherAddr [112] [113]) 60 (lss_run [OpReserve example_session (OtherAddr [112] [113]) 50] s0) =
       (Some example_session, s1) \<and>
     5 = ls_TicketSeed example_session \<and> 60 < ls_ExpiresAt example_session \<and> map_of (lss_bySeed s1) 5 = None"
proof -
  obtain s0 s1 where s: "NewLobbySessionStore 0 0 = Inr s0"
    "lss_Consume 5 1 (OtherAddr [112] [113]) 60 (lss_run [OpReserve example_session (OtherAddr [112] [113]) 50] s0) =
       (Some example_session, s1)"
    using example_consume by blast
  with lobby_session_origin [OF s] show ?thesis by blast
qed

end
