(* ===== verification/Auth_Messages.thy ===== *)
theory Auth_Messages
  imports Crypto Bit_Buffer Lobby_Session
begin

text \<open>
  The messages of the authentication server: \<^verbatim>\<open>internal/online/auth/create_account.go\<close> and
  \<^verbatim>\<open>account_for_mmp.go\<close>. A request is a clear byte 0, a message type and a bit stream; a parser is
  shown to accept exactly the packed encodings of the requests it returns. A ticket is the
  128-byte block that carries the session key to the client, encrypted under its password hash.
\<close>

section \<open>Constants and data\<close>

definition MessageCreateAccountRequest :: byte where "MessageCreateAccountRequest = 0x00"
definition MessageCreateAccountReply :: byte where "MessageCreateAccountReply = 0x01"
definition MessageAccountForMMPRequest :: byte where "MessageAccountForMMPRequest = 0x0a"
definition MessageAccountForMMPReply :: byte where "MessageAccountForMMPReply = 0x0b"

type_synonym Status = u32

definition StatusNoError :: Status where "StatusNoError = 700"
definition StatusBadAccount :: Status where "StatusBadAccount = 704"
definition StatusCreateUsernameExists :: Status where "StatusCreateUsernameExists = 707"
definition StatusCreateMaxAccountsExceeded :: Status where "StatusCreateMaxAccountsExceeded = 710"

definition createAccountBodySize :: nat where "createAccountBodySize = 116"
definition createAccountBlockSize :: u32 where "createAccountBlockSize = 96"
definition accountUsernameSize :: nat where "accountUsernameSize = 64"
definition accountPasswordSize :: nat where "accountPasswordSize = 24"
definition accountBlockSignature :: u32 where "accountBlockSignature = 0xefbdadde"
definition accountForMMPRequestBodySize :: nat where "accountForMMPRequestBodySize = 20"
definition authTicketSize :: nat where "authTicketSize = 128"
definition authTicketSignature :: u32 where "authTicketSignature = 0xefbdadde"
definition authTicketTypeUserToService :: byte where "authTicketTypeUserToService = 0"

definition createAccountKey :: bytes where
  "createAccountKey =
     [0xde, 0xad, 0xbe, 0xef, 0xde, 0xad, 0xbe, 0xef, 0xde, 0xad, 0xbe, 0xef, 0xde, 0xad, 0xbe, 0xef,
      0x00, 0x00, 0x00, 0x00, 0x00, 0x00, 0x00, 0x00]"

record CreateAccountRequest =
  car_IVSeed :: u32
  car_TitleID :: u32
  car_LicenseHash :: u64
  car_Username :: gostring
  car_PasswordHash :: bytes

record AccountForMMPRequest =
  amr_IVSeed :: u32
  amr_TitleID :: u32
  amr_AccountHash :: u64

record Account =
  acc_UserID :: u64
  acc_Username :: gostring
  acc_PasswordHash :: bytes
  acc_AccountHash :: u64

section \<open>Usernames\<close>

definition allZero :: "bytes \<Rightarrow> bool" where
  "allZero xs = list_all (\<lambda>b. b = 0) xs"

text \<open>\<^verbatim>\<open>utf8.Valid\<close>: sequences of one to four bytes, the second one restricted by the first.\<close>

definition utf8_lead :: "byte \<Rightarrow> (nat \<times> byte \<times> byte) option" where
  "utf8_lead b =
     (if b < 0x80 then Some (0, 0x80, 0xbf)
      else if 0xc2 \<le> b \<and> b \<le> 0xdf then Some (1, 0x80, 0xbf)
      else if b = 0xe0 then Some (2, 0xa0, 0xbf)
      else if b = 0xed then Some (2, 0x80, 0x9f)
      else if 0xe1 \<le> b \<and> b \<le> 0xef then Some (2, 0x80, 0xbf)
      else if b = 0xf0 then Some (3, 0x90, 0xbf)
      else if 0xf1 \<le> b \<and> b \<le> 0xf3 then Some (3, 0x80, 0xbf)
      else if b = 0xf4 then Some (3, 0x80, 0x8f)
      else None)"

function utf8_Valid :: "bytes \<Rightarrow> bool" where
  "utf8_Valid [] = True"
| "utf8_Valid (b # bs) =
     (case utf8_lead b of
        None \<Rightarrow> False
      | Some (n, lo, hi) \<Rightarrow>
          n \<le> length bs \<and>
          (n > 0 \<longrightarrow> lo \<le> bs ! 0 \<and> bs ! 0 \<le> hi) \<and>
          list_all (\<lambda>c. 0x80 \<le> c \<and> c \<le> 0xbf) (take (n - 1) (drop 1 bs)) \<and>
          utf8_Valid (drop n bs))"
  by pat_completeness auto
termination
  by (relation "measure length") auto

definition parsePaddedUsername :: "bytes \<Rightarrow> go_error + gostring" where
  "parsePaddedUsername field =
     (let i = IndexByte field 0;
          stop = (if i < 0 then length field else nat i)
      in if i \<ge> 0 \<and> \<not> allZero (drop stop field)
         then Inl (Message ''auth: username has nonzero bytes after its terminator'')
         else if stop = 0 \<or> \<not> utf8_Valid (take stop field)
         then Inl (CreateAccountErr ErrInvalidUsername)
         else if list_ex (\<lambda>c. c < 0x20 \<or> c > 0x7e) (take stop field)
         then Inl (CreateAccountErr ErrInvalidUsername)
         else Inr (take stop field))"

section \<open>create_account.go\<close>

definition malformed :: "string \<Rightarrow> go_error \<Rightarrow> go_error" where
  "malformed what e = Context what (CreateAccountErr ErrMalformedMessage)"

text \<open>The part of \<^verbatim>\<open>ParseCreateAccountBody\<close> after the bit stream: decryption and the account block.\<close>

definition parse_account_block :: "u32 \<Rightarrow> u32 \<Rightarrow> u64 \<Rightarrow> bytes \<Rightarrow> go_error + CreateAccountRequest" where
  "parse_account_block ivSeed titleID licenseHash encryptedBlock =
     (case Decrypt3DESCBC createAccountKey (DeriveIV ivSeed) encryptedBlock of
        Inl e \<Rightarrow> Inl (Context ''decrypt account block'' (CreateAccountErr ErrInvalidAccountBlock))
      | Inr plaintext \<Rightarrow>
          if LE_Uint32 (slice 0 4 plaintext) \<noteq> accountBlockSignature
          then Inl (CreateAccountErr ErrInvalidAccountBlock)
          else (case parsePaddedUsername (slice 4 (4 + accountUsernameSize) plaintext) of
                  Inl e \<Rightarrow> Inl e
                | Inr username \<Rightarrow>
                    if \<not> allZero (slice 92 96 plaintext)
                    then Inl (Message ''auth: account block has nonzero reserved bytes'')
                    else Inr \<lparr>car_IVSeed = ivSeed, car_TitleID = titleID,
                              car_LicenseHash = licenseHash, car_Username = username,
                              car_PasswordHash = copy_at 0 (slice 68 92 plaintext)
                                (replicate accountPasswordSize 0)\<rparr>))"

definition ParseCreateAccountBody :: "bytes \<Rightarrow> go_error + CreateAccountRequest" where
  "ParseCreateAccountBody body =
     (if length body \<noteq> createAccountBodySize
      then Inl (Context ''create-account body size'' (CreateAccountErr ErrMalformedMessage))
      else if body ! 0 \<noteq> 0 then Inl (CreateAccountErr ErrEncryptedCreateAccount)
      else if body ! 1 \<noteq> MessageCreateAccountRequest
      then Inl (Context ''create-account type'' (CreateAccountErr ErrUnexpectedMessageType))
      else fst (go_bind (go_wrap (malformed ''read type-check flag'') btr_ReadTypeCheckedFlag)
        (\<lambda>typeChecked.
           if \<not> typeChecked then go_fail (CreateAccountErr ErrTypeCheckingRequired)
           else go_bind (go_wrap (malformed ''read IV seed'') btr_ReadUint32) (\<lambda>ivSeed.
             go_bind (go_wrap (malformed ''read title ID'') btr_ReadUint32) (\<lambda>titleID.
               if titleID \<noteq> BOZTitleID
               then go_fail (Context ''title'' (CreateAccountErr ErrUnexpectedTitle))
               else go_bind (btr_SetTypeChecked False) (\<lambda>_.
                 go_bind (go_wrap (malformed ''read license hash'') btr_ReadUint64) (\<lambda>licenseHash.
                   if licenseHash \<noteq> 0
                   then go_fail (Context ''license'' (CreateAccountErr ErrUnsupportedLicenseHash))
                   else go_bind (go_wrap (malformed ''read account block'')
                                   (btr_ReadRaw createAccountBlockSize))
                     (\<lambda>encryptedBlock reader.
                        if btr_RemainingBits reader \<noteq> 5 \<or> body ! (length body - 1) AND 0xf8 \<noteq> 0
                        then (Inl (malformed ''padding'' (Message ''padding'')), reader)
                        else (parse_account_block ivSeed titleID licenseHash encryptedBlock, reader)))))))
        (NewBitReader (drop 2 body))))"

definition marshalStatusReplyBody :: "byte \<Rightarrow> Status \<Rightarrow> bytes" where
  "marshalStatusReplyBody messageType status =
     (let writer = NewBitWriter False;
          writer = btw_WriteUint8 messageType writer;
          writer = btw_SetTypeChecked True writer;
          writer = btw_WriteTypeCheckedFlag writer;
          writer = btw_WriteUint32 status writer
      in [0] @ btw_Bytes writer)"

definition MarshalCreateAccountReplyBody :: "Status \<Rightarrow> bytes" where
  "MarshalCreateAccountReplyBody status = marshalStatusReplyBody MessageCreateAccountReply status"

section \<open>account_for_mmp.go\<close>

definition ParseAccountForMMPBody :: "bytes \<Rightarrow> go_error + AccountForMMPRequest" where
  "ParseAccountForMMPBody body =
     (if length body \<noteq> accountForMMPRequestBodySize
      then Inl (Context ''AccountForMMP body size'' (CreateAccountErr ErrMalformedMessage))
      else if body ! 0 \<noteq> 0
      then Inl (Message ''auth: AccountForMMP request must be cleartext'')
      else if body ! 1 \<noteq> MessageAccountForMMPRequest
      then Inl (Context ''AccountForMMP type'' (CreateAccountErr ErrUnexpectedMessageType))
      else fst (go_bind (go_wrap (malformed ''read type-check flag'') btr_ReadTypeCheckedFlag)
        (\<lambda>typeChecked.
           if \<not> typeChecked then go_fail (CreateAccountErr ErrTypeCheckingRequired)
           else go_bind (go_wrap (malformed ''read IV seed'') btr_ReadUint32) (\<lambda>seed.
             go_bind (go_wrap (malformed ''read title ID'') btr_ReadUint32) (\<lambda>titleID.
               if titleID \<noteq> BOZTitleID
               then go_fail (Context ''title'' (CreateAccountErr ErrUnexpectedTitle))
               else go_bind (btr_SetTypeChecked False) (\<lambda>_.
                 go_bind (go_wrap (malformed ''read account hash'') btr_ReadUint64)
                   (\<lambda>accountHash reader.
                      if btr_RemainingBits reader \<noteq> 5 \<or> body ! (length body - 1) AND 0xf8 \<noteq> 0
                      then (Inl (malformed ''padding'' (Message ''padding'')), reader)
                      else (Inr \<lparr>amr_IVSeed = seed, amr_TitleID = titleID,
                                 amr_AccountHash = accountHash\<rparr>, reader))))))
        (NewBitReader (drop 2 body))))"

definition marshalAccountForMMPErrorBody :: "Status \<Rightarrow> bytes" where
  "marshalAccountForMMPErrorBody status = marshalStatusReplyBody MessageAccountForMMPReply status"

text \<open>\<^verbatim>\<open>time.Time.Unix\<close> of a time in nanoseconds.\<close>

definition time_Unix :: "int \<Rightarrow> int" where
  "time_Unix t = t div 1000000000"

definition ticket_plaintext :: "Account \<Rightarrow> bytes \<Rightarrow> int \<Rightarrow> int \<Rightarrow> bytes" where
  "ticket_plaintext account sessionKey issuedUnix expiresUnix =
     (let plaintext = replicate authTicketSize 0;
          plaintext = copy_at 0 (LE_PutUint32 authTicketSignature) plaintext;
          plaintext = plaintext[4 := authTicketTypeUserToService];
          plaintext = copy_at 5 (LE_PutUint32 BOZTitleID) plaintext;
          plaintext = copy_at 9 (LE_PutUint32 (word_of_int issuedUnix)) plaintext;
          plaintext = copy_at 13 (LE_PutUint32 (word_of_int expiresUnix)) plaintext;
          plaintext = copy_at 17 (LE_PutUint64 0) plaintext;
          plaintext = copy_at 25 (LE_PutUint64 (acc_UserID account)) plaintext;
          plaintext = copy_at 33 (take 64 (acc_Username account)) plaintext;
          plaintext = copy_at 97 (take 24 sessionKey) plaintext
      in plaintext)"

definition buildEncryptedAuthTicket ::
  "Account \<Rightarrow> u32 \<Rightarrow> bytes \<Rightarrow> int \<Rightarrow> int \<Rightarrow> go_error + bytes" where
  "buildEncryptedAuthTicket account ticketSeed sessionKey issuedAt expiresAt =
     (let issuedUnix = time_Unix issuedAt; expiresUnix = time_Unix expiresAt
      in if issuedUnix < 0 \<or> issuedUnix > int MaxUint32 \<or> expiresUnix < 0 \<or>
            expiresUnix > int MaxUint32 \<or> \<not> expiresAt > issuedAt
         then Inl (Message ''auth: ticket time is outside the legacy uint32 range'')
         else if length (acc_Username account) > accountUsernameSize
         then Inl (CreateAccountErr ErrInvalidUsername)
         else (case Encrypt3DESCBC (acc_PasswordHash account) (DeriveIV ticketSeed)
                      (ticket_plaintext account sessionKey issuedUnix expiresUnix) of
                 Inl e \<Rightarrow> Inl (Context ''auth: encrypt ticket'' e)
               | Inr ciphertext \<Rightarrow> Inr (copy_at 0 ciphertext (replicate authTicketSize 0))))"

definition marshalAccountForMMPSuccessBody ::
  "Account \<Rightarrow> u32 \<Rightarrow> bytes \<Rightarrow> int \<Rightarrow> int \<Rightarrow> go_error + bytes" where
  "marshalAccountForMMPSuccessBody account ticketSeed sessionKey issuedAt expiresAt =
     (case buildEncryptedAuthTicket account ticketSeed sessionKey issuedAt expiresAt of
        Inl e \<Rightarrow> Inl e
      | Inr ticket \<Rightarrow>
          let writer = NewBitWriter False;
              writer = btw_WriteUint8 MessageAccountForMMPReply writer;
              writer = btw_SetTypeChecked True writer;
              writer = btw_WriteTypeCheckedFlag writer;
              writer = btw_WriteUint32 StatusNoError writer;
              writer = btw_WriteUint32 ticketSeed writer;
              writer = btw_SetTypeChecked False writer;
              writer = btw_WriteRaw ticket writer
          in Inr ([0] @ btw_Bytes writer))"

section \<open>What the parsers accept\<close>

lemma LE_sizes: "unat createAccountBlockSize = 96" "createAccountBodySize = 116"
  "accountForMMPRequestBodySize = 20"
  by (simp_all add: createAccountBlockSize_def createAccountBodySize_def accountForMMPRequestBodySize_def)

text \<open>The fields of the two requests, without the check of the padding.\<close>

definition header_fields :: "(BitReader, u32 \<times> u32) go" where
  "header_fields =
     go_bind (go_wrap (malformed ''read type-check flag'') btr_ReadTypeCheckedFlag) (\<lambda>typeChecked.
       if \<not> typeChecked then go_fail (CreateAccountErr ErrTypeCheckingRequired)
       else go_bind (go_wrap (malformed ''read IV seed'') btr_ReadUint32) (\<lambda>seed.
         go_bind (go_wrap (malformed ''read title ID'') btr_ReadUint32) (\<lambda>titleID.
           if titleID \<noteq> BOZTitleID
           then go_fail (Context ''title'' (CreateAccountErr ErrUnexpectedTitle))
           else go_bind (btr_SetTypeChecked False) (\<lambda>_. go_return (seed, titleID)))))"

definition header_bits :: "u32 \<Rightarrow> bool list" where
  "header_bits seed = True # bits_uint32 True seed @ bits_uint32 True BOZTitleID"

lemma length_header_bits [simp]: "length (header_bits seed) = 75"
  by (simp add: header_bits_def)

lemma recog_header:
  "bit_reader.recog header_fields
     (\<lambda>tc v xs tc'. snd v = BOZTitleID \<and> xs = header_bits (fst v) \<and> tc' = False)"
proof -
  have "(\<exists>a. a) \<and> Ex Not" by blast
  then show ?thesis
    unfolding header_fields_def header_bits_def
    by - (rule bit_reader.recog_cong, (rule recog_bit_rules)+,
      simp add: if_bool_eq_conj cong: conj_cong split del: if_split,
      metis fst_conv snd_conv prod.collapse)
qed

text \<open>The check that ends both parsers.\<close>

definition padding_ok :: "bytes \<Rightarrow> BitReader \<Rightarrow> bool" where
  "padding_ok body r \<longleftrightarrow> \<not> (btr_RemainingBits r \<noteq> 5 \<or> body ! (length body - 1) AND 0xf8 \<noteq> 0)"

lemma padding_ok_pack:
  assumes "length body = n + 3" and "length xs = 8 * n + 3"
    and "prefix xs (bytes_bits (drop 2 body))"
    and "r' = btr_advance (length xs) (NewBitReader (drop 2 body))\<lparr>btr_typeChecked := tc\<rparr>"
  shows "padding_ok body r' \<longleftrightarrow> drop 2 body = pack xs"
proof -
  have d: "drop 2 body \<noteq> []" "length (drop 2 body) = n + 1" using assms(1) by auto
  then obtain d b where db: "drop 2 body = d @ [b]" by (metis append_butlast_last_id)
  have "b = body ! (length body - 1)"
    using db assms(1) d(2) by (metis (no_types) append_take_drop_id diff_Suc_1 last_conv_nth last_snoc
        append_is_Nil_conv last_appendR d(1))
  moreover have "length d = n" using db d(2) by simp
  moreover have "btr_RemainingBits r' = 5"
    using assms(2) d(2) by (simp add: assms(4) btr_RemainingBits_def NewBitReader_def btr_advance_def)
  ultimately show ?thesis
    using padding_is_zero [of xs d b] assms(2,3) db by (simp add: padding_ok_def)
qed

lemma ParseAccountForMMPBody_bind:
  "ParseAccountForMMPBody body =
     (if length body \<noteq> 20
      then Inl (Context ''AccountForMMP body size'' (CreateAccountErr ErrMalformedMessage))
      else if body ! 0 \<noteq> 0 then Inl (Message ''auth: AccountForMMP request must be cleartext'')
      else if body ! 1 \<noteq> 0x0a
      then Inl (Context ''AccountForMMP type'' (CreateAccountErr ErrUnexpectedMessageType))
      else fst (go_bind (go_bind header_fields (\<lambda>(seed, titleID).
             go_bind (go_wrap (malformed ''read account hash'') btr_ReadUint64)
               (\<lambda>accountHash. go_return (seed, titleID, accountHash))))
           (\<lambda>v reader.
              if padding_ok body reader
              then (Inr \<lparr>amr_IVSeed = fst v, amr_TitleID = fst (snd v), amr_AccountHash = snd (snd v)\<rparr>, reader)
              else (Inl (malformed ''padding'' (Message ''padding'')), reader))
           (NewBitReader (drop 2 body))))"
proof -
  have neg: "(if \<not> c then x else y) = (if c then y else x)" for c and x y :: 'z
    by simp
  show ?thesis
    unfolding ParseAccountForMMPBody_def header_fields_def go_bind_laws prod.case LE_sizes
      MessageAccountForMMPRequest_def padding_ok_def neg fst_conv snd_conv ..
qed


lemma two_byte_head:
  "length body = n + 2 \<Longrightarrow> body ! 0 = a \<and> body ! 1 = b \<longleftrightarrow> body = [a, b] @ drop 2 body"
  by (cases body; cases "tl body") auto

lemma btr_New: "btr_wf (NewBitReader data)" "btr_rest (NewBitReader data) = bytes_bits data"
  "btr_typeChecked (NewBitReader data) = False"
  by (simp_all add: btr_wf_def btr_rest_def NewBitReader_def)

text \<open>The end of both parsers, for any reader of the rd and any continuation.\<close>

lemma padded_parse:
  assumes "bit_reader.recog rd (\<lambda>tc v xs tc'. ok v \<and> xs = enc v \<and> tc' = False)"
    and "length body = n + 3" and "\<And>v. ok v \<Longrightarrow> length (enc v) = 8 * n + 3"
  shows "fst (go_bind rd (\<lambda>v reader. if padding_ok body reader then (res v, reader)
             else (Inl e, reader)) (NewBitReader (drop 2 body))) = Inr req \<longleftrightarrow>
    (\<exists>v. ok v \<and> drop 2 body = pack (enc v) \<and> res v = Inr req)"
proof -
  let ?r = "NewBitReader (drop 2 body)"
  have iff: "rd ?r = (Inr v, r') \<longleftrightarrow> ok v \<and> prefix (enc v) (bytes_bits (drop 2 body)) \<and>
      r' = btr_advance (length (enc v)) ?r\<lparr>btr_typeChecked := False\<rparr>" for v r'
    using bit_reader.recogD [OF assms(1) btr_New(1), of "drop 2 body" v r'] by (auto simp: btr_New)
  have pre: "prefix (enc v) (bytes_bits (pack (enc v)))" for v
    by (simp add: bytes_bits_pack)
  have "fst (go_bind rd (\<lambda>v reader. if padding_ok body reader then (res v, reader)
      else (Inl e, reader)) ?r) = Inr req \<longleftrightarrow>
      (\<exists>v r'. rd ?r = (Inr v, r') \<and> padding_ok body r' \<and> res v = Inr req)"
    by (auto simp: go_bind_def split: prod.splits sum.splits)
  also have "\<dots> \<longleftrightarrow> (\<exists>v. ok v \<and> drop 2 body = pack (enc v) \<and> res v = Inr req)"
    unfolding iff using padding_ok_pack [OF assms(2) assms(3) _ refl] pre by metis
  finally show ?thesis .
qed

lemma recog_mmp_fields:
  "bit_reader.recog (go_bind header_fields (\<lambda>(seed, titleID).
        go_bind (go_wrap w btr_ReadUint64) (\<lambda>accountHash. go_return (seed, titleID, accountHash))))
     (\<lambda>tc v xs tc'. fst (snd v) = BOZTitleID \<and>
        xs = header_bits (fst v) @ bits_uint64 False (snd (snd v)) \<and> tc' = False)"
  unfolding case_prod_beta
  by (rule bit_reader.recog_cong, (rule recog_header recog_bit_rules)+)
    (auto simp: split_paired_Ex)

lemma ParseAccountForMMPBody_eq:
  "ParseAccountForMMPBody body = Inr req \<longleftrightarrow>
     amr_TitleID req = BOZTitleID \<and>
     body = [0, 0x0a] @ pack (header_bits (amr_IVSeed req) @ bits_uint64 False (amr_AccountHash req))"
proof (cases "length body = 20")
  case False
  then show ?thesis by (auto simp: ParseAccountForMMPBody_bind)
next
  case True
  let ?rd = "go_bind header_fields (\<lambda>(seed, titleID).
        go_bind (go_wrap (malformed ''read account hash'') btr_ReadUint64)
          (\<lambda>accountHash. go_return (seed, titleID, accountHash)))"
  let ?res = "\<lambda>v. Inr \<lparr>amr_IVSeed = fst v, amr_TitleID = fst (snd v),
     amr_AccountHash = snd (snd v)\<rparr> :: go_error + AccountForMMPRequest"
  have "ParseAccountForMMPBody body = Inr req \<longleftrightarrow> (body ! 0 = 0 \<and> body ! 1 = 0x0a) \<and>
      fst (go_bind ?rd (\<lambda>v reader. if padding_ok body reader then (?res v, reader)
             else (Inl (malformed ''padding'' (Message ''padding'')), reader))
           (NewBitReader (drop 2 body))) = Inr req"
    using True unfolding ParseAccountForMMPBody_bind by simp
  also have "\<dots> \<longleftrightarrow> body = [0, 0x0a] @ drop 2 body \<and> (\<exists>v. fst (snd v) = BOZTitleID \<and>
      drop 2 body = pack (header_bits (fst v) @ bits_uint64 False (snd (snd v))) \<and> ?res v = Inr req)"
    using two_byte_head [of body 18 0 "0x0a"] True
      padded_parse [OF recog_mmp_fields, where body = body and n = 17 and res = ?res and req = req]
    by simp
  also have "\<dots> \<longleftrightarrow> amr_TitleID req = BOZTitleID \<and>
     body = [0, 0x0a] @ pack (header_bits (amr_IVSeed req) @ bits_uint64 False (amr_AccountHash req))"
    by (cases req) (auto simp: split_paired_Ex)
  finally show ?thesis .
qed

section \<open>Create-account requests\<close>

definition printable :: "gostring \<Rightarrow> bool" where
  "printable s \<longleftrightarrow> (\<forall>c\<in>set s. 0x20 \<le> c \<and> c \<le> 0x7e)"

lemma allZero_iff: "allZero xs \<longleftrightarrow> xs = replicate (length xs) 0"
  by (induction xs) (auto simp: allZero_def)

lemma utf8_Valid_ascii: "\<forall>c\<in>set s. c < 0x80 \<Longrightarrow> utf8_Valid s"
  by (induction s) (simp_all add: utf8_lead_def)

lemma printable_utf8: "printable s \<Longrightarrow> utf8_Valid s"
  by (rule utf8_Valid_ascii) (auto simp: printable_def word_le_nat_alt word_less_nat_alt)

lemma printable_no_nul: "printable s \<Longrightarrow> 0 \<notin> set s"
  by (auto simp: printable_def word_le_nat_alt)

lemma not_printable: "list_ex (\<lambda>c. c < 0x20 \<or> c > 0x7e) s \<longleftrightarrow> \<not> printable s"
  unfolding printable_def list_ex_iff not_le [symmetric] by blast

lemma first_zero_unique:
  assumes "s @ 0 # t = u @ 0 # v" and "0 \<notin> set s" and "0 \<notin> set u"
  shows "s = u \<and> t = (v :: bytes)"
proof -
  have "takeWhile (\<lambda>c. c \<noteq> 0) (xs @ 0 # ys) = xs" if "0 \<notin> set xs" for xs ys :: bytes
    using that by (induction xs) auto
  with assms have "s = u" by metis
  with assms(1) show ?thesis by simp
qed

lemma parsePaddedUsername_eq:
  "parsePaddedUsername field = Inr u \<longleftrightarrow>
     u \<noteq> [] \<and> printable u \<and> length u \<le> length field \<and> field = u @ replicate (length field - length u) 0"
proof -
  show ?thesis
  proof (cases "0 \<in> set field")
    case False
    then have "parsePaddedUsername field = Inr u \<longleftrightarrow> u = field \<and> field \<noteq> [] \<and> printable field"
      using printable_utf8 [of field] by (auto simp: parsePaddedUsername_def Let_def not_printable)
    moreover have "field = u @ replicate (length field - length u) 0 \<and> length u \<le> length field \<longleftrightarrow> u = field"
    proof
      assume eq: "field = u @ replicate (length field - length u) 0 \<and> length u \<le> length field"
      then have "length field - length u = 0"
        using False by (metis UnI2 in_set_replicate set_append)
      with eq show "u = field" by simp
    qed auto
    ultimately show ?thesis by metis
  next
    case True
    then obtain s t where f: "field = s @ 0 # t" and s: "0 \<notin> set s"
      by (meson split_list_first)
    then have "parsePaddedUsername field = Inr u \<longleftrightarrow> allZero (0 # t) \<and> u = s \<and> s \<noteq> [] \<and> printable s"
      using printable_utf8 [of s] by (auto simp: parsePaddedUsername_def Let_def not_printable)
    moreover have "field = u @ replicate (length field - length u) 0 \<longleftrightarrow> allZero (0 # t) \<and> u = s"
      if "printable u" "length u \<le> length field"
    proof
      assume eq: "field = u @ replicate (length field - length u) 0"
      define k where "k = length field - length u"
      have st: "s @ 0 # t = u @ replicate k 0" using eq f k_def by simp
      have "0 \<in> set (u @ replicate k 0)" unfolding st [symmetric] by simp
      then have "k \<noteq> 0" using printable_no_nul [OF that(1)] by auto
      then obtain j where "k = Suc j" by (metis not0_implies_Suc)
      with st first_zero_unique [of s t u "replicate j 0"] s printable_no_nul [OF that(1)]
      have "s = u \<and> t = replicate j 0" by simp
      then show "allZero (0 # t) \<and> u = s" by (simp add: allZero_iff)
    next
      assume "allZero (0 # t) \<and> u = s"
      then show "field = u @ replicate (length field - length u) 0"
        using f by (metis add_diff_cancel_left' allZero_iff length_append)
    qed
    ultimately show ?thesis using f by auto
  qed
qed

definition account_block :: "CreateAccountRequest \<Rightarrow> bytes" where
  "account_block req =
     LE_PutUint32 accountBlockSignature @
     car_Username req @ replicate (64 - length (car_Username req)) 0 @
     car_PasswordHash req @ [0, 0, 0, 0]"

definition valid_username :: "gostring \<Rightarrow> bool" where
  "valid_username u \<longleftrightarrow> u \<noteq> [] \<and> length u \<le> 64 \<and> printable u"

lemma length_createAccountKey: "length createAccountKey = 24"
  by (simp add: createAccountKey_def)

lemma parse_account_block_eq:
  assumes "length block = 96"
  shows "parse_account_block seed titleID licenseHash block = Inr req \<longleftrightarrow>
    valid_username (car_Username req) \<and> length (car_PasswordHash req) = 24 \<and>
    car_IVSeed req = seed \<and> car_TitleID req = titleID \<and> car_LicenseHash req = licenseHash \<and>
    Encrypt3DESCBC createAccountKey (DeriveIV seed) (account_block req) = Inr block"
proof -
  obtain p where p: "Decrypt3DESCBC createAccountKey (DeriveIV seed) block = Inr p"
    using assms length_createAccountKey by (simp add: Decrypt3DESCBC_eq)
  have "length p = 96"
    using length_Decrypt3DESCBC [OF _ p] assms by simp
  then have "length p = 4 + (64 + (24 + 4))" by simp
  then obtain sig name pw z where split: "p = sig @ name @ pw @ z" "length sig = 4" "length name = 64"
    "length pw = 24" "length z = 4"
    unfolding length_split by blast
  have enc: "Encrypt3DESCBC createAccountKey (DeriveIV seed) q = Inr block \<longleftrightarrow> q = p" for q
  proof
    assume "Encrypt3DESCBC createAccountKey (DeriveIV seed) q = Inr block"
    from Decrypt_Encrypt3DESCBC [OF _ this] p show "q = p" by simp
  qed (use Encrypt_Decrypt3DESCBC [OF _ p] in simp)
  have sl: "slice 0 4 p = sig" "slice 4 (4 + 64) p = name" "slice 68 92 p = pw" "slice 92 96 p = z"
    using split by (simp_all add: slice_def)
  have sig: "LE_Uint32 sig = accountBlockSignature \<longleftrightarrow> sig = LE_PutUint32 accountBlockSignature"
  proof
    have "sig = LE_PutUint32 (LE_Uint32 sig)" using split(2) by simp
    then show "LE_Uint32 sig = accountBlockSignature \<Longrightarrow> sig = LE_PutUint32 accountBlockSignature"
      by simp
  qed simp
  have z: "allZero z \<longleftrightarrow> z = [0, 0, 0, 0]"
    using split(5) by (simp add: allZero_iff numeral_eq_Suc)
  have block: "account_block r = p \<longleftrightarrow> sig = LE_PutUint32 accountBlockSignature \<and>
      name = car_Username r @ replicate (64 - length (car_Username r)) 0 \<and> pw = car_PasswordHash r \<and>
      z = [0, 0, 0, 0]"
    if "length (car_Username r) \<le> 64" "length (car_PasswordHash r) = 24" for r
    using that split unfolding account_block_def split(1)
    by (subst append_eq_append_conv, simp, subst append_assoc [symmetric], subst append_eq_append_conv, simp)
      auto
  have pad: "copy_at 0 pw (replicate 24 0) = pw" using split(4) by (simp add: copy_at_def)
  have "parse_account_block seed titleID licenseHash block = Inr req \<longleftrightarrow>
      sig = LE_PutUint32 accountBlockSignature \<and> parsePaddedUsername name = Inr (car_Username req) \<and>
      z = [0, 0, 0, 0] \<and> car_IVSeed req = seed \<and> car_TitleID req = titleID \<and>
      car_LicenseHash req = licenseHash \<and> car_PasswordHash req = pw"
    unfolding parse_account_block_def p sum.case accountUsernameSize_def accountPasswordSize_def
      sl sig z pad
    by (cases req) (auto split: sum.splits)
  also have "\<dots> \<longleftrightarrow> valid_username (car_Username req) \<and> length (car_PasswordHash req) = 24 \<and>
    car_IVSeed req = seed \<and> car_TitleID req = titleID \<and> car_LicenseHash req = licenseHash \<and>
    account_block req = p"
    using block [of req] split(3,4) by (auto simp: parsePaddedUsername_eq valid_username_def)
  finally show ?thesis by (simp only: enc)
qed

definition create_fields :: "(BitReader, (u32 \<times> u32) \<times> u64 \<times> bytes) go" where
  "create_fields =
     go_bind header_fields (\<lambda>(seed, titleID).
       go_bind (go_wrap (malformed ''read license hash'') btr_ReadUint64) (\<lambda>licenseHash.
         if licenseHash \<noteq> 0
         then go_fail (Context ''license'' (CreateAccountErr ErrUnsupportedLicenseHash))
         else go_bind (go_wrap (malformed ''read account block'') (btr_ReadRaw createAccountBlockSize))
           (\<lambda>block. go_return ((seed, titleID), licenseHash, block))))"

definition create_bits :: "u32 \<Rightarrow> bytes \<Rightarrow> bool list" where
  "create_bits seed block = header_bits seed @ bits_uint64 False 0 @ bytes_bits block"

lemma recog_create_fields:
  "bit_reader.recog create_fields
     (\<lambda>tc v xs tc'. (snd (fst v) = BOZTitleID \<and> fst (snd v) = 0 \<and> length (snd (snd v)) = 96) \<and>
        xs = create_bits (fst (fst v)) (snd (snd v)) \<and> tc' = False)"
  unfolding create_fields_def case_prod_beta create_bits_def
  by (rule bit_reader.recog_cong, (rule recog_header recog_bit_rules)+)
    (simp add: if_bool_eq_conj LE_sizes split_paired_Ex cong: conj_cong split del: if_split,
      auto)

lemma ParseCreateAccountBody_bind:
  "ParseCreateAccountBody body =
     (if length body \<noteq> 116
      then Inl (Context ''create-account body size'' (CreateAccountErr ErrMalformedMessage))
      else if body ! 0 \<noteq> 0 then Inl (CreateAccountErr ErrEncryptedCreateAccount)
      else if body ! 1 \<noteq> 0
      then Inl (Context ''create-account type'' (CreateAccountErr ErrUnexpectedMessageType))
      else fst (go_bind create_fields
           (\<lambda>v reader.
              if padding_ok body reader
              then (parse_account_block (fst (fst v)) (snd (fst v)) (fst (snd v)) (snd (snd v)), reader)
              else (Inl (malformed ''padding'' (Message ''padding'')), reader))
           (NewBitReader (drop 2 body))))"
proof -
  have neg: "(if \<not> c then x else y) = (if c then y else x)" for c and x y :: 'z
    by simp
  show ?thesis
    unfolding ParseCreateAccountBody_def create_fields_def header_fields_def go_bind_laws prod.case
      LE_sizes MessageCreateAccountRequest_def padding_ok_def neg fst_conv snd_conv ..
qed

lemma ParseCreateAccountBody_eq:
  "ParseCreateAccountBody body = Inr req \<longleftrightarrow>
     (\<exists>block. length block = 96 \<and> body = [0, 0] @ pack (create_bits (car_IVSeed req) block) \<and>
        Encrypt3DESCBC createAccountKey (DeriveIV (car_IVSeed req)) (account_block req) = Inr block) \<and>
     valid_username (car_Username req) \<and> length (car_PasswordHash req) = 24 \<and>
     car_TitleID req = BOZTitleID \<and> car_LicenseHash req = 0"
proof (cases "length body = 116")
  case False
  then show ?thesis by (auto simp: ParseCreateAccountBody_bind create_bits_def)
next
  case True
  let ?res = "\<lambda>v :: (u32 \<times> u32) \<times> u64 \<times> bytes.
     parse_account_block (fst (fst v)) (snd (fst v)) (fst (snd v)) (snd (snd v))"
  note rd = padded_parse [OF recog_create_fields, where body = body and n = 113 and res = ?res and req = req]
  have "ParseCreateAccountBody body = Inr req \<longleftrightarrow> (body ! 0 = 0 \<and> body ! 1 = 0) \<and>
      (\<exists>seed block. length block = 96 \<and> drop 2 body = pack (create_bits seed block) \<and>
         parse_account_block seed BOZTitleID 0 block = Inr req)"
    using True rd unfolding ParseCreateAccountBody_bind
    by (auto simp: create_bits_def split_paired_Ex)
  also have "\<dots> \<longleftrightarrow> body = [0, 0] @ drop 2 body \<and>
      (\<exists>block. length block = 96 \<and> drop 2 body = pack (create_bits (car_IVSeed req) block) \<and>
         parse_account_block (car_IVSeed req) BOZTitleID 0 block = Inr req)"
    using two_byte_head [of body 114 0 0] True by (auto simp: parse_account_block_eq)
  finally show ?thesis by (auto simp: parse_account_block_eq)
qed

section \<open>Replies\<close>

lemma btw_Bytes_holds: "btw_holds w bits \<Longrightarrow> btw_Bytes w = pack bits"
  by (simp add: btw_holds_def btw_Bytes_def)

lemma marshalStatusReplyBody_eq:
  "marshalStatusReplyBody t status = [0] @ pack (bits_uint8 False t @ True # bits_uint32 True status)"
proof -
  note h = btw_write_holds(2) [OF btw_holds_New [of False], of t]
  note h = btw_write_holds(4) [OF btw_write_holds(5) [OF h, of True]]
  show ?thesis
    using btw_Bytes_holds [OF btw_write_holds(3) [OF h, of status]]
    unfolding marshalStatusReplyBody_def Let_def by simp
qed

text \<open>The 128 bytes of a ticket before encryption.\<close>

definition ticket_bytes :: "Account \<Rightarrow> bytes \<Rightarrow> int \<Rightarrow> int \<Rightarrow> bytes" where
  "ticket_bytes account sessionKey issued expires =
     LE_PutUint32 authTicketSignature @ [authTicketTypeUserToService] @ LE_PutUint32 BOZTitleID @
     LE_PutUint32 (word_of_int issued) @ LE_PutUint32 (word_of_int expires) @
     LE_PutUint64 0 @ LE_PutUint64 (acc_UserID account) @
     acc_Username account @ replicate (64 - length (acc_Username account)) 0 @
     sessionKey @ replicate 7 0"



lemma ticket_plaintext_eq:
  assumes "length (acc_Username account) \<le> 64" and "length sessionKey = 24"
  shows "ticket_plaintext account sessionKey issued expires = ticket_bytes account sessionKey issued expires"
proof -
  let ?z = "\<lambda>n. replicate n (0 :: byte)" and ?u = "acc_Username account"
  let ?sig = "LE_PutUint32 authTicketSignature" and ?t = "[authTicketTypeUserToService]"
  let ?title = "LE_PutUint32 BOZTitleID" and ?i = "LE_PutUint32 (word_of_int issued)"
  let ?e = "LE_PutUint32 (word_of_int expires)" and ?id = "LE_PutUint64 (acc_UserID account)"
  have z: "?z 128 = ?z 4 @ ?z 1 @ ?z 4 @ ?z 4 @ ?z 4 @ ?z 8 @ ?z 8 @ (?z (length ?u) @ ?z (64 - length ?u)) @ ?z 24 @ ?z 7"
    using assms(1) by (simp only: replicate_add [symmetric]) simp
  show ?thesis
    unfolding ticket_plaintext_def Let_def authTicketSize_def z ticket_bytes_def
    using assms
      copy_at_mid [of 0 "[]" ?sig "?z 4"]
      list_update_mid [of 4 ?sig 0 _ authTicketTypeUserToService]
      copy_at_mid [of 5 "?sig @ ?t" ?title "?z 4"]
      copy_at_mid [of 9 "?sig @ ?t @ ?title" ?i "?z 4"]
      copy_at_mid [of 13 "?sig @ ?t @ ?title @ ?i" ?e "?z 4"]
      copy_at_mid [of 17 "?sig @ ?t @ ?title @ ?i @ ?e" "LE_PutUint64 0" "?z 8"]
      copy_at_mid [of 25 "?sig @ ?t @ ?title @ ?i @ ?e @ LE_PutUint64 0" ?id "?z 8"]
      copy_at_mid [of 33 "?sig @ ?t @ ?title @ ?i @ ?e @ LE_PutUint64 0 @ ?id" ?u "?z (length ?u)"]
      copy_at_mid [of 97 "?sig @ ?t @ ?title @ ?i @ ?e @ LE_PutUint64 0 @ ?id @ ?u @ ?z (64 - length ?u)"
        sessionKey "?z 24" "?z 7"]
    by simp
qed

lemma btw_reply_holds:
  "btw_holds (btw_WriteTypeCheckedFlag (btw_SetTypeChecked True
      (btw_WriteUint8 t (NewBitWriter False)))) (bits_uint8 False t @ [True])"
proof -
  note h = btw_write_holds(2) [OF btw_holds_New [of False], of t]
  note h = btw_write_holds(4) [OF btw_write_holds(5) [OF h, of True]]
  then show ?thesis by simp
qed

lemma success_body_layout:
  assumes "marshalAccountForMMPSuccessBody account seed sessionKey issuedAt expiresAt = Inr body"
    and "length sessionKey = SessionKeySize"
  shows "\<exists>ticket. body = [0] @ pack (bits_uint8 False MessageAccountForMMPReply @ True #
       bits_uint32 True StatusNoError @ bits_uint32 True seed @ bytes_bits ticket) \<and>
     length ticket = authTicketSize \<and> length body = 140 \<and>
     Decrypt3DESCBC (acc_PasswordHash account) (DeriveIV seed) ticket =
       Inr (ticket_bytes account sessionKey (time_Unix issuedAt) (time_Unix expiresAt)) \<and>
     issuedAt < expiresAt \<and> 0 \<le> time_Unix issuedAt \<and> time_Unix expiresAt \<le> int MaxUint32"
proof -
  from assms(1) obtain ticket where t: "buildEncryptedAuthTicket account seed sessionKey issuedAt expiresAt = Inr ticket"
    by (auto simp: marshalAccountForMMPSuccessBody_def split: sum.splits)
  from t have u: "length (acc_Username account) \<le> 64" and times: "issuedAt < expiresAt"
    "0 \<le> time_Unix issuedAt" "time_Unix expiresAt \<le> int MaxUint32"
    by (auto simp: buildEncryptedAuthTicket_def Let_def accountUsernameSize_def split: if_splits)
  let ?p = "ticket_bytes account sessionKey (time_Unix issuedAt) (time_Unix expiresAt)"
  have p: "ticket_plaintext account sessionKey (time_Unix issuedAt) (time_Unix expiresAt) = ?p"
    using u assms(2) by (intro ticket_plaintext_eq) (simp_all add: SessionKeySize_def)
  have len: "length ?p = 128"
    using u assms(2) by (simp add: ticket_bytes_def SessionKeySize_def)
  from t obtain c where c: "Encrypt3DESCBC (acc_PasswordHash account) (DeriveIV seed) ?p = Inr c"
    and ct: "ticket = copy_at 0 c (replicate 128 0)"
    by (auto simp: buildEncryptedAuthTicket_def Let_def p authTicketSize_def split: if_splits sum.splits)
  have lc: "length c = 128" using length_Encrypt3DESCBC [OF _ c] len by simp
  then have ticket: "ticket = c" using ct by (simp add: copy_at_def)
  let ?bits = "bits_uint8 False MessageAccountForMMPReply @ True #
       bits_uint32 True StatusNoError @ bits_uint32 True seed @ bytes_bits ticket"
  note h = btw_write_holds(3) [OF btw_write_holds(3) [OF btw_reply_holds], of seed StatusNoError MessageAccountForMMPReply]
  have "body = [0] @ pack ?bits"
    using assms(1) btw_Bytes_holds [OF btw_write_holds(1) [OF btw_write_holds(5) [OF h, of False], of ticket]]
    unfolding marshalAccountForMMPSuccessBody_def t sum.case Let_def by simp
  moreover have "Decrypt3DESCBC (acc_PasswordHash account) (DeriveIV seed) c = Inr ?p"
    by (rule Decrypt_Encrypt3DESCBC [OF _ c]) simp
  ultimately show ?thesis
    using ticket lc times by (intro exI [of _ ticket]) (simp add: authTicketSize_def)
qed


section \<open>Properties\<close>

text \<open>C33: a create-account request is accepted exactly when it is the clear-text, type-checked
  encoding, zero padding included, of this game's title, license hash 0 and a block that is the
  triple-DES encryption of the signature, a printable name of 1 to 64 bytes and a 24-byte
  password hash; nothing else is accepted, and every such request is.\<close>

theorem ParseCreateAccountBody_exact:
  "ParseCreateAccountBody body = Inr req \<longleftrightarrow>
     (\<exists>block. length block = 96 \<and>
        body = [0, MessageCreateAccountRequest] @
          pack (header_bits (car_IVSeed req) @ bits_uint64 False 0 @ bytes_bits block) \<and>
        Encrypt3DESCBC createAccountKey (DeriveIV (car_IVSeed req)) (account_block req) = Inr block) \<and>
     valid_username (car_Username req) \<and> length (car_PasswordHash req) = 24 \<and>
     car_TitleID req = BOZTitleID \<and> car_LicenseHash req = 0"
  unfolding ParseCreateAccountBody_eq create_bits_def MessageCreateAccountRequest_def ..

text \<open>An account-for-matchmaking request is accepted exactly when it is the encoding of a
  seed, this game's title and an account hash, so that two different requests never have the
  same bytes and no request has two encodings.\<close>

theorem ParseAccountForMMPBody_exact:
  "ParseAccountForMMPBody body = Inr req \<longleftrightarrow>
     amr_TitleID req = BOZTitleID \<and>
     body = [0, MessageAccountForMMPRequest] @
       pack (header_bits (amr_IVSeed req) @ bits_uint64 False (amr_AccountHash req))"
  unfolding ParseAccountForMMPBody_eq MessageAccountForMMPRequest_def ..

text \<open>A status reply is 7 bytes: the clear byte 0, the message type, and the type-checked
  status; its length is never the reserved 200.\<close>

theorem status_reply_layout:
  "marshalStatusReplyBody t status = [0] @ pack (bits_uint8 False t @ True # bits_uint32 True status) \<and>
   length (marshalStatusReplyBody t status) = 7"
  by (simp add: marshalStatusReplyBody_eq)

text \<open>C24: the success reply carries, behind the status and the seed, a ticket of 128 bytes that a
  client who holds the account's password hash decrypts to the session key, the account's
  identity and the two times, each in its 32 bits; the body has 140 bytes.\<close>

theorem success_reply_ticket:
  assumes "marshalAccountForMMPSuccessBody account seed sessionKey issuedAt expiresAt = Inr body"
    and "length sessionKey = SessionKeySize"
  shows "\<exists>ticket. body = [0] @ pack (bits_uint8 False MessageAccountForMMPReply @ True #
       bits_uint32 True StatusNoError @ bits_uint32 True seed @ bytes_bits ticket) \<and>
     length ticket = authTicketSize \<and> length body = 140 \<and>
     Decrypt3DESCBC (acc_PasswordHash account) (DeriveIV seed) ticket =
       Inr (ticket_bytes account sessionKey (time_Unix issuedAt) (time_Unix expiresAt)) \<and>
     issuedAt < expiresAt \<and> 0 \<le> time_Unix issuedAt \<and> time_Unix expiresAt \<le> int MaxUint32"
  by (rule success_body_layout [OF assms])

definition example_account :: Account where
  "example_account = \<lparr>acc_UserID = 1, acc_Username = ascii ''dempsey'',
     acc_PasswordHash = replicate 24 7, acc_AccountHash = 9\<rparr>"

theorem success_reply_ticket_witness:
  "\<exists>body ticket. marshalAccountForMMPSuccessBody example_account 5 (replicate 24 3) 0 1000000000 = Inr body \<and>
     length body = 140 \<and> length ticket = authTicketSize \<and>
     Decrypt3DESCBC (replicate 24 7) (DeriveIV 5) ticket = Inr (ticket_bytes example_account (replicate 24 3) 0 1)"
proof -
  have "length (ticket_plaintext example_account (replicate 24 3) 0 1) = 128"
    by (simp add: ticket_plaintext_def Let_def authTicketSize_def)
  then obtain c where c: "Encrypt3DESCBC (replicate 24 7) (DeriveIV 5)
      (ticket_plaintext example_account (replicate 24 3) 0 1) = Inr c"
    by (simp add: Encrypt3DESCBC_eq)
  have acc: "acc_PasswordHash example_account = replicate 24 7" "length (acc_Username example_account) = 7"
    by (simp_all add: example_account_def ascii_def)
  have "\<exists>body. marshalAccountForMMPSuccessBody example_account 5 (replicate 24 3) 0 1000000000 = Inr body"
    by (simp add: marshalAccountForMMPSuccessBody_def buildEncryptedAuthTicket_def time_Unix_def
        acc accountUsernameSize_def c Let_def)
  with success_reply_ticket [of example_account 5 "replicate 24 3" 0 1000000000] show ?thesis
    by (auto simp: SessionKeySize_def example_account_def time_Unix_def)
qed

end
