(* ===== verification/Account_File.thy ===== *)
theory Account_File
  imports Auth_Messages
begin

text \<open>
  \<^verbatim>\<open>internal/online/auth/account_file.go\<close>: the file that keeps the accounts across restarts. The disk
  holds the one account file, the temporary file while a new version is written, and the outcomes
  of the coming system calls. A file is described by what the code inspects of it: its kind, size
  and permissions, and what the two calls of \<^verbatim>\<open>json.Decoder.Decode\<close> return for its contents; for a
  file this code has written, that is the value it encoded and then the end of the input.
\<close>

definition accountFileVersion :: int where "accountFileVersion = 1"
definition maxAccountFileBytes :: nat where "maxAccountFileBytes = 16777216"

record persistedAccount =
  pa_UserID :: u64
  pa_Username :: gostring
  pa_PasswordHash :: gostring

record accountFile =
  af_Version :: int
  af_Accounts :: "persistedAccount list"

section \<open>The disk\<close>

text \<open>The second \<^verbatim>\<open>Decode\<close>, which must find the end.\<close>

datatype json_trailer = TrailerEOF | TrailerValue | TrailerErr go_error

record disk_file =
  df_regular :: bool
  df_perm :: u32
  df_size :: nat
  df_decoded :: "go_error + accountFile"
  df_trailer :: json_trailer

record disk =
  dk_file :: "disk_file option"
  dk_temp :: "disk_file option"
  dk_script :: "go_error option list"

text \<open>The next system call: its outcome is the next of the script, success when none is left.\<close>

definition syscall :: "(disk, unit) go" where
  "syscall d =
     (case dk_script d of
        [] \<Rightarrow> (Inr (), d)
      | outcome # script \<Rightarrow>
          ((case outcome of None \<Rightarrow> Inr () | Some e \<Rightarrow> Inl e), d\<lparr>dk_script := script\<rparr>))"

definition ensureAccountFileDirectory :: "(disk, unit) go" where
  "ensureAccountFileDirectory =
     go_wrap (Context ''auth: create account data directory'') syscall"

section \<open>Reading\<close>

text \<open>\<^verbatim>\<open>hex.EncodeToString\<close> and \<^verbatim>\<open>hex.DecodeString\<close>.\<close>

definition hex_EncodeToString :: "bytes \<Rightarrow> gostring" where
  "hex_EncodeToString bs = concat (map (\<lambda>b. [hex_char (unat b div 16), hex_char (unat b mod 16)]) bs)"

fun hex_DecodeString :: "gostring \<Rightarrow> bytes option" where
  "hex_DecodeString [] = Some []"
| "hex_DecodeString [c] = None"
| "hex_DecodeString (c # d # s) =
     (case (hex_value c, hex_value d, hex_DecodeString s) of
        (Some x, Some y, Some bs) \<Rightarrow> Some (word_of_nat (16 * x + y) # bs)
      | _ \<Rightarrow> None)"

text \<open>\<^verbatim>\<open>BOZAccountHash\<close> of \<^verbatim>\<open>store.go\<close>. The names that reach it are printable ASCII
  (\<open>parsePaddedUsername\<close>), where \<^verbatim>\<open>strings.ToLower\<close> changes the letters A to Z only.\<close>

definition ToLower :: "gostring \<Rightarrow> gostring" where
  "ToLower s = map (\<lambda>c. if 65 \<le> c \<and> c \<le> 90 then c + 32 else c) s"

definition BOZAccountHash :: "gostring \<Rightarrow> u64" where
  "BOZAccountHash username = LE_Uint64 (slice 0 8 (Tiger192 (ToLower username)))"

definition decodePersistedAccount :: "persistedAccount \<Rightarrow> go_error + Account" where
  "decodePersistedAccount persisted =
     (if pa_UserID persisted = 0 then Inl (Message ''auth: persisted user ID must not be zero'')
      else if length (pa_Username persisted) = 0 \<or> length (pa_Username persisted) > accountUsernameSize
      then Inl (Message ''auth: invalid persisted username'')
      else (case parsePaddedUsername (copy_at 0 (pa_Username persisted) (replicate accountUsernameSize 0)) of
              Inl e \<Rightarrow> Inl (Message ''auth: invalid persisted username'')
            | Inr username \<Rightarrow>
                if username \<noteq> pa_Username persisted
                then Inl (Message ''auth: invalid persisted username'')
                else (case hex_DecodeString (pa_PasswordHash persisted) of
                        None \<Rightarrow> Inl (Message ''auth: invalid persisted password hash'')
                      | Some passwordBytes \<Rightarrow>
                          if length passwordBytes \<noteq> SessionKeySize
                          then Inl (Message ''auth: invalid persisted password hash'')
                          else Inr \<lparr>acc_UserID = pa_UserID persisted, acc_Username = username,
                                    acc_PasswordHash = copy_at 0 passwordBytes (replicate accountPasswordSize 0),
                                    acc_AccountHash = BOZAccountHash username\<rparr>)))"

definition requireJSONEnd :: "json_trailer \<Rightarrow> go_error option" where
  "requireJSONEnd trailer =
     (case trailer of
        TrailerEOF \<Rightarrow> None
      | TrailerValue \<Rightarrow> Some (Message ''auth: account file contains multiple JSON values'')
      | TrailerErr e \<Rightarrow> Some (Context ''auth: decode account file trailer'' e))"

text \<open>The loop over the stored accounts. The three sets of the code hold the identifiers, names and
  hashes of the accounts taken so far.\<close>

fun check_accounts :: "persistedAccount list \<Rightarrow> Account list \<Rightarrow> go_error + Account list" where
  "check_accounts [] accounts = Inr accounts"
| "check_accounts (persisted # rest) accounts =
     (case decodePersistedAccount persisted of
        Inl e \<Rightarrow> Inl e
      | Inr account \<Rightarrow>
          if acc_UserID account \<in> set (map acc_UserID accounts)
          then Inl (Message ''auth: duplicate persisted user ID'')
          else if acc_Username account \<in> set (map acc_Username accounts)
          then Inl (Message ''auth: duplicate persisted username'')
          else if acc_AccountHash account \<in> set (map acc_AccountHash accounts)
          then Inl (Message ''auth: duplicate persisted account hash'')
          else check_accounts rest (accounts @ [account]))"

text \<open>What \<^verbatim>\<open>readAccountFile\<close> does with an open file.\<close>

definition load_file :: "int \<Rightarrow> disk_file \<Rightarrow> go_error + Account list" where
  "load_file maximum file =
     (if \<not> df_regular file then Inl (Message ''auth: account file must be a regular file'')
      else if df_size file > maxAccountFileBytes then Inl (Message ''auth: account file exceeds the maximum size'')
      else if df_perm file AND 63 \<noteq> 0
      then Inl (Message ''auth: account file permissions must not allow group or other access'')
      else (case df_decoded file of
              Inl e \<Rightarrow> Inl (Context ''auth: decode account file'' e)
            | Inr stored \<Rightarrow>
                (case requireJSONEnd (df_trailer file) of
                   Some e \<Rightarrow> Inl e
                 | None \<Rightarrow>
                     if af_Version stored \<noteq> accountFileVersion
                     then Inl (Message ''auth: unsupported account file version'')
                     else if int (length (af_Accounts stored)) > maximum
                     then Inl (Message ''auth: account file contains too many accounts'')
                     else check_accounts (af_Accounts stored) [])))"

definition readAccountFile :: "int \<Rightarrow> (disk, Account list) go" where
  "readAccountFile maximum d =
     (case syscall d of
        (Inl e, d) \<Rightarrow>
          (if errors_is e (IoErr ErrNotExist) then Inr []
           else Inl (Context ''auth: open account file'' e), d)
      | (Inr _, d) \<Rightarrow>
          (case dk_file d of
             None \<Rightarrow> (Inr [], d)
           | Some file \<Rightarrow>
               (case syscall d of
                  (Inl e, d) \<Rightarrow> (Inl (Context ''auth: inspect account file'' e), d)
                | (Inr _, d) \<Rightarrow> (load_file maximum file, d))))"

section \<open>Writing\<close>

text \<open>The text \<^verbatim>\<open>json.Encoder\<close> writes with an indent of two spaces. A string is quoted; a quote and a
  backslash are escaped, and so are the three characters that are special in HTML.\<close>

fun decimal :: "nat \<Rightarrow> gostring" where
  "decimal n = (if n < 10 then [word_of_nat (48 + n)] else decimal (n div 10) @ [word_of_nat (48 + n mod 10)])"

declare decimal.simps [simp del]

definition json_char :: "byte \<Rightarrow> gostring" where
  "json_char c =
     (if c = 34 then [92, 34]
      else if c = 92 then [92, 92]
      else if c < 0x20 \<or> c = 60 \<or> c = 62 \<or> c = 38
      then [92, 117, 48, 48, hex_char (unat c div 16), hex_char (unat c mod 16)]
      else [c])"

definition json_quoted :: "gostring \<Rightarrow> gostring" where
  "json_quoted s = [34] @ concat (map json_char s) @ [34]"

definition json_field :: "nat \<Rightarrow> string \<Rightarrow> gostring \<Rightarrow> gostring" where
  "json_field indent name val = replicate indent 32 @ json_quoted (ascii name) @ [58, 32] @ val"

definition json_account :: "persistedAccount \<Rightarrow> gostring" where
  "json_account a =
     replicate 4 32 @ [123, 10] @
     json_field 6 ''user_id'' (decimal (unat (pa_UserID a))) @ [44, 10] @
     json_field 6 ''username'' (json_quoted (pa_Username a)) @ [44, 10] @
     json_field 6 ''password_hash'' (json_quoted (pa_PasswordHash a)) @ [10] @
     replicate 4 32 @ [125]"

fun join_lines :: "gostring list \<Rightarrow> gostring" where
  "join_lines [] = []"
| "join_lines [x] = x"
| "join_lines (x # xs) = x @ [44, 10] @ join_lines xs"

definition json_text :: "accountFile \<Rightarrow> gostring" where
  "json_text stored =
     [123, 10] @ json_field 2 ''version'' (decimal (nat (af_Version stored))) @ [44, 10] @
     json_field 2 ''accounts''
       (if af_Accounts stored = [] then [91, 93]
        else [91, 10] @ join_lines (map json_account (af_Accounts stored)) @ [10] @ replicate 2 32 @ [93]) @
     [10, 125, 10]"

definition persisted_of :: "Account \<Rightarrow> persistedAccount" where
  "persisted_of account =
     \<lparr>pa_UserID = acc_UserID account, pa_Username = acc_Username account,
      pa_PasswordHash = hex_EncodeToString (acc_PasswordHash account)\<rparr>"

definition stored_of :: "Account list \<Rightarrow> accountFile" where
  "stored_of accounts =
     \<lparr>af_Version = accountFileVersion,
      af_Accounts = map persisted_of (sort_key acc_UserID accounts)\<rparr>"

text \<open>A file this code has written: mode 0600 and the encoded value.\<close>

definition written_file :: "accountFile \<Rightarrow> disk_file" where
  "written_file stored =
     \<lparr>df_regular = True, df_perm = 384, df_size = length (json_text stored), df_decoded = Inr stored,
      df_trailer = TrailerEOF\<rparr>"

text \<open>A temporary file that is not complete.\<close>

definition partial_file :: disk_file where
  "partial_file = \<lparr>df_regular = True, df_perm = 384, df_size = 0,
     df_decoded = Inl (IoErr ErrUnexpectedEOF), df_trailer = TrailerEOF\<rparr>"

definition put_temp :: "disk_file \<Rightarrow> (disk, unit) go" where
  "put_temp f d = (Inr (), d\<lparr>dk_temp := Some f\<rparr>)"

text \<open>The steps up to and including the rename, and the deferred removal of the temporary file.\<close>

definition write_temporary :: "accountFile \<Rightarrow> (disk, unit) go" where
  "write_temporary stored =
     go_bind (go_wrap (Context ''auth: restrict temporary account file'') syscall) (\<lambda>_.
     go_bind (go_wrap (Context ''auth: encode account file'') syscall) (\<lambda>_.
     go_bind (put_temp (written_file stored)) (\<lambda>_.
     go_bind (go_wrap (Context ''auth: sync account file'') syscall) (\<lambda>_.
     go_bind (go_wrap (Context ''auth: close account file'') syscall) (\<lambda>_.
     go_bind (go_wrap (Context ''auth: replace account file'') syscall) (\<lambda>_ d.
       (Inr (), d\<lparr>dk_file := dk_temp d, dk_temp := None\<rparr>)))))))"

definition remove_temporary :: "disk \<Rightarrow> disk" where
  "remove_temporary d = (case syscall d of (Inl _, d) \<Rightarrow> d | (Inr _, d) \<Rightarrow> d\<lparr>dk_temp := None\<rparr>)"

definition sync_directory :: "(disk, unit) go" where
  "sync_directory =
     go_bind (go_wrap (Context ''auth: open account data directory'') syscall) (\<lambda>_.
       go_wrap (Context ''auth: sync account data directory'') syscall)"

definition writeAccountFile :: "Account list \<Rightarrow> (disk, unit) go" where
  "writeAccountFile accounts =
     go_bind (go_wrap (Context ''auth: create temporary account file'') syscall) (\<lambda>_.
     go_bind (put_temp partial_file) (\<lambda>_ d.
       (case write_temporary (stored_of accounts) d of
          (Inl e, d) \<Rightarrow> (Inl e, remove_temporary d)
        | (Inr _, d) \<Rightarrow> sync_directory d)))"

section \<open>What is written is read back\<close>

lemma hex_value_char: "d < 16 \<Longrightarrow> hex_value (hex_char d) = Some d"
proof -
  assume "d < 16"
  then have "d \<in> set [0..<16]" by simp
  moreover have "list_all (\<lambda>d. hex_value (hex_char d) = Some d) [0..<16]" by code_simp
  ultimately show ?thesis by (simp add: list_all_iff del: set_upt)
qed

lemma hex_roundtrip: "hex_DecodeString (hex_EncodeToString bs) = Some bs"
proof (induction bs)
  case (Cons b bs)
  have "unat b < 2 ^ LENGTH(8)" by (rule unsigned_less)
  then have b: "unat b div 16 < 16" by simp
  have "hex_DecodeString (hex_EncodeToString (b # bs)) = Some (word_of_nat (16 * (unat b div 16) + unat b mod 16) # bs)"
    using Cons.IH b by (simp add: hex_EncodeToString_def hex_value_char)
  then show ?case by simp
qed (simp add: hex_EncodeToString_def)

lemma length_hex: "length (hex_EncodeToString bs) = 2 * length bs"
  by (simp add: hex_EncodeToString_def length_concat comp_def sum_list_triv)

text \<open>An account that can be persisted.\<close>

definition account_ok :: "Account \<Rightarrow> bool" where
  "account_ok a \<longleftrightarrow> acc_UserID a \<noteq> 0 \<and> valid_username (acc_Username a) \<and>
     length (acc_PasswordHash a) = 24 \<and> acc_AccountHash a = BOZAccountHash (acc_Username a)"

lemma decode_persisted:
  assumes "account_ok a"
  shows "decodePersistedAccount (persisted_of a) = Inr a"
proof -
  let ?u = "acc_Username a"
  have u: "?u \<noteq> []" "length ?u \<le> 64" "printable ?u"
    using assms by (simp_all add: account_ok_def valid_username_def)
  have "parsePaddedUsername (copy_at 0 ?u (replicate 64 0)) = Inr ?u"
    using u by (simp add: parsePaddedUsername_eq copy_at_def)
  moreover have "copy_at 0 (acc_PasswordHash a) (replicate 24 0) = acc_PasswordHash a"
    using assms by (simp add: copy_at_def account_ok_def)
  ultimately show ?thesis
    using assms u by (cases a) (simp add: decodePersistedAccount_def persisted_of_def account_ok_def
        accountUsernameSize_def accountPasswordSize_def SessionKeySize_def hex_roundtrip)
qed

text \<open>Accounts with different identifiers, names and hashes.\<close>

definition accounts_distinct :: "Account list \<Rightarrow> bool" where
  "accounts_distinct xs \<longleftrightarrow> distinct (map acc_UserID xs) \<and> distinct (map acc_Username xs) \<and>
     distinct (map acc_AccountHash xs)"

lemma check_accounts_ok:
  assumes "\<forall>a\<in>set todo. account_ok a" and "accounts_distinct (seen @ todo)"
  shows "check_accounts (map persisted_of todo) seen = Inr (seen @ todo)"
  using assms
proof (induction todo arbitrary: seen)
  case (Cons a todo)
  then have "check_accounts (map persisted_of todo) (seen @ [a]) = Inr ((seen @ [a]) @ todo)"
    by (intro Cons.IH) simp_all
  with Cons.prems show ?case
    by (auto simp: decode_persisted accounts_distinct_def)
qed simp

lemma decodePersistedAccount_ok:
  assumes "decodePersistedAccount p = Inr a"
  shows "account_ok a"
proof -
  let ?f = "copy_at 0 (pa_Username p) (replicate 64 0)"
  from assms obtain bs where u: "pa_UserID p \<noteq> 0" "length (pa_Username p) \<le> 64"
    "parsePaddedUsername ?f = Inr (pa_Username p)" and bs: "length bs = 24"
    and a: "a = \<lparr>acc_UserID = pa_UserID p, acc_Username = pa_Username p,
      acc_PasswordHash = copy_at 0 bs (replicate 24 0), acc_AccountHash = BOZAccountHash (pa_Username p)\<rparr>"
    unfolding decodePersistedAccount_def accountUsernameSize_def accountPasswordSize_def SessionKeySize_def
    by (auto simp: not_less split: if_splits sum.splits option.splits)
  have "valid_username (pa_Username p)"
    using u(2) u(3) [unfolded parsePaddedUsername_eq] by (simp add: valid_username_def)
  then show ?thesis using u bs a by (simp add: account_ok_def)
qed

lemma check_accounts_result:
  assumes "check_accounts todo seen = Inr xs" and "\<forall>a\<in>set seen. account_ok a" and "accounts_distinct seen"
  shows "(\<forall>a\<in>set xs. account_ok a) \<and> accounts_distinct xs \<and> length xs = length seen + length todo"
  using assms
proof (induction todo arbitrary: seen)
  case (Cons p todo)
  then obtain a where a: "decodePersistedAccount p = Inr a"
    by (cases "decodePersistedAccount p") simp_all
  have fresh: "acc_UserID a \<notin> set (map acc_UserID seen)" "acc_Username a \<notin> set (map acc_Username seen)"
      "acc_AccountHash a \<notin> set (map acc_AccountHash seen)"
    using Cons.prems(1) a by (simp_all split: if_splits)
  then have r: "check_accounts todo (seen @ [a]) = Inr xs"
    using Cons.prems(1) a by simp
  have ok: "\<forall>b\<in>set (seen @ [a]). account_ok b"
    using Cons.prems(2) decodePersistedAccount_ok [OF a] by auto
  have dist: "accounts_distinct (seen @ [a])"
    using Cons.prems(3) fresh unfolding accounts_distinct_def map_append distinct_append by simp
  have "length (seen @ [a]) + length todo = length seen + length (p # todo)" by simp
  with Cons.IH [OF r ok dist] show ?case by metis
qed simp

lemma accounts_distinct_sort: "accounts_distinct (sort_key f xs) = accounts_distinct xs"
  by (simp add: accounts_distinct_def distinct_map cong: conj_cong)

lemma load_written:
  assumes "\<forall>a\<in>set xs. account_ok a" and "accounts_distinct xs" and "int (length xs) \<le> maximum"
    and "length (json_text (stored_of xs)) \<le> maxAccountFileBytes"
  shows "load_file maximum (written_file (stored_of xs)) = Inr (sort_key acc_UserID xs)"
  using assms check_accounts_ok [of "sort_key acc_UserID xs" "[]"]
  by (simp add: load_file_def written_file_def stored_of_def requireJSONEnd_def accounts_distinct_sort)

lemma load_file_result:
  assumes "load_file maximum f = Inr xs"
  shows "(\<forall>a\<in>set xs. account_ok a) \<and> accounts_distinct xs \<and> int (length xs) \<le> maximum"
proof -
  from assms obtain stored :: accountFile where "check_accounts (af_Accounts stored) [] = Inr xs"
    and "int (length (af_Accounts stored)) \<le> maximum"
    by (auto simp: load_file_def not_less split: if_splits sum.splits option.splits)
  with check_accounts_result [of "af_Accounts stored" "[]" xs] show ?thesis
    by (simp add: accounts_distinct_def)
qed

section \<open>Writing is all or nothing\<close>

lemma syscall_disk: "syscall d = (r, d') \<Longrightarrow> dk_file d' = dk_file d \<and> dk_temp d' = dk_temp d"
  by (auto simp: syscall_def split: list.splits)

lemma syscall_ok: "dk_script d = [] \<Longrightarrow> syscall d = (Inr (), d)"
  by (simp add: syscall_def)

lemma write_temporary_result:
  assumes "write_temporary stored d = (r, d')"
  shows "(r = Inr () \<and> dk_file d' = Some (written_file stored) \<and> dk_temp d' = None) \<or>
    ((\<exists>e. r = Inl e) \<and> dk_file d' = dk_file d)"
  using assms
  by (auto simp: write_temporary_def go_bind_def go_wrap_def put_temp_def split: prod.splits sum.splits
      dest!: syscall_disk)

lemma remove_temporary_file: "dk_file (remove_temporary d) = dk_file d"
  by (auto simp: remove_temporary_def split: prod.splits sum.splits dest!: syscall_disk)

lemma sync_directory_file: "sync_directory d = (r, d') \<Longrightarrow> dk_file d' = dk_file d \<and> dk_temp d' = dk_temp d"
  by (auto simp: sync_directory_def go_bind_def go_wrap_def split: prod.splits sum.splits dest!: syscall_disk)

lemma writeAccountFile_result:
  assumes "writeAccountFile accounts d = (r, d')"
  shows "(r = Inr () \<and> dk_file d' = Some (written_file (stored_of accounts)) \<and> dk_temp d' = None) \<or>
    ((\<exists>e. r = Inl e) \<and> (dk_file d' = dk_file d \<or> dk_file d' = Some (written_file (stored_of accounts))))"
proof (cases "fst (syscall d)")
  case (Inl e)
  then show ?thesis
    using assms syscall_disk [of d] by (auto simp: writeAccountFile_def go_bind_def go_wrap_def split: prod.splits)
next
  case (Inr u)
  obtain d1 where d1: "syscall d = (Inr (), d1)" using Inr by (cases "syscall d") auto
  let ?d2 = "d1\<lparr>dk_temp := Some partial_file\<rparr>"
  have f: "dk_file ?d2 = dk_file d" using syscall_disk [OF d1] by simp
  obtain r3 d3 where w: "write_temporary (stored_of accounts) ?d2 = (r3, d3)" by (metis surj_pair)
  show ?thesis
  proof (cases r3)
    case (Inl e)
    then have "(r, d') = (Inl e, remove_temporary d3)"
      using assms d1 w by (simp add: writeAccountFile_def go_bind_def go_wrap_def put_temp_def)
    with write_temporary_result [OF w] Inl f show ?thesis by (auto simp: remove_temporary_file)
  next
    case (Inr u')
    then have "sync_directory d3 = (r, d')"
      using assms d1 w by (simp add: writeAccountFile_def go_bind_def go_wrap_def put_temp_def)
    with write_temporary_result [OF w] Inr sync_directory_file [of d3 r d'] show ?thesis
      by (cases r) auto
  qed
qed

lemma writeAccountFile_ok:
  "dk_script d = [] \<Longrightarrow> writeAccountFile accounts d =
     (Inr (), d\<lparr>dk_file := Some (written_file (stored_of accounts)), dk_temp := None\<rparr>)"
  by (simp add: writeAccountFile_def write_temporary_def sync_directory_def go_bind_def go_wrap_def
      put_temp_def syscall_ok)

section \<open>The size of the file\<close>

lemma length_decimal: "n < 10 ^ Suc k \<Longrightarrow> 1 \<le> length (decimal n) \<and> length (decimal n) \<le> Suc k"
proof (induction k arbitrary: n)
  case 0
  then show ?case by (simp add: decimal.simps [of n])
next
  case (Suc k)
  have "n div 10 < 10 ^ Suc k"
    using Suc.prems by (intro less_mult_imp_div_less) (simp add: mult.commute)
  with Suc.IH [of "n div 10"] show ?case
    by (subst (1 2) decimal.simps) auto
qed

lemma length_json_quoted:
  "length s + 2 \<le> length (json_quoted s)" "length (json_quoted s) \<le> 6 * length s + 2"
proof -
  have c: "1 \<le> length (json_char b)" "length (json_char b) \<le> 6" for b
    by (simp_all add: json_char_def)
  have "length s \<le> length (concat (map json_char s))"
  proof (induction s)
    case (Cons b s)
    with c(1) [of b] show ?case by simp
  qed simp
  then show "length s + 2 \<le> length (json_quoted s)" by (simp add: json_quoted_def)
  have "length (concat (map json_char s)) \<le> 6 * length s"
  proof (induction s)
    case (Cons b s)
    with c(2) [of b] show ?case by simp
  qed simp
  then show "length (json_quoted s) \<le> 6 * length s + 2" by (simp add: json_quoted_def)
qed

lemma length_json_names:
  "length (json_quoted (ascii ''user_id'')) = 9" "length (json_quoted (ascii ''username'')) = 10"
  "length (json_quoted (ascii ''password_hash'')) = 15" "length (json_quoted (ascii ''version'')) = 9"
  "length (json_quoted (ascii ''accounts'')) = 10"
  by code_simp+

lemma length_json_account:
  assumes "account_ok a"
  shows "128 \<le> length (json_account (persisted_of a))" "length (json_account (persisted_of a)) \<le> 798"
proof -
  have u: "1 \<le> length (acc_Username a)" "length (acc_Username a) \<le> 64" "length (acc_PasswordHash a) = 24"
    using assms by (auto simp: account_ok_def valid_username_def Suc_le_eq)
  have "unat (acc_UserID a) < 2 ^ LENGTH(64)" by (rule unsigned_less)
  then have d: "1 \<le> length (decimal (unat (acc_UserID a)))" "length (decimal (unat (acc_UserID a))) \<le> 20"
    using length_decimal [of "unat (acc_UserID a)" 19] by simp_all
  show "128 \<le> length (json_account (persisted_of a))" "length (json_account (persisted_of a)) \<le> 798"
    using u d length_json_quoted [of "acc_Username a"] length_json_quoted [of "hex_EncodeToString (acc_PasswordHash a)"]
    by (simp_all add: json_account_def json_field_def persisted_of_def length_json_names length_hex)
qed

lemma length_join_lines:
  assumes "\<forall>x\<in>set xs. l \<le> length x \<and> length x \<le> n" and "xs \<noteq> []"
  shows "l * length xs \<le> length (join_lines xs) \<and> length (join_lines xs) \<le> (n + 2) * length xs"
  using assms
proof (induction xs rule: join_lines.induct)
  case (3 x y xs)
  then have "l * length (y # xs) \<le> length (join_lines (y # xs))"
    "length (join_lines (y # xs)) \<le> (n + 2) * length (y # xs)" "l \<le> length x" "length x \<le> n"
    by simp_all
  then show ?case by simp
qed auto

lemma length_json_text:
  assumes "\<forall>a\<in>set xs. account_ok a"
  shows "128 * length xs < length (json_text (stored_of xs))"
    and "length (json_text (stored_of xs)) \<le> 800 * length xs + 100"
proof -
  let ?ys = "map json_account (map persisted_of (sort_key acc_UserID xs))"
  have "\<forall>y\<in>set ?ys. 128 \<le> length y \<and> length y \<le> 798"
    using assms length_json_account by auto
  moreover have e: "sort_key acc_UserID xs = [] \<longleftrightarrow> xs = []" by (metis length_0_conv length_sort)
  ultimately have j: "128 * length xs \<le> length (join_lines ?ys) \<and> length (join_lines ?ys) \<le> 800 * length xs"
    if "xs \<noteq> []"
    using length_join_lines [of ?ys 128 798] that e by simp
  have v: "length (decimal (Suc 0)) = 1" by (simp add: decimal.simps)
  from e show "128 * length xs < length (json_text (stored_of xs))"
    "length (json_text (stored_of xs)) \<le> 800 * length xs + 100"
    using j by (auto simp: json_text_def stored_of_def json_field_def length_json_names accountFileVersion_def v)
qed

end
