(* ===== verification/Account_Store.thy ===== *)
theory Account_Store
  imports Account_File
begin

text \<open>
  \<^verbatim>\<open>internal/online/auth/store.go\<close>: the accounts, indexed by name, by hash and by identifier, and
  the number of accounts each network source has created. The store and the disk it persists to
  form the state of its operations; \<open>acs_stateFile\<close> is empty when nothing is persisted. The mutex
  makes every operation atomic, so a run is a sequence of operations.
\<close>

definition DefaultMaxAccounts :: int where "DefaultMaxAccounts = 4096"
definition DefaultMaxAccountsPerSource :: int where "DefaultMaxAccountsPerSource = 32"

record AccountStore =
  acs_maxAccounts :: int
  acs_maxAccountsPerSource :: int
  acs_stateFile :: gostring
  acs_nextUserID :: u64
  acs_byUsername :: "(gostring, Account) gomap"
  acs_byHash :: "(u64, Account) gomap"
  acs_byUserID :: "(u64, Account) gomap"
  acs_accountsBySource :: "(gostring, int) gomap"

record AccountStoreConfig =
  acfg_MaxAccounts :: int
  acfg_MaxAccountsPerSource :: int
  acfg_StateFile :: gostring

section \<open>Operations\<close>

text \<open>The assignments that enter an account into the three indexes.\<close>

definition acs_index :: "Account \<Rightarrow> AccountStore \<Rightarrow> AccountStore" where
  "acs_index account store =
     store\<lparr>acs_byUsername := AList.update (acc_Username account) account (acs_byUsername store),
           acs_byHash := AList.update (acc_AccountHash account) account (acs_byHash store),
           acs_byUserID := AList.update (acc_UserID account) account (acs_byUserID store)\<rparr>"

text \<open>The loop over the accounts of the file.\<close>

fun load_accounts :: "Account list \<Rightarrow> AccountStore \<Rightarrow> go_error + AccountStore" where
  "load_accounts [] store = Inr store"
| "load_accounts (account # accounts) store =
     (let store = acs_index account store
      in if acc_UserID account \<ge> acs_nextUserID store
         then let store = store\<lparr>acs_nextUserID := acc_UserID account + 1\<rparr>
              in if acs_nextUserID store = 0
                 then Inl (Message ''auth: persisted user ID space is exhausted'')
                 else load_accounts accounts store
         else load_accounts accounts store)"

definition empty_store :: "int \<Rightarrow> int \<Rightarrow> gostring \<Rightarrow> AccountStore" where
  "empty_store maxAccounts maxAccountsPerSource stateFile =
     \<lparr>acs_maxAccounts = maxAccounts, acs_maxAccountsPerSource = maxAccountsPerSource,
      acs_stateFile = stateFile, acs_nextUserID = 1, acs_byUsername = [], acs_byHash = [],
      acs_byUserID = [], acs_accountsBySource = []\<rparr>"

definition NewAccountStore :: "AccountStoreConfig \<Rightarrow> (disk, AccountStore) go" where
  "NewAccountStore config =
     (let maxAccounts = (if acfg_MaxAccounts config = 0 then DefaultMaxAccounts
                         else acfg_MaxAccounts config);
          maxAccountsPerSource = (if acfg_MaxAccountsPerSource config = 0
                                  then DefaultMaxAccountsPerSource
                                  else acfg_MaxAccountsPerSource config)
      in if maxAccounts < 1 \<or> maxAccounts > 1000000
         then go_fail (Message ''auth: maximum accounts must be between 1 and 1000000'')
         else if maxAccountsPerSource < 1 \<or> maxAccountsPerSource > 1000000
         then go_fail (Message ''auth: maximum accounts per source must be between 1 and 1000000'')
         else let store = empty_store maxAccounts maxAccountsPerSource (acfg_StateFile config)
           in if acs_stateFile store = [] then go_return store
              else go_bind ensureAccountFileDirectory (\<lambda>_.
                go_bind (readAccountFile (acs_maxAccounts store)) (\<lambda>accounts d.
                  (load_accounts accounts store, d))))"

text \<open>The state of the operations that create accounts. The result is the account, whether it was
  created, and the error.\<close>

type_synonym account_state = "AccountStore \<times> disk"

definition zero_account :: Account where
  "zero_account = \<lparr>acc_UserID = 0, acc_Username = [], acc_PasswordHash = replicate accountPasswordSize 0,
     acc_AccountHash = 0\<rparr>"

definition new_account :: "gostring \<Rightarrow> bytes \<Rightarrow> AccountStore \<Rightarrow> Account" where
  "new_account username passwordHash store =
     \<lparr>acc_UserID = acs_nextUserID store, acc_Username = username, acc_PasswordHash = passwordHash,
      acc_AccountHash = BOZAccountHash username\<rparr>"

text \<open>The assignments of \<^verbatim>\<open>register\<close> once the account is on disk.\<close>

definition acs_enter :: "Account \<Rightarrow> gostring \<Rightarrow> bool \<Rightarrow> AccountStore \<Rightarrow> AccountStore" where
  "acs_enter account source enforceSourceLimit store =
     (let store = store\<lparr>acs_nextUserID := acs_nextUserID store + 1\<rparr>;
          store = acs_index account store
      in if enforceSourceLimit
         then store\<lparr>acs_accountsBySource := AList.update source
                (gm_count (acs_accountsBySource store) source + 1) (acs_accountsBySource store)\<rparr>
         else store)"

definition register ::
  "gostring \<Rightarrow> bytes \<Rightarrow> gostring \<Rightarrow> bool \<Rightarrow> account_state \<Rightarrow>
     (Account \<times> bool \<times> go_error option) \<times> account_state" where
  "register username passwordHash source enforceSourceLimit st =
     (case st of (store, d) \<Rightarrow>
        (case map_of (acs_byUsername store) username of
           Some existing \<Rightarrow> ((existing, False, None), (store, d))
         | None \<Rightarrow>
             if int (length (acs_byUsername store)) \<ge> acs_maxAccounts store
             then ((zero_account, False, Some (AccountStoreErr ErrAccountLimit)), (store, d))
             else if enforceSourceLimit \<and>
                gm_count (acs_accountsBySource store) source \<ge> acs_maxAccountsPerSource store
             then ((zero_account, False, Some (AccountStoreErr ErrAccountSourceLimit)), (store, d))
             else let accountHash = BOZAccountHash username in
               (case map_of (acs_byHash store) accountHash of
                  Some existing \<Rightarrow>
                    ((existing, False, Some (AccountStoreErr ErrAccountHashCollision)), (store, d))
                | None \<Rightarrow>
                    let account = new_account username passwordHash store in
                    if acs_stateFile store \<noteq> []
                    then (case writeAccountFile (map snd (acs_byUsername store) @ [account]) d of
                            (Inl e, d) \<Rightarrow> ((zero_account, False, Some e), (store, d))
                          | (Inr _, d) \<Rightarrow>
                              ((account, True, None), (acs_enter account source enforceSourceLimit store, d)))
                    else ((account, True, None), (acs_enter account source enforceSourceLimit store, d)))))"

definition Register ::
  "gostring \<Rightarrow> bytes \<Rightarrow> account_state \<Rightarrow> (Account \<times> bool \<times> go_error option) \<times> account_state" where
  "Register username passwordHash = register username passwordHash [] False"

definition accountSourceIdentity :: "net_addr \<Rightarrow> go_error + gostring" where
  "accountSourceIdentity peer =
     (let invalid = Inl (AccountStoreErr ErrInvalidAccountSource);
          of_address = (\<lambda>address.
             let address = Unmap address
             in if \<not> addr_IsValid address \<or> addr_IsUnspecified address \<or> addr_IsMulticast address
                then invalid
                else (case address of
                        Addr6 ip zone \<Rightarrow> Inr (prefix64_String ip)
                      | _ \<Rightarrow> Inr (addr_String address)))
      in case peer of
           NilAddr \<Rightarrow> invalid
         | TCPAddr ip \<Rightarrow> (case AddrFromSlice ip of None \<Rightarrow> invalid | Some address \<Rightarrow> of_address address)
         | OtherAddr network text \<Rightarrow>
             (case SplitHostPort text of
                None \<Rightarrow> if network = [] \<or> text = [] then invalid else Inr (network @ [58] @ text)
              | Some (host, _) \<Rightarrow>
                  (case ParseAddr host of None \<Rightarrow> invalid | Some address \<Rightarrow> of_address address)))"

definition RegisterFromPeer ::
  "gostring \<Rightarrow> bytes \<Rightarrow> net_addr \<Rightarrow> account_state \<Rightarrow>
     (Account \<times> bool \<times> go_error option) \<times> account_state" where
  "RegisterFromPeer username passwordHash peer st =
     (case accountSourceIdentity peer of
        Inl e \<Rightarrow> ((zero_account, False, Some e), st)
      | Inr source \<Rightarrow> register username passwordHash source True st)"

definition LookupHash :: "u64 \<Rightarrow> AccountStore \<Rightarrow> Account option" where
  "LookupHash accountHash store = map_of (acs_byHash store) accountHash"

definition LookupUserID :: "u64 \<Rightarrow> AccountStore \<Rightarrow> Account option" where
  "LookupUserID userID store = map_of (acs_byUserID store) userID"

definition Lookup :: "gostring \<Rightarrow> AccountStore \<Rightarrow> Account option" where
  "Lookup username store = map_of (acs_byUsername store) username"

section \<open>The invariant\<close>

definition accounts_of :: "AccountStore \<Rightarrow> Account list" where
  "accounts_of s = map snd (acs_byUsername s)"

text \<open>The three indexes hold the same accounts, each under its own key.\<close>

definition acs_indexed :: "AccountStore \<Rightarrow> bool" where
  "acs_indexed s \<longleftrightarrow> gm_ok (acs_byUsername s) \<and>
     (\<forall>u a. map_of (acs_byUsername s) u = Some a \<longleftrightarrow> a \<in> set (accounts_of s) \<and> acc_Username a = u) \<and>
     (\<forall>h a. map_of (acs_byHash s) h = Some a \<longleftrightarrow> a \<in> set (accounts_of s) \<and> acc_AccountHash a = h) \<and>
     (\<forall>i a. map_of (acs_byUserID s) i = Some a \<longleftrightarrow> a \<in> set (accounts_of s) \<and> acc_UserID a = i)"

definition acs_inv :: "AccountStore \<Rightarrow> bool" where
  "acs_inv s \<longleftrightarrow> acs_indexed s \<and> int (length (acs_byUsername s)) \<le> acs_maxAccounts s \<and>
     (\<forall>x. gm_count (acs_accountsBySource s) x \<le> acs_maxAccountsPerSource s) \<and>
     acs_nextUserID s \<noteq> 0 \<and>
     (\<forall>a\<in>set (accounts_of s). acc_UserID a < acs_nextUserID s \<and> acc_UserID a \<noteq> 0 \<and>
        acc_AccountHash a = BOZAccountHash (acc_Username a))"

lemma acs_index_indexed:
  assumes s: "acs_indexed s" and u: "map_of (acs_byUsername s) (acc_Username a) = None"
    and h: "map_of (acs_byHash s) (acc_AccountHash a) = None" and i: "map_of (acs_byUserID s) (acc_UserID a) = None"
  shows "acs_indexed (acs_index a s)" and "accounts_of (acs_index a s) = accounts_of s @ [a]"
    and "acs_byUsername (acs_index a s) = acs_byUsername s @ [(acc_Username a, a)]"
proof -
  show e: "acs_byUsername (acs_index a s) = acs_byUsername s @ [(acc_Username a, a)]"
    using u by (simp add: acs_index_def length_update_fresh)
  then show acc: "accounts_of (acs_index a s) = accounts_of s @ [a]"
    by (simp add: accounts_of_def)
  have new: "b \<noteq> a \<and> acc_Username b \<noteq> acc_Username a \<and> acc_AccountHash b \<noteq> acc_AccountHash a \<and> acc_UserID b \<noteq> acc_UserID a"
    if "b \<in> set (accounts_of s)" for b
    using s that u h i unfolding acs_indexed_def by (metis option.distinct(1))
  have ok: "gm_ok (acs_byUsername (acs_index a s))"
    using s u by (auto simp: e acs_indexed_def map_of_eq_None_iff)
  have "map_of (acs_byUsername (acs_index a s)) x = Some b \<longleftrightarrow> b \<in> set (accounts_of s @ [a]) \<and> acc_Username b = x"
    "map_of (acs_byHash (acs_index a s)) y = Some b \<longleftrightarrow> b \<in> set (accounts_of s @ [a]) \<and> acc_AccountHash b = y"
    "map_of (acs_byUserID (acs_index a s)) z = Some b \<longleftrightarrow> b \<in> set (accounts_of s @ [a]) \<and> acc_UserID b = z" for b x y z
    using s new unfolding acs_indexed_def acs_index_def by auto
  with ok show "acs_indexed (acs_index a s)"
    unfolding acs_indexed_def acc by blast
qed

lemma acs_index_fields [simp]:
  "acs_maxAccounts (acs_index a s) = acs_maxAccounts s"
  "acs_maxAccountsPerSource (acs_index a s) = acs_maxAccountsPerSource s"
  "acs_stateFile (acs_index a s) = acs_stateFile s"
  "acs_nextUserID (acs_index a s) = acs_nextUserID s"
  "acs_accountsBySource (acs_index a s) = acs_accountsBySource s"
  "acs_index a (s\<lparr>acs_nextUserID := n\<rparr>) = acs_index a s\<lparr>acs_nextUserID := n\<rparr>"
  by (simp_all add: acs_index_def)

lemma acs_indexed_other [simp]:
  "acs_indexed (s\<lparr>acs_nextUserID := n\<rparr>) = acs_indexed s"
  "acs_indexed (s\<lparr>acs_accountsBySource := m\<rparr>) = acs_indexed s"
  "accounts_of (s\<lparr>acs_nextUserID := n\<rparr>) = accounts_of s"
  "accounts_of (s\<lparr>acs_accountsBySource := m\<rparr>) = accounts_of s"
  by (simp_all add: acs_indexed_def accounts_of_def)

lemma acs_enter_eq:
  "acs_enter a source limit s = acs_index a s\<lparr>acs_nextUserID := acs_nextUserID s + 1,
     acs_accountsBySource := (if limit then AList.update source (gm_count (acs_accountsBySource s) source + 1)
       (acs_accountsBySource s) else acs_accountsBySource s)\<rparr>"
  by (simp add: acs_enter_def Let_def acs_index_def)

text \<open>What \<^verbatim>\<open>register\<close> can do.\<close>

lemma register_cases:
  obtains (kept) a c e d' where "register u pw source limit (s, d) = ((a, c, e), (s, d'))" "\<not> c"
    "dk_file d' = dk_file d \<or> ((\<exists>x. e = Some x) \<and> acs_stateFile s \<noteq> [] \<and>
       dk_file d' = Some (written_file (stored_of (accounts_of s @ [new_account u pw s]))))"
    "e = None \<longrightarrow> map_of (acs_byUsername s) u = Some a"
  | (made) d' where "register u pw source limit (s, d) = ((new_account u pw s, True, None),
        (acs_enter (new_account u pw s) source limit s, d'))"
    "map_of (acs_byUsername s) u = None" "map_of (acs_byHash s) (BOZAccountHash u) = None"
    "int (length (acs_byUsername s)) < acs_maxAccounts s"
    "limit \<longrightarrow> gm_count (acs_accountsBySource s) source < acs_maxAccountsPerSource s"
    "dk_file d' = (if acs_stateFile s = [] then dk_file d
       else Some (written_file (stored_of (accounts_of s @ [new_account u pw s]))))"
proof -
  let ?a = "new_account u pw s"
  let ?early = "map_of (acs_byUsername s) u \<noteq> None \<or> acs_maxAccounts s \<le> int (length (acs_byUsername s)) \<or>
    (limit \<and> acs_maxAccountsPerSource s \<le> gm_count (acs_accountsBySource s) source) \<or>
    map_of (acs_byHash s) (BOZAccountHash u) \<noteq> None"
  show ?thesis
  proof (cases ?early)
    case True
    then show ?thesis
      by (cases "map_of (acs_byUsername s) u"; cases "map_of (acs_byHash s) (BOZAccountHash u)";
          cases "acs_maxAccounts s \<le> int (length (acs_byUsername s))";
          cases "limit \<and> acs_maxAccountsPerSource s \<le> gm_count (acs_accountsBySource s) source")
        (auto intro!: kept simp: register_def)
  next
    case False
    then have n: "map_of (acs_byUsername s) u = None" "map_of (acs_byHash s) (BOZAccountHash u) = None"
      "int (length (acs_byUsername s)) < acs_maxAccounts s"
      "limit \<longrightarrow> gm_count (acs_accountsBySource s) source < acs_maxAccountsPerSource s" by auto
    show ?thesis
    proof (cases "acs_stateFile s = []")
      case True
      with n show ?thesis by (intro made [of d]) (auto simp: register_def Let_def)
    next
      case sf: False
      obtain r d' where w: "writeAccountFile (accounts_of s @ [?a]) d = (r, d')" by (metis surj_pair)
      show ?thesis
      proof (cases r)
        case (Inl e)
        then have "register u pw source limit (s, d) = ((zero_account, False, Some e), (s, d'))"
          using n sf w by (auto simp: register_def Let_def accounts_of_def)
        then show ?thesis
          using writeAccountFile_result [OF w] Inl sf by (intro kept [of zero_account False "Some e" d']) auto
      next
        case (Inr x)
        then have "register u pw source limit (s, d) = ((?a, True, None), (acs_enter ?a source limit s, d'))"
          using n sf w by (auto simp: register_def Let_def accounts_of_def)
        then show ?thesis
          using writeAccountFile_result [OF w] Inr n sf by (intro made [of d']) auto
      qed
    qed
  qed
qed

lemma acs_inv_enter:
  assumes i: "acs_inv s" and n: "unat (acs_nextUserID s) + 1 < 2 ^ 64"
    and f: "map_of (acs_byUsername s) u = None" "map_of (acs_byHash s) (BOZAccountHash u) = None"
    and l: "int (length (acs_byUsername s)) < acs_maxAccounts s"
    "limit \<longrightarrow> gm_count (acs_accountsBySource s) source < acs_maxAccountsPerSource s"
  shows "acs_inv (acs_enter (new_account u pw s) source limit s)"
    and "accounts_of (acs_enter (new_account u pw s) source limit s) = accounts_of s @ [new_account u pw s]"
proof -
  let ?a = "new_account u pw s"
  have id: "map_of (acs_byUserID s) (acc_UserID ?a) = None"
    using i by (cases "map_of (acs_byUserID s) (acs_nextUserID s)")
      (auto simp: acs_inv_def acs_indexed_def new_account_def)
  have names: "acc_Username ?a = u" "acc_AccountHash ?a = BOZAccountHash u" "acc_UserID ?a = acs_nextUserID s"
    by (simp_all add: new_account_def)
  have ix: "acs_indexed (acs_index ?a s)" "accounts_of (acs_index ?a s) = accounts_of s @ [?a]"
    "acs_byUsername (acs_index ?a s) = acs_byUsername s @ [(u, ?a)]"
    using acs_index_indexed [of s ?a] i f id by (simp_all add: acs_inv_def names)
  show acc: "accounts_of (acs_enter ?a source limit s) = accounts_of s @ [?a]"
    using ix(2) by (simp add: acs_enter_eq accounts_of_def)
  have "unat (acs_nextUserID s + 1) = unat (acs_nextUserID s) + 1"
    using n iffD1 [OF unat_add_lem, of "acs_nextUserID s" 1] by simp
  then have up: "acs_nextUserID s < acs_nextUserID s + 1" "acs_nextUserID s + 1 \<noteq> 0"
    by (auto simp: word_less_nat_alt simp flip: unat_eq_zero)
  have "acs_indexed (acs_enter ?a source limit s)"
    using ix(1) by (simp add: acs_indexed_def acs_enter_eq accounts_of_def)
  moreover have "gm_count (acs_accountsBySource (acs_enter ?a source limit s)) x \<le> acs_maxAccountsPerSource s" for x
    using i l(2) by (auto simp: acs_inv_def acs_enter_eq)
  ultimately show "acs_inv (acs_enter ?a source limit s)"
    using i up l(1) ix(3) unfolding acs_inv_def acc
    by (auto simp: acs_enter_eq names intro: less_trans)
qed

section \<open>Loading\<close>

lemma distinct_map_mid: "distinct (map f (xs @ a # ys)) \<Longrightarrow> \<forall>b\<in>set xs. f b \<noteq> f a"
  by (induction xs) auto

lemma u64_up: "(w :: u64) + 1 \<noteq> 0 \<Longrightarrow> w < w + 1"
  by (metis add.commute lessI unatSuc word_less_nat_alt)

lemma account_distinct_fresh:
  assumes "accounts_distinct (accounts_of s @ a # xs)" and "acs_indexed s"
  shows "map_of (acs_byUsername s) (acc_Username a) = None" "map_of (acs_byHash s) (acc_AccountHash a) = None"
    "map_of (acs_byUserID s) (acc_UserID a) = None"
proof -
  have n: "\<forall>b\<in>set (accounts_of s). acc_Username b \<noteq> acc_Username a"
    "\<forall>b\<in>set (accounts_of s). acc_AccountHash b \<noteq> acc_AccountHash a"
    "\<forall>b\<in>set (accounts_of s). acc_UserID b \<noteq> acc_UserID a"
    using assms(1) unfolding accounts_distinct_def by (blast dest: distinct_map_mid)+
  show "map_of (acs_byUsername s) (acc_Username a) = None"
    using n(1) assms(2) by (cases "map_of (acs_byUsername s) (acc_Username a)") (auto simp: acs_indexed_def)
  show "map_of (acs_byHash s) (acc_AccountHash a) = None"
    using n(2) assms(2) by (cases "map_of (acs_byHash s) (acc_AccountHash a)") (auto simp: acs_indexed_def)
  show "map_of (acs_byUserID s) (acc_UserID a) = None"
    using n(3) assms(2) by (cases "map_of (acs_byUserID s) (acc_UserID a)") (auto simp: acs_indexed_def)
qed

lemma load_accounts_inv:
  assumes "load_accounts xs s = Inr s'" and "acs_inv s" and "\<forall>a\<in>set xs. account_ok a"
    and "accounts_distinct (accounts_of s @ xs)" and "int (length (accounts_of s @ xs)) \<le> acs_maxAccounts s"
  shows "acs_inv s' \<and> accounts_of s' = accounts_of s @ xs \<and> acs_maxAccounts s' = acs_maxAccounts s \<and>
    acs_maxAccountsPerSource s' = acs_maxAccountsPerSource s \<and> acs_stateFile s' = acs_stateFile s \<and>
    acs_accountsBySource s' = acs_accountsBySource s"
  using assms
proof (induction xs arbitrary: s)
  case (Cons a xs)
  let ?s1 = "acs_index a s"
  define s2 where "s2 = (if acc_UserID a \<ge> acs_nextUserID s then ?s1\<lparr>acs_nextUserID := acc_UserID a + 1\<rparr> else ?s1)"
  have r: "load_accounts xs s2 = Inr s'" and nz: "acs_nextUserID s2 \<noteq> 0"
    using Cons.prems(1,2) by (auto simp: s2_def Let_def acs_inv_def split: if_splits)
  have ix: "acs_indexed ?s1" "accounts_of ?s1 = accounts_of s @ [a]"
    "acs_byUsername ?s1 = acs_byUsername s @ [(acc_Username a, a)]"
    using acs_index_indexed [OF _ account_distinct_fresh [OF Cons.prems(4)]] Cons.prems(2)
    by (simp_all add: acs_inv_def)
  have ix2: "acs_indexed s2" "accounts_of s2 = accounts_of s @ [a]"
    using ix(1,2) by (simp_all add: s2_def)
  have up: "acc_UserID a < acs_nextUserID s2" "acs_nextUserID s \<le> acs_nextUserID s2"
  proof -
    show "acc_UserID a < acs_nextUserID s2" using nz u64_up [of "acc_UserID a"] by (auto simp: s2_def split: if_splits)
    then show "acs_nextUserID s \<le> acs_nextUserID s2" by (auto simp: s2_def split: if_splits)
  qed
  have a: "account_ok a" using Cons.prems(3) by simp
  have len: "int (length (acs_byUsername s2)) \<le> acs_maxAccounts s"
    using Cons.prems(5) ix(3) by (auto simp: s2_def accounts_of_def)
  have "acs_inv s2"
    unfolding acs_inv_def ix2(2)
    using ix2(1) len nz Cons.prems(2) up a
    by (auto simp: acs_inv_def account_ok_def s2_def split: if_splits)
  then have "acs_inv s2" .
  from Cons.IH [OF r this] Cons.prems(3-5) ix2(2) show ?case by (auto simp: s2_def)
qed simp

text \<open>Accounts whose identifiers increase from the next one on.\<close>

lemma load_accounts_sorted:
  assumes "sorted_wrt (<) (map acc_UserID xs)" and "\<forall>a\<in>set xs. acs_nextUserID s \<le> acc_UserID a \<and> acc_UserID a + 1 \<noteq> 0"
    and "xs \<noteq> []"
  shows "\<exists>s'. load_accounts xs s = Inr s' \<and> acs_nextUserID s' = acc_UserID (last xs) + 1"
  using assms
proof (induction xs arbitrary: s)
  case (Cons a xs)
  let ?s = "acs_index a s\<lparr>acs_nextUserID := acc_UserID a + 1\<rparr>"
  have step: "load_accounts (a # xs) s = load_accounts xs ?s"
    using Cons.prems(2) by (simp add: Let_def)
  show ?case
  proof (cases "xs = []")
    case True
    with step show ?thesis by simp
  next
    case False
    have "acc_UserID a + 1 \<le> acc_UserID b" if "b \<in> set xs" for b
      using Cons.prems(1) that by (auto simp: inc_le)
    with Cons.IH [of ?s] Cons.prems False step show ?thesis by auto
  qed
qed simp

lemma acs_inv_empty: "0 < n \<Longrightarrow> 0 < m \<Longrightarrow> acs_inv (empty_store n m f) \<and> accounts_of (empty_store n m f) = []"
  by (simp add: empty_store_def acs_inv_def acs_indexed_def accounts_of_def)

lemma readAccountFile_result:
  assumes "readAccountFile maximum d = (Inr xs, d')" and "0 \<le> maximum"
  shows "(\<forall>a\<in>set xs. account_ok a) \<and> accounts_distinct xs \<and> int (length xs) \<le> maximum"
proof (cases "xs = []")
  case True
  with assms(2) show ?thesis by (simp add: accounts_distinct_def)
next
  case False
  with assms(1) have "\<exists>f. load_file maximum f = Inr xs"
    by (auto simp: readAccountFile_def split: prod.splits sum.splits option.splits if_splits)
  then show ?thesis using load_file_result by blast
qed

lemma NewAccountStore_inv:
  assumes "NewAccountStore config d = (Inr s, d')"
  shows "acs_inv s \<and> (\<forall>a\<in>set (accounts_of s). account_ok a) \<and>
    1 \<le> acs_maxAccounts s \<and> acs_maxAccounts s \<le> 1000000 \<and>
    1 \<le> acs_maxAccountsPerSource s \<and> acs_maxAccountsPerSource s \<le> 1000000"
proof -
  define n where "n = (if acfg_MaxAccounts config = 0 then DefaultMaxAccounts else acfg_MaxAccounts config)"
  define m where "m = (if acfg_MaxAccountsPerSource config = 0 then DefaultMaxAccountsPerSource
    else acfg_MaxAccountsPerSource config)"
  let ?s = "empty_store n m (acfg_StateFile config)"
  have nm: "\<not> (n < 1 \<or> n > 1000000)" "\<not> (m < 1 \<or> m > 1000000)"
    using assms unfolding NewAccountStore_def Let_def n_def [symmetric] m_def [symmetric]
    by (auto split: if_splits)
  then have empty: "acs_inv ?s \<and> accounts_of ?s = []" by (intro acs_inv_empty) auto
  have maxi: "acs_maxAccounts ?s = n" by (simp add: empty_store_def)
  show ?thesis
  proof (cases "acfg_StateFile config = []")
    case True
    then have "s = ?s"
      using assms nm unfolding NewAccountStore_def Let_def n_def [symmetric] m_def [symmetric]
      by (simp add: empty_store_def)
    with empty nm show ?thesis by (simp add: empty_store_def)
  next
    case False
    have "go_bind ensureAccountFileDirectory (\<lambda>_. go_bind (readAccountFile n)
        (\<lambda>xs d. (load_accounts xs ?s, d))) d = (Inr s, d')"
      using assms nm False unfolding NewAccountStore_def Let_def n_def [symmetric] m_def [symmetric]
      by (simp add: empty_store_def)
    then obtain xs d1 d2 where rd: "readAccountFile n d1 = (Inr xs, d2)" and ld: "load_accounts xs ?s = Inr s"
      unfolding go_bind_eq_Inr by auto
    have xs: "\<forall>a\<in>set xs. account_ok a" "accounts_distinct xs" "int (length xs) \<le> n"
      using readAccountFile_result [OF rd] nm by auto
    then have "acs_inv s \<and> accounts_of s = xs \<and> acs_maxAccounts s = n \<and> acs_maxAccountsPerSource s = m"
      using load_accounts_inv [OF ld] empty maxi by (simp add: empty_store_def)
    with xs(1) nm show ?thesis by simp
  qed
qed

section \<open>Runs\<close>

datatype account_op =
    AccRegister gostring bytes
  | AccRegisterFromPeer gostring bytes net_addr

fun acs_step :: "account_op \<Rightarrow> account_state \<Rightarrow> account_state" where
  "acs_step (AccRegister u pw) st = snd (Register u pw st)"
| "acs_step (AccRegisterFromPeer u pw peer) st = snd (RegisterFromPeer u pw peer st)"

definition acs_run :: "account_op list \<Rightarrow> account_state \<Rightarrow> account_state" where
  "acs_run ops st = fold acs_step ops st"

text \<open>The handler registers names the parser has accepted and password hashes of 24 bytes.\<close>

fun acs_op_ok :: "account_op \<Rightarrow> bool" where
  "acs_op_ok (AccRegister u pw) = (valid_username u \<and> length pw = 24)"
| "acs_op_ok (AccRegisterFromPeer u pw peer) = (valid_username u \<and> length pw = 24)"

lemma acs_step_cases:
  obtains (kept) d' where "acs_step op (s, d) = (s, d')"
  | (made) u pw source limit d' where "acs_step op (s, d) = (acs_enter (new_account u pw s) source limit s, d')"
      "map_of (acs_byUsername s) u = None" "map_of (acs_byHash s) (BOZAccountHash u) = None"
      "int (length (acs_byUsername s)) < acs_maxAccounts s"
      "limit \<longrightarrow> gm_count (acs_accountsBySource s) source < acs_maxAccountsPerSource s"
      "acs_op_ok op \<Longrightarrow> valid_username u \<and> length pw = 24"
proof (cases op)
  case (AccRegister u pw)
  show ?thesis
    by (rule register_cases [of u pw "[]" False s d]) (use AccRegister in \<open>auto simp: Register_def intro: kept made [of u pw]\<close>)
next
  case (AccRegisterFromPeer u pw peer)
  show ?thesis
  proof (cases "accountSourceIdentity peer")
    case (Inl e)
    then show ?thesis by (intro kept [of d]) (simp add: AccRegisterFromPeer RegisterFromPeer_def)
  next
    case (Inr source)
    show ?thesis
      by (rule register_cases [of u pw source True s d])
        (use AccRegisterFromPeer Inr in \<open>auto simp: RegisterFromPeer_def intro: kept made [of u pw]\<close>)
  qed
qed

text \<open>A later store has the same configuration and at least the same accounts.\<close>

definition acs_extends :: "AccountStore \<Rightarrow> AccountStore \<Rightarrow> bool" where
  "acs_extends s s' \<longleftrightarrow> set (accounts_of s) \<subseteq> set (accounts_of s') \<and>
     acs_maxAccounts s' = acs_maxAccounts s \<and> acs_maxAccountsPerSource s' = acs_maxAccountsPerSource s \<and>
     acs_stateFile s' = acs_stateFile s"

lemma acs_extends_refl [simp]: "acs_extends s s"
  by (simp add: acs_extends_def)

lemma acs_extends_trans: "acs_extends s t \<Longrightarrow> acs_extends t u \<Longrightarrow> acs_extends s u"
  unfolding acs_extends_def by force

definition accounts_ok :: "AccountStore \<Rightarrow> bool" where
  "accounts_ok s \<longleftrightarrow> (\<forall>a\<in>set (accounts_of s). account_ok a)"

lemma acs_step_inv:
  assumes i: "acs_inv s" and n: "unat (acs_nextUserID s) + 1 < 2 ^ 64" and st: "acs_step op (s, d) = (s', d')"
  shows "acs_inv s'" and "acs_extends s s'" and "unat (acs_nextUserID s') \<le> unat (acs_nextUserID s) + 1"
    and "acs_op_ok op \<Longrightarrow> accounts_ok s \<Longrightarrow> accounts_ok s'"
proof -
  have "acs_inv s' \<and> acs_extends s s' \<and> unat (acs_nextUserID s') \<le> unat (acs_nextUserID s) + 1 \<and>
    (acs_op_ok op \<longrightarrow> accounts_ok s \<longrightarrow> accounts_ok s')"
  proof (rule acs_step_cases [of op s d])
    fix d1
    assume "acs_step op (s, d) = (s, d1)"
    with i st show ?thesis by simp
  next
    fix u pw source limit d1
    assume step: "acs_step op (s, d) = (acs_enter (new_account u pw s) source limit s, d1)"
      and new: "map_of (acs_byUsername s) u = None" "map_of (acs_byHash s) (BOZAccountHash u) = None"
        "int (length (acs_byUsername s)) < acs_maxAccounts s"
        "limit \<longrightarrow> gm_count (acs_accountsBySource s) source < acs_maxAccountsPerSource s"
      and ok: "acs_op_ok op \<Longrightarrow> valid_username u \<and> length pw = 24"
    have s': "s' = acs_enter (new_account u pw s) source limit s" using step st by simp
    have "acs_nextUserID s \<noteq> 0" using i by (simp add: acs_inv_def)
    then have "account_ok (new_account u pw s)" if "acs_op_ok op"
      using ok [OF that] by (simp add: account_ok_def new_account_def)
    moreover have "unat (acs_nextUserID s + 1) = unat (acs_nextUserID s) + 1"
      using n iffD1 [OF unat_add_lem, of "acs_nextUserID s" 1] by simp
    moreover have "acs_extends s s'"
      using acs_inv_enter(2) [OF i n new] unfolding s' acs_extends_def by (auto simp: acs_enter_eq)
    ultimately show ?thesis
      using acs_inv_enter [OF i n new] unfolding s' accounts_ok_def by (auto simp: acs_enter_eq)
  qed
  then show "acs_inv s'" "acs_extends s s'" "unat (acs_nextUserID s') \<le> unat (acs_nextUserID s) + 1"
    "acs_op_ok op \<Longrightarrow> accounts_ok s \<Longrightarrow> accounts_ok s'" by blast+
qed

lemma acs_run_inv:
  assumes "acs_inv s" and "unat (acs_nextUserID s) + length ops < 2 ^ 64" and "acs_run ops (s, d) = (s', d')"
  shows "acs_inv s' \<and> acs_extends s s' \<and> unat (acs_nextUserID s') \<le> unat (acs_nextUserID s) + length ops \<and>
    (list_all acs_op_ok ops \<longrightarrow> accounts_ok s \<longrightarrow> accounts_ok s')"
  using assms
proof (induction ops arbitrary: s d)
  case (Cons op ops)
  obtain s1 d1 where st: "acs_step op (s, d) = (s1, d1)" by (metis surj_pair)
  have n: "unat (acs_nextUserID s) + 1 < 2 ^ 64" using Cons.prems(2) by simp
  note one = acs_step_inv [OF Cons.prems(1) n st]
  have "acs_run ops (s1, d1) = (s', d')" using Cons.prems(3) st by (simp add: acs_run_def)
  moreover have "unat (acs_nextUserID s1) + length ops < 2 ^ 64" using one(3) Cons.prems(2) by simp
  ultimately have two: "acs_inv s' \<and> acs_extends s1 s' \<and>
      unat (acs_nextUserID s') \<le> unat (acs_nextUserID s1) + length ops \<and>
      (list_all acs_op_ok ops \<longrightarrow> accounts_ok s1 \<longrightarrow> accounts_ok s')"
    using Cons.IH [OF one(1)] by blast
  then have "unat (acs_nextUserID s') \<le> unat (acs_nextUserID s) + length (op # ops)" using one(3) by simp
  then show ?case using two one(2,4) acs_extends_trans by auto
qed (simp add: acs_run_def)

lemma acs_extends_lookup:
  assumes "acs_extends s s'" and "acs_inv s" and "acs_inv s'"
  shows "Lookup u s = Some a \<Longrightarrow> Lookup u s' = Some a"
    and "LookupHash h s = Some a \<Longrightarrow> LookupHash h s' = Some a"
    and "LookupUserID i s = Some a \<Longrightarrow> LookupUserID i s' = Some a"
  using assms unfolding Lookup_def LookupHash_def LookupUserID_def acs_extends_def acs_inv_def acs_indexed_def
  by auto

section \<open>Properties\<close>

text \<open>C11: after any sequence of registrations on a store that was opened, from a file or empty, the
  three indexes hold the same accounts, each under its name, the hash of its name and its own
  nonzero identifier, no two alike; the number of accounts and every source's count stay within
  their limits.\<close>

theorem account_store_invariant:
  assumes "NewAccountStore config d0 = (Inr s0, d1)" and "acs_run ops (s0, d1) = (s, d)"
    and "unat (acs_nextUserID s0) + length ops < 2 ^ 64"
  shows "(Lookup u s = Some a \<longleftrightarrow> a \<in> set (accounts_of s) \<and> acc_Username a = u) \<and>
    (LookupHash h s = Some a \<longleftrightarrow> a \<in> set (accounts_of s) \<and> BOZAccountHash (acc_Username a) = h) \<and>
    (LookupUserID i s = Some a \<longleftrightarrow> a \<in> set (accounts_of s) \<and> acc_UserID a = i) \<and>
    LookupUserID 0 s = None \<and> int (length (accounts_of s)) \<le> acs_maxAccounts s0 \<and>
    gm_count (acs_accountsBySource s) x \<le> acs_maxAccountsPerSource s0"
proof -
  have "acs_inv s0" using NewAccountStore_inv [OF assms(1)] by simp
  from acs_run_inv [OF this assms(3,2)] have i: "acs_inv s" and e: "acs_extends s0 s" by simp_all
  have ix: "acs_indexed s" using i by (simp add: acs_inv_def)
  have hash: "b \<in> set (accounts_of s) \<Longrightarrow> acc_AccountHash b = BOZAccountHash (acc_Username b) \<and> acc_UserID b \<noteq> 0" for b
    using i by (simp add: acs_inv_def)
  have "LookupUserID 0 s = None"
    using ix hash by (cases "LookupUserID 0 s") (auto simp: LookupUserID_def acs_indexed_def)
  moreover have "LookupHash h s = Some a \<longleftrightarrow> a \<in> set (accounts_of s) \<and> BOZAccountHash (acc_Username a) = h"
    using ix hash unfolding LookupHash_def acs_indexed_def by metis
  moreover have "Lookup u s = Some a \<longleftrightarrow> a \<in> set (accounts_of s) \<and> acc_Username a = u"
    "LookupUserID i s = Some a \<longleftrightarrow> a \<in> set (accounts_of s) \<and> acc_UserID a = i"
    using ix unfolding Lookup_def LookupUserID_def acs_indexed_def by blast+
  moreover have "int (length (accounts_of s)) \<le> acs_maxAccounts s0"
    "gm_count (acs_accountsBySource s) x \<le> acs_maxAccountsPerSource s0"
    using i e by (simp_all add: acs_inv_def acs_extends_def accounts_of_def)
  ultimately show ?thesis by blast
qed

definition empty_disk :: disk where
  "empty_disk = \<lparr>dk_file = None, dk_temp = None, dk_script = []\<rparr>"

definition example_store :: AccountStore where
  "example_store = empty_store 4096 32 []"

lemma example_new: "NewAccountStore \<lparr>acfg_MaxAccounts = 0, acfg_MaxAccountsPerSource = 0, acfg_StateFile = []\<rparr> empty_disk =
   (Inr example_store, empty_disk)"
  by (simp add: NewAccountStore_def Let_def example_store_def empty_store_def DefaultMaxAccounts_def
      DefaultMaxAccountsPerSource_def)

theorem account_store_invariant_witness:
  "LookupUserID 0 (fst (acs_run [AccRegister [97] (replicate 24 1), AccRegister [98] (replicate 24 2)] (example_store, empty_disk))) = None"
proof -
  let ?st = "acs_run [AccRegister [97] (replicate 24 1), AccRegister [98] (replicate 24 2)] (example_store, empty_disk)"
  have "?st = (fst ?st, snd ?st)" by simp
  moreover have "unat (acs_nextUserID example_store) + length [AccRegister [97] (replicate 24 1), AccRegister [98] (replicate 24 2)] < 2 ^ 64"
    by (simp add: example_store_def empty_store_def)
  ultimately show ?thesis using account_store_invariant [OF example_new] by blast
qed

text \<open>C28: an account never changes and never disappears: whatever is registered later, also under the
  same name with another password, a name, hash or identifier that finds an account keeps finding
  exactly that account.\<close>

theorem accounts_never_change:
  assumes "NewAccountStore config d0 = (Inr s0, d1)" and "acs_run (before @ later) (s0, d1) = (s', d')"
    and "acs_run before (s0, d1) = (s, d)" and "unat (acs_nextUserID s0) + length (before @ later) < 2 ^ 64"
  shows "(Lookup u s = Some a \<longrightarrow> Lookup u s' = Some a) \<and> (LookupHash h s = Some a \<longrightarrow> LookupHash h s' = Some a) \<and>
    (LookupUserID i s = Some a \<longrightarrow> LookupUserID i s' = Some a)"
proof -
  have "acs_inv s0" using NewAccountStore_inv [OF assms(1)] by simp
  from acs_run_inv [OF this _ assms(3)] assms(4)
  have i: "acs_inv s" and n: "unat (acs_nextUserID s) + length later < 2 ^ 64" by auto
  have "acs_run later (s, d) = (s', d')" using assms(2,3) by (simp add: acs_run_def)
  from acs_run_inv [OF i n this] acs_extends_lookup [OF _ i] show ?thesis by blast
qed

theorem accounts_never_change_witness:
  "\<exists>a. Lookup [97] (fst (acs_run [AccRegister [97] (replicate 24 1)] (example_store, empty_disk))) = Some a \<and>
     Lookup [97] (fst (acs_run ([AccRegister [97] (replicate 24 1)] @ [AccRegister [97] (replicate 24 2)])
       (example_store, empty_disk))) = Some a"
proof -
  let ?before = "[AccRegister [97] (replicate 24 1)]" and ?later = "[AccRegister [97] (replicate 24 2)]"
  let ?st = "acs_run ?before (example_store, empty_disk)"
  let ?st' = "acs_run (?before @ ?later) (example_store, empty_disk)"
  have "unat (acs_nextUserID example_store) + length (?before @ ?later) < 2 ^ 64"
    by (simp add: example_store_def empty_store_def)
  with accounts_never_change [OF example_new, of ?before ?later "fst ?st'" "snd ?st'" "fst ?st" "snd ?st" "[97]"]
  have keep: "Lookup [97] (fst ?st) = Some a \<longrightarrow> Lookup [97] (fst ?st') = Some a" for a by simp
  have "\<exists>a. Lookup [97] (fst ?st) = Some a"
    by (simp add: Lookup_def acs_run_def Register_def register_def example_store_def empty_store_def
        acs_enter_eq acs_index_def new_account_def Let_def)
  with keep show ?thesis by blast
qed

text \<open>C29: when a registration reports an error, the accounts in memory are as before, and the file is
  either as before or, when only making the rename durable failed, the complete new file.\<close>

theorem register_error_keeps_state:
  assumes "register u pw source limit (s, d) = ((a, created, Some e), (s', d'))"
  shows "s' = s \<and> \<not> created \<and>
    (dk_file d' = dk_file d \<or> dk_file d' = Some (written_file (stored_of (accounts_of s @ [new_account u pw s]))))"
  by (rule register_cases [of u pw source limit s d]) (use assms in auto)

definition failing_disk :: disk where
  "failing_disk = empty_disk\<lparr>dk_script := [Some (Message ''no space'')]\<rparr>"

theorem register_error_keeps_state_witness:
  "snd (register [97] (replicate 24 1) [] False (example_store\<lparr>acs_stateFile := [47]\<rparr>, failing_disk)) =
     (example_store\<lparr>acs_stateFile := [47]\<rparr>, empty_disk)"
proof -
  have "register [97] (replicate 24 1) [] False (example_store\<lparr>acs_stateFile := [47]\<rparr>, failing_disk) =
      ((zero_account, False, Some (Context ''auth: create temporary account file'' (Message ''no space''))),
       (example_store\<lparr>acs_stateFile := [47]\<rparr>, empty_disk))"
    by (simp add: register_def example_store_def empty_store_def Let_def writeAccountFile_def go_bind_def go_wrap_def
        syscall_def failing_disk_def empty_disk_def)
  with register_error_keeps_state [OF this] show ?thesis by simp
qed

text \<open>The order in which accounts are written.\<close>

lemma sorted_ids:
  assumes "distinct (map acc_UserID xs)"
  shows "sorted_wrt (<) (map acc_UserID (sort_key acc_UserID xs))"
proof -
  have "sorted (map acc_UserID (sort_key acc_UserID xs))" by simp
  moreover have "distinct (map acc_UserID (sort_key acc_UserID xs))"
    using assms by (simp add: distinct_map cong: conj_cong)
  ultimately show ?thesis by (simp add: strict_sorted_iff)
qed

lemma accounts_distinct_inv: "acs_inv s \<Longrightarrow> accounts_distinct (accounts_of s)"
proof -
  assume "acs_inv s"
  then have ix: "acs_indexed s" by (simp add: acs_inv_def)
  then have d: "distinct (map fst (acs_byUsername s))" by (simp add: acs_indexed_def)
  have names: "map acc_Username (accounts_of s) = map fst (acs_byUsername s)"
  proof -
    have "acc_Username a = u" if "(u, a) \<in> set (acs_byUsername s)" for u a
      using map_of_is_SomeI [OF d that] ix by (simp add: acs_indexed_def)
    then show ?thesis by (auto simp: accounts_of_def)
  qed
  have inj: "inj_on acc_UserID (set (accounts_of s))"
  proof (rule inj_onI)
    fix a b
    assume "a \<in> set (accounts_of s)" "b \<in> set (accounts_of s)" "acc_UserID a = acc_UserID b"
    then have "map_of (acs_byUserID s) (acc_UserID b) = Some a" "map_of (acs_byUserID s) (acc_UserID b) = Some b"
      using ix by (simp_all add: acs_indexed_def)
    then show "a = b" by simp
  qed
  moreover have "inj_on acc_AccountHash (set (accounts_of s))"
  proof (rule inj_onI)
    fix a b
    assume "a \<in> set (accounts_of s)" "b \<in> set (accounts_of s)" "acc_AccountHash a = acc_AccountHash b"
    then have "map_of (acs_byHash s) (acc_AccountHash b) = Some a" "map_of (acs_byHash s) (acc_AccountHash b) = Some b"
      using ix by (simp_all add: acs_indexed_def)
    then show "a = b" by simp
  qed
  moreover have dn: "distinct (map acc_Username (accounts_of s))" using d names by simp
  moreover from dn have "distinct (accounts_of s)" by (simp add: distinct_map)
  ultimately show ?thesis unfolding accounts_distinct_def by (simp add: distinct_map)
qed

lemma option_eqI: "(\<And>a. x = Some a \<longleftrightarrow> y = Some a) \<Longrightarrow> x = y"
  by (cases x; cases y) auto

lemma acs_index_same:
  assumes "acs_indexed s" and "acs_indexed t" and "set (accounts_of s) = set (accounts_of t)"
  shows "Lookup u s = Lookup u t" "LookupHash h s = LookupHash h t" "LookupUserID i s = LookupUserID i t"
  by (rule option_eqI, use assms in \<open>simp add: Lookup_def LookupHash_def LookupUserID_def acs_indexed_def\<close>)+

lemma u64_below: "(w :: u64) < v \<Longrightarrow> w + 1 \<noteq> 0"
proof
  assume "w < v" "w + 1 = 0"
  then have "w = -1" by (simp add: eq_neg_iff_add_eq_0)
  with \<open>w < v\<close> show False by (simp add: not_less [symmetric] word_order.not_eq_extremum)
qed

lemma u64_below_Suc: "(b :: u64) < a + 1 \<Longrightarrow> b \<le> a"
  using inc_le [of a b] by (meson leD linorder_not_le)

lemma reload:
  assumes i: "acs_inv s" and ok: "accounts_ok s" and sf: "acs_stateFile s \<noteq> []"
    and lim: "1 \<le> acs_maxAccounts s" "acs_maxAccounts s \<le> 1000000"
      "1 \<le> acs_maxAccountsPerSource s" "acs_maxAccountsPerSource s \<le> 1000000"
    and small: "length (accounts_of s) \<le> 20000" and d: "dk_script d = []"
      "dk_file d = Some (written_file (stored_of (accounts_of s)))"
    and top: "a \<in> set (accounts_of s)" "acs_nextUserID s = acc_UserID a + 1"
  shows "\<exists>t. NewAccountStore \<lparr>acfg_MaxAccounts = acs_maxAccounts s,
       acfg_MaxAccountsPerSource = acs_maxAccountsPerSource s, acfg_StateFile = acs_stateFile s\<rparr> d = (Inr t, d) \<and>
     acs_inv t \<and> set (accounts_of t) = set (accounts_of s) \<and> acs_nextUserID t = acs_nextUserID s"
proof -
  let ?xs = "sort_key acc_UserID (accounts_of s)"
  let ?e = "empty_store (acs_maxAccounts s) (acs_maxAccountsPerSource s) (acs_stateFile s)"
  have dist: "accounts_distinct (accounts_of s)" using i by (rule accounts_distinct_inv)
  have oks: "\<forall>b\<in>set (accounts_of s). account_ok b" using ok by (simp add: accounts_ok_def)
  have len: "int (length (accounts_of s)) \<le> acs_maxAccounts s"
    using i by (simp add: acs_inv_def accounts_of_def)
  have "length (json_text (stored_of (accounts_of s))) \<le> maxAccountFileBytes"
    using length_json_text(2) [OF oks] small by (simp add: maxAccountFileBytes_def)
  from load_written [OF oks dist len this] have rd: "readAccountFile (acs_maxAccounts s) d = (Inr ?xs, d)"
    using d by (simp add: readAccountFile_def syscall_ok)
  have sw: "sorted_wrt (<) (map acc_UserID ?xs)" using dist by (intro sorted_ids) (simp add: accounts_distinct_def)
  have ids: "acc_UserID b < acs_nextUserID s \<and> acc_UserID b \<noteq> 0" if "b \<in> set (accounts_of s)" for b
    using i that by (simp add: acs_inv_def)
  have bounds: "acs_nextUserID ?e \<le> acc_UserID b \<and> acc_UserID b + 1 \<noteq> 0" if "b \<in> set ?xs" for b
  proof -
    have "b \<in> set (accounts_of s)" using that by simp
    from ids [OF this] u64_below show ?thesis
      by (auto simp: empty_store_def word_le_nat_alt Suc_le_eq unat_gt_0)
  qed
  have ne: "?xs \<noteq> []" using top(1) by (metis empty_iff list.set(1) set_sort)
  have le: "acc_UserID b \<le> acc_UserID a" if "b \<in> set ?xs" for b
    using ids [of b] that top(2) u64_below_Suc by auto
  have last: "acc_UserID (last ?xs) = acc_UserID a"
  proof (rule antisym)
    show "acc_UserID (last ?xs) \<le> acc_UserID a" using le [OF last_in_set [OF ne]] .
    have "a \<in> set ?xs" using top(1) by simp
    then obtain ys zs where "?xs = ys @ a # zs" by (meson split_list)
    with sw show "acc_UserID a \<le> acc_UserID (last ?xs)"
      by (cases zs rule: rev_cases) (auto simp: sorted_wrt_append)
  qed
  have e: "acs_inv ?e \<and> accounts_of ?e = []" using lim by (intro acs_inv_empty) simp_all
  obtain t where t: "load_accounts ?xs ?e = Inr t" "acs_nextUserID t = acc_UserID (last ?xs) + 1"
    using load_accounts_sorted [OF sw _ ne, of ?e] bounds by auto
  have "acs_inv t \<and> accounts_of t = ?xs"
    using load_accounts_inv [OF t(1)] e oks dist len by (simp add: accounts_distinct_sort empty_store_def)
  moreover have "NewAccountStore \<lparr>acfg_MaxAccounts = acs_maxAccounts s,
       acfg_MaxAccountsPerSource = acs_maxAccountsPerSource s, acfg_StateFile = acs_stateFile s\<rparr> d = (Inr t, d)"
    using lim sf rd t(1) d(1) unfolding NewAccountStore_def Let_def ensureAccountFileDirectory_def
    by (simp add: empty_store_def go_bind_def go_wrap_def syscall_ok)
  ultimately show ?thesis using t(2) last top(2) by auto
qed

text \<open>C12: what a successful registration has written survives a restart: opening the store again finds
  every account under its name, hash and identifier as before, the new one included, and continues
  with the same next identifier (for up to 20000 accounts; the size limit of the file is discussed
  with the findings).\<close>

theorem accounts_survive_restart:
  assumes "NewAccountStore config d0 = (Inr s0, d1)" and "acs_run ops (s0, d1) = (s, d)"
    and "list_all acs_op_ok ops" and "unat (acs_nextUserID s0) + length ops + 1 < 2 ^ 64"
    and "register u pw source limit (s, d) = ((a, True, None), (s', d'))"
    and "valid_username u" and "length pw = 24"
    and "acs_stateFile s0 \<noteq> []" and "length (accounts_of s') \<le> 20000" and "dk_script d' = []"
  shows "\<exists>t. NewAccountStore \<lparr>acfg_MaxAccounts = acs_maxAccounts s',
       acfg_MaxAccountsPerSource = acs_maxAccountsPerSource s', acfg_StateFile = acs_stateFile s'\<rparr> d' = (Inr t, d') \<and>
     (\<forall>x. Lookup x t = Lookup x s') \<and> (\<forall>h. LookupHash h t = LookupHash h s') \<and>
     (\<forall>i. LookupUserID i t = LookupUserID i s') \<and> acs_nextUserID t = acs_nextUserID s'"
proof -
  note new = NewAccountStore_inv [OF assms(1)]
  have ok0: "accounts_ok s0" using new by (simp add: accounts_ok_def)
  from acs_run_inv [OF _ _ assms(2)] new assms(3,4) ok0
  have i: "acs_inv s" and e: "acs_extends s0 s" and n: "unat (acs_nextUserID s) + 1 < 2 ^ 64" and ok: "accounts_ok s"
    by auto
  have sf: "acs_stateFile s \<noteq> []" using e assms(8) by (simp add: acs_extends_def)
  have reg: "map_of (acs_byUsername s) u = None \<and> map_of (acs_byHash s) (BOZAccountHash u) = None \<and>
      int (length (acs_byUsername s)) < acs_maxAccounts s \<and>
      (limit \<longrightarrow> gm_count (acs_accountsBySource s) source < acs_maxAccountsPerSource s) \<and>
      s' = acs_enter (new_account u pw s) source limit s \<and>
      dk_file d' = Some (written_file (stored_of (accounts_of s @ [new_account u pw s])))"
    by (rule register_cases [of u pw source limit s d]) (use assms(5) sf in auto)
  note ent = acs_inv_enter [OF i n, of u limit source pw]
  have s': "acs_inv s'" "accounts_of s' = accounts_of s @ [new_account u pw s]"
    using ent reg by auto
  have "acs_nextUserID s \<noteq> 0" using i by (simp add: acs_inv_def)
  then have "accounts_ok s'"
    using ok assms(6,7) s'(2) by (auto simp: accounts_ok_def account_ok_def new_account_def)
  moreover have f: "acs_stateFile s' = acs_stateFile s" "acs_maxAccounts s' = acs_maxAccounts s0"
    "acs_maxAccountsPerSource s' = acs_maxAccountsPerSource s0"
    "acs_nextUserID s' = acc_UserID (new_account u pw s) + 1"
    using reg e by (auto simp: acs_enter_eq acs_extends_def new_account_def)
  ultimately obtain t where t: "NewAccountStore \<lparr>acfg_MaxAccounts = acs_maxAccounts s',
       acfg_MaxAccountsPerSource = acs_maxAccountsPerSource s', acfg_StateFile = acs_stateFile s'\<rparr> d' = (Inr t, d')"
    "acs_inv t" "set (accounts_of t) = set (accounts_of s')" "acs_nextUserID t = acs_nextUserID s'"
    using reload [OF s'(1), of d' "new_account u pw s"] s'(2) sf new assms(9,10) reg by auto
  have "acs_indexed t" "acs_indexed s'" using t(2) s'(1) by (simp_all add: acs_inv_def)
  from acs_index_same [OF this t(3)] t(1,4) show ?thesis by blast
qed

definition file_store :: AccountStore where
  "file_store = empty_store 4096 32 [47]"

lemma file_store_new:
  "NewAccountStore \<lparr>acfg_MaxAccounts = 0, acfg_MaxAccountsPerSource = 0, acfg_StateFile = [47]\<rparr> empty_disk =
     (Inr file_store, empty_disk)"
  by (simp add: NewAccountStore_def Let_def file_store_def empty_store_def DefaultMaxAccounts_def
      DefaultMaxAccountsPerSource_def go_bind_def go_wrap_def ensureAccountFileDirectory_def
      readAccountFile_def syscall_def empty_disk_def)

theorem accounts_survive_restart_witness:
  "\<exists>s' d' t a. register [97] (replicate 24 1) [] False (file_store, empty_disk) = ((a, True, None), (s', d')) \<and>
     NewAccountStore \<lparr>acfg_MaxAccounts = acs_maxAccounts s', acfg_MaxAccountsPerSource = acs_maxAccountsPerSource s',
       acfg_StateFile = acs_stateFile s'\<rparr> d' = (Inr t, d') \<and> Lookup [97] t = Lookup [97] s'"
proof -
  let ?a = "new_account [97] (replicate 24 1) file_store"
  let ?s = "acs_enter ?a [] False file_store"
  have w: "writeAccountFile [?a] empty_disk = (Inr (), empty_disk\<lparr>dk_file := Some (written_file (stored_of [?a])), dk_temp := None\<rparr>)"
    by (rule writeAccountFile_ok) (simp add: empty_disk_def)
  let ?d = "empty_disk\<lparr>dk_file := Some (written_file (stored_of [?a])), dk_temp := None\<rparr>"
  have f: "acs_byUsername file_store = []" "acs_byHash file_store = []" "acs_maxAccounts file_store = 4096"
    "acs_stateFile file_store = [47]" "acs_nextUserID file_store = 1"
    by (simp_all add: file_store_def empty_store_def)
  have reg: "register [97] (replicate 24 1) [] False (file_store, empty_disk) = ((?a, True, None), (?s, ?d))"
    using w by (simp add: register_def f Let_def)
  have v: "valid_username [97]" by (simp add: valid_username_def printable_def word_le_nat_alt)
  have len: "length (accounts_of ?s) \<le> 20000"
    by (simp add: acs_enter_eq accounts_of_def acs_index_def f)
  have run: "acs_run [] (file_store, empty_disk) = (file_store, empty_disk)" by (simp add: acs_run_def)
  from accounts_survive_restart [OF file_store_new run _ _ reg v _ _ len] reg show ?thesis
    by (auto simp: f empty_disk_def)
qed

section \<open>Sources\<close>

text \<open>The limit per source cannot be evaded by the form of an address. An IPv4 address and its
  IPv6-mapped form are the same source, two IPv4 addresses are never the same source, and all
  addresses of one IPv6 /64 network are.\<close>

theorem source_identity:
  assumes "length ip = 4" and "length ip' = 4" and "length net = 8" and "net \<noteq> replicate 8 0"
    and "length host = 8" and "length host' = 8"
  shows "accountSourceIdentity (TCPAddr (v4_mapped_prefix @ ip)) = accountSourceIdentity (TCPAddr ip) \<and>
    (accountSourceIdentity (TCPAddr ip) = Inr source \<and> accountSourceIdentity (TCPAddr ip') = Inr source \<longrightarrow> ip = ip') \<and>
    accountSourceIdentity (TCPAddr (net @ host)) = accountSourceIdentity (TCPAddr (net @ host'))"
proof (intro conjI)
  have m: "length v4_mapped_prefix = 12" by (simp add: v4_mapped_prefix_def)
  show "accountSourceIdentity (TCPAddr (v4_mapped_prefix @ ip)) = accountSourceIdentity (TCPAddr ip)"
    using assms(1) m by (simp add: accountSourceIdentity_def AddrFromSlice_def)
  show "accountSourceIdentity (TCPAddr ip) = Inr source \<and> accountSourceIdentity (TCPAddr ip') = Inr source \<longrightarrow> ip = ip'"
    using assms(1,2) string4_inject [of ip ip']
    by (auto simp: accountSourceIdentity_def AddrFromSlice_def Let_def split: if_splits)
  have "take 12 (net @ h) \<noteq> v4_mapped_prefix" if "length h = 8" for h
  proof
    assume "take 12 (net @ h) = v4_mapped_prefix"
    then have "take 8 (take 12 (net @ h)) = take 8 v4_mapped_prefix" by simp
    with assms(3,4) show False by (simp add: v4_mapped_prefix_def numeral_eq_Suc)
  qed
  then have six: "Unmap (Addr6 (net @ h) []) = Addr6 (net @ h) []" if "length h = 8" for h
    using that by simp
  have un: "addr_IsUnspecified (Addr6 (net @ h) []) = False" if "length h = 8" for h
    using assms(3,4) that by (auto simp: addr_IsUnspecified_def append_eq_conv_conj)
  have mc: "addr_IsMulticast (Addr6 (net @ h) []) = (net ! 0 = 0xff)" if "length h = 8" for h
    using assms(3) that six [OF that] by (simp add: addr_IsMulticast_def nth_append)
  show "accountSourceIdentity (TCPAddr (net @ host)) = accountSourceIdentity (TCPAddr (net @ host'))"
    using assms(3,5,6) six un mc
    by (simp add: accountSourceIdentity_def AddrFromSlice_def Let_def addr_IsValid_def prefix64_String_def)
qed

theorem source_identity_witness:
  "accountSourceIdentity (TCPAddr (v4_mapped_prefix @ [10, 0, 0, 1])) = accountSourceIdentity (TCPAddr [10, 0, 0, 1]) \<and>
   accountSourceIdentity (TCPAddr (replicate 8 32 @ replicate 8 1)) = accountSourceIdentity (TCPAddr (replicate 8 32 @ replicate 8 2))"
proof -
  have "length [10, 0, 0, 1 :: byte] = 4" "length [10, 0, 0, 2 :: byte] = 4" "length (replicate 8 (32 :: byte)) = 8"
    "replicate 8 (32 :: byte) \<noteq> replicate 8 0" "length (replicate 8 (1 :: byte)) = 8" "length (replicate 8 (2 :: byte)) = 8"
    by simp_all
  from source_identity [OF this] show ?thesis by blast
qed

section \<open>Limits of the design\<close>

text \<open>A name that differs from a registered one in case only cannot be registered: the hash is taken of
  the lower-case name, and the error is not the one for an existing name.\<close>

lemma register_case_collision:
  assumes "acs_inv s" and "Lookup v s = Some b" and "ToLower u = ToLower v" and "Lookup u s = None"
    and "int (length (acs_byUsername s)) < acs_maxAccounts s"
    and "gm_count (acs_accountsBySource s) source < acs_maxAccountsPerSource s"
  shows "register u pw source True (s, d) = ((b, False, Some (AccountStoreErr ErrAccountHashCollision)), (s, d))"
proof -
  have "b \<in> set (accounts_of s)" "acc_Username b = v"
    using assms(1,2) by (auto simp: Lookup_def acs_inv_def acs_indexed_def)
  moreover from this have "acc_AccountHash b = BOZAccountHash u"
    using assms(1,3) by (simp add: acs_inv_def BOZAccountHash_def)
  ultimately have "map_of (acs_byHash s) (BOZAccountHash u) = Some b"
    using assms(1) by (simp add: acs_inv_def acs_indexed_def)
  with assms(4-6) show ?thesis by (simp add: register_def Lookup_def Let_def)
qed

text \<open>The identifier counter wraps: after the last identifier the next account would get 0, which the
  file reader rejects.\<close>

lemma user_id_wraps:
  assumes "acs_nextUserID s = -1" and "register u pw source limit (s, d) = ((a, True, None), (s', d'))"
  shows "acs_nextUserID s' = 0"
    and "decodePersistedAccount (persisted_of (new_account v pw' s')) = Inl (Message ''auth: persisted user ID must not be zero'')"
proof -
  show z: "acs_nextUserID s' = 0"
    by (rule register_cases [of u pw source limit s d]) (use assms in \<open>auto simp: acs_enter_eq\<close>)
  show "decodePersistedAccount (persisted_of (new_account v pw' s')) = Inl (Message ''auth: persisted user ID must not be zero'')"
    by (simp add: decodePersistedAccount_def persisted_of_def new_account_def z)
qed

text \<open>A store with 131072 accounts or more, which the configuration allows, writes a file that the
  next start refuses to read.\<close>

lemma large_store_unreadable:
  assumes "\<forall>a\<in>set xs. account_ok a" and "131072 \<le> length xs"
  shows "load_file maximum (written_file (stored_of xs)) = Inl (Message ''auth: account file exceeds the maximum size'')"
  using length_json_text(1) [OF assms(1)] assms(2) by (simp add: load_file_def written_file_def maxAccountFileBytes_def)

end
