(* ===== verification/Connection.thy ===== *)
theory Connection
  imports Framing Std_Net
begin

text \<open>
  A TCP connection as the handlers use it (\<^verbatim>\<open>net.Conn\<close> and the context): the bytes that arrive, the
  writer, the peer, and what the environment answers. \<open>cn_clock\<close> holds what the coming calls of
  \<^verbatim>\<open>time.Now\<close> return, \<open>cn_now\<close> what the configured clock returns, \<open>cn_ctx\<close> whether the context is
  done at the coming checks, \<open>cn_deadlines\<close> the outcomes of the coming calls that set a deadline;
  an exhausted list stands for 0, for \<^verbatim>\<open>ctx.Err() == nil\<close> and for success. \<open>cn_read_by\<close> is the read
  deadline in force. Once this side has closed the connection (\<open>cn_closed\<close>), every operation on it
  fails with \<^verbatim>\<open>net.ErrClosed\<close>.
\<close>

record conn =
  cn_in :: go_stream
  cn_out :: go_writer
  cn_peer :: net_addr
  cn_clock :: "int list"
  cn_now :: "int list"
  cn_ctx :: "bool list"
  cn_deadlines :: "go_error option list"
  cn_read_by :: int
  cn_closed :: bool

definition time_Now :: "conn \<Rightarrow> int \<times> conn" where
  "time_Now c = (case cn_clock c of [] \<Rightarrow> (0, c) | t # ts \<Rightarrow> (t, c\<lparr>cn_clock := ts\<rparr>))"

definition config_Now :: "conn \<Rightarrow> int \<times> conn" where
  "config_Now c = (case cn_now c of [] \<Rightarrow> (0, c) | t # ts \<Rightarrow> (t, c\<lparr>cn_now := ts\<rparr>))"

definition ctx_done :: "conn \<Rightarrow> bool \<times> conn" where
  "ctx_done c = (case cn_ctx c of [] \<Rightarrow> (False, c) | b # bs \<Rightarrow> (b, c\<lparr>cn_ctx := bs\<rparr>))"

definition set_deadline :: "(conn, unit) go" where
  "set_deadline c =
     (if cn_closed c then (Inl (IoErr NetErrClosed), c)
      else case cn_deadlines c of
        [] \<Rightarrow> (Inr (), c)
      | outcome # rest \<Rightarrow>
          ((case outcome of None \<Rightarrow> Inr () | Some e \<Rightarrow> Inl e), c\<lparr>cn_deadlines := rest\<rparr>))"

definition SetReadDeadline :: "int \<Rightarrow> (conn, unit) go" where
  "SetReadDeadline t c =
     (case set_deadline c of
        (Inl e, c) \<Rightarrow> (Inl e, c)
      | (Inr _, c) \<Rightarrow> (Inr (), c\<lparr>cn_read_by := t\<rparr>))"

definition conn_Close :: "conn \<Rightarrow> conn" where
  "conn_Close c = c\<lparr>cn_closed := True\<rparr>"

definition conn_ReadRecord :: "u32 \<Rightarrow> (conn, TransportRecord) go" where
  "conn_ReadRecord maxBodySize c =
     (if cn_closed c then (Inl (Context ''read bitdemon transport prefix'' (IoErr NetErrClosed)), c)
      else case ReadTransportRecord maxBodySize (cn_in c) of (r, s) \<Rightarrow> (r, c\<lparr>cn_in := s\<rparr>))"

text \<open>The write that both handlers share: a write deadline, then the frame.\<close>

definition conn_writeFrame :: "bytes \<Rightarrow> (conn, unit) go" where
  "conn_writeFrame body c =
     (case time_Now c of (t, c) \<Rightarrow>
        (case set_deadline c of
           (Inl e, c) \<Rightarrow> (Inl e, c)
         | (Inr _, c) \<Rightarrow>
             (case WriteFrame body (cn_out c) of
                (Some e, w) \<Rightarrow> (Inl e, c\<lparr>cn_out := w\<rparr>)
              | (None, w) \<Rightarrow> (Inr (), c\<lparr>cn_out := w\<rparr>))))"

text \<open>\<^verbatim>\<open>errors.As(err, &networkError) && networkError.Timeout()\<close>.\<close>

definition is_timeout :: "go_error \<Rightarrow> bool" where
  "is_timeout e = errors_is e (IoErr NetTimeout)"

definition is_closed :: "go_error \<Rightarrow> bool" where
  "is_closed e \<longleftrightarrow> errors_is e (IoErr NetErrClosed) \<or> errors_is e (IoErr ErrClosedPipe)"

section \<open>What the operations leave alone\<close>

lemma time_Now_fields [simp]:
  "cn_in (snd (time_Now c)) = cn_in c" "cn_out (snd (time_Now c)) = cn_out c"
  "cn_peer (snd (time_Now c)) = cn_peer c" "cn_read_by (snd (time_Now c)) = cn_read_by c"
  "cn_now (snd (time_Now c)) = cn_now c" "cn_closed (snd (time_Now c)) = cn_closed c"
  by (simp_all add: time_Now_def split: list.splits)

lemma config_Now_fields [simp]:
  "cn_in (snd (config_Now c)) = cn_in c" "cn_out (snd (config_Now c)) = cn_out c"
  "cn_peer (snd (config_Now c)) = cn_peer c" "cn_read_by (snd (config_Now c)) = cn_read_by c"
  "cn_closed (snd (config_Now c)) = cn_closed c"
  by (simp_all add: config_Now_def split: list.splits)

lemma ctx_done_fields [simp]:
  "cn_in (snd (ctx_done c)) = cn_in c" "cn_out (snd (ctx_done c)) = cn_out c"
  "cn_peer (snd (ctx_done c)) = cn_peer c" "cn_read_by (snd (ctx_done c)) = cn_read_by c"
  "cn_now (snd (ctx_done c)) = cn_now c" "cn_closed (snd (ctx_done c)) = cn_closed c"
  by (simp_all add: ctx_done_def split: list.splits)

lemma set_deadline_fields [simp]:
  "cn_in (snd (set_deadline c)) = cn_in c" "cn_out (snd (set_deadline c)) = cn_out c"
  "cn_peer (snd (set_deadline c)) = cn_peer c" "cn_read_by (snd (set_deadline c)) = cn_read_by c"
  "cn_now (snd (set_deadline c)) = cn_now c" "cn_closed (snd (set_deadline c)) = cn_closed c"
  by (simp_all add: set_deadline_def split: list.splits)

lemma SetReadDeadline_result:
  assumes "SetReadDeadline t c = (r, c')"
  shows "cn_in c' = cn_in c" "cn_out c' = cn_out c" "cn_peer c' = cn_peer c" "cn_closed c' = cn_closed c"
    and "r = Inr () \<Longrightarrow> cn_read_by c' = t"
  using assms
  by (auto simp: SetReadDeadline_def set_deadline_def split: list.splits option.splits if_splits)

lemma conn_ReadRecord_result:
  assumes "conn_ReadRecord m c = (r, c')"
  shows "cn_out c' = cn_out c" "cn_peer c' = cn_peer c" "cn_read_by c' = cn_read_by c" "cn_closed c' = cn_closed c"
  using assms by (auto simp: conn_ReadRecord_def split: prod.splits if_splits)



text \<open>What leaves a connection is a prefix of the frame, all of it when the write succeeds.\<close>

lemma conn_writeFrame_result:
  assumes "conn_writeFrame body c = (r, c')"
  shows "cn_in c' = cn_in c" "cn_peer c' = cn_peer c" "cn_read_by c' = cn_read_by c" "cn_closed c' = cn_closed c"
    and "\<exists>sent. prefix sent (frame_bytes body) \<and> w_out (cn_out c') = w_out (cn_out c) @ sent \<and>
      (r = Inr () \<longrightarrow> sent = frame_bytes body)"
proof -
  obtain t c1 where c1: "time_Now c = (t, c1)" by (metis surj_pair)
  obtain x c2 where c2: "set_deadline c1 = (x, c2)" by (metis surj_pair)
  have keep: "cn_in c2 = cn_in c" "cn_peer c2 = cn_peer c" "cn_read_by c2 = cn_read_by c" "cn_closed c2 = cn_closed c"
    "cn_out c2 = cn_out c"
    using time_Now_fields [of c] set_deadline_fields [of c1] c1 c2 by simp_all
  obtain e w where w: "WriteFrame body (cn_out c2) = (e, w)" by (metis surj_pair)
  show "cn_in c' = cn_in c" "cn_peer c' = cn_peer c" "cn_read_by c' = cn_read_by c" "cn_closed c' = cn_closed c"
    using assms c1 c2 w keep by (auto simp: conn_writeFrame_def split: sum.splits option.splits)
  show "\<exists>sent. prefix sent (frame_bytes body) \<and> w_out (cn_out c') = w_out (cn_out c) @ sent \<and>
      (r = Inr () \<longrightarrow> sent = frame_bytes body)"
  proof (cases x)
    case (Inl a)
    then show ?thesis using assms c1 c2 keep by (auto simp: conn_writeFrame_def)
  next
    case (Inr a)
    then have "c' = c2\<lparr>cn_out := w\<rparr>" "r = Inr () \<longrightarrow> e = None"
      using assms c1 c2 w by (auto simp: conn_writeFrame_def split: option.splits)
    with WriteFrame_out [OF w] keep show ?thesis
      by (auto simp: MarshalFrame_eq split: option.splits)
  qed
qed

text \<open>A run of writes: \<open>sends P n out out'\<close> says that \<open>out'\<close> continues \<open>out\<close> with a prefix of at most
  \<open>n\<close> frames whose bodies satisfy \<open>P\<close>.\<close>

definition sends :: "(bytes \<Rightarrow> bool) \<Rightarrow> nat \<Rightarrow> bytes \<Rightarrow> bytes \<Rightarrow> bool" where
  "sends P n out out' \<longleftrightarrow> (\<exists>bodies sent. length bodies \<le> n \<and> list_all P bodies \<and>
     prefix sent (concat (map frame_bytes bodies)) \<and> out' = out @ sent)"

text \<open>The same when everything was sent.\<close>

definition sends_all :: "(bytes \<Rightarrow> bool) \<Rightarrow> nat \<Rightarrow> bytes \<Rightarrow> bytes \<Rightarrow> bool" where
  "sends_all P n out out' \<longleftrightarrow> (\<exists>bodies. length bodies \<le> n \<and> list_all P bodies \<and>
     out' = out @ concat (map frame_bytes bodies))"

lemma sends_all_none [simp]: "sends_all P n out out"
  by (auto simp: sends_all_def intro!: exI [of _ "[]"])

lemma sends_none [simp]: "sends P n out out"
  by (auto simp: sends_def intro!: exI [of _ "[]"])

lemma sends_all_sends: "sends_all P n out out' \<Longrightarrow> sends P n out out'"
  by (auto simp: sends_all_def sends_def)

lemma sends_trans:
  "sends_all P m out out' \<Longrightarrow> sends P n out' out'' \<Longrightarrow> sends P (m + n) out out''"
proof -
  assume "sends_all P m out out'" "sends P n out' out''"
  then obtain b1 b2 s where "length b1 \<le> m" "list_all P b1" "out' = out @ concat (map frame_bytes b1)"
    "length b2 \<le> n" "list_all P b2" "prefix s (concat (map frame_bytes b2))" "out'' = out' @ s"
    by (auto simp: sends_all_def sends_def)
  then show ?thesis
    by (intro iffD2 [OF sends_def] exI [of _ "b1 @ b2"] exI [of _ "concat (map frame_bytes b1) @ s"]) auto
qed

lemma sends_all_trans:
  "sends_all P m out out' \<Longrightarrow> sends_all P n out' out'' \<Longrightarrow> sends_all P (m + n) out out''"
proof -
  assume "sends_all P m out out'" "sends_all P n out' out''"
  then obtain b1 b2 where "length b1 \<le> m" "list_all P b1" "out' = out @ concat (map frame_bytes b1)"
    "length b2 \<le> n" "list_all P b2" "out'' = out' @ concat (map frame_bytes b2)"
    by (auto simp: sends_all_def)
  then show ?thesis
    by (intro iffD2 [OF sends_all_def] exI [of _ "b1 @ b2"]) auto
qed

lemma sends_mono: "sends P m out out' \<Longrightarrow> m \<le> n \<Longrightarrow> sends P n out out'"
  by (auto simp: sends_def intro: order_trans)

lemma sends_all_mono: "sends_all P m out out' \<Longrightarrow> m \<le> n \<Longrightarrow> sends_all P n out out'"
  by (auto simp: sends_all_def intro: order_trans)

lemma sends_weaken: "sends P n out out' \<Longrightarrow> (\<And>b. P b \<Longrightarrow> Q b) \<Longrightarrow> sends Q n out out'"
  unfolding sends_def list_all_iff by blast

lemma conn_writeFrame_sends:
  assumes "conn_writeFrame body c = (r, c')" and "P body"
  shows "sends P 1 (w_out (cn_out c)) (w_out (cn_out c'))"
    and "r = Inr () \<Longrightarrow> sends_all P 1 (w_out (cn_out c)) (w_out (cn_out c'))"
  using conn_writeFrame_result(5) [OF assms(1)] assms(2)
  by (auto simp: sends_def sends_all_def intro!: exI [of _ "[body]"])

end
