(* ===== verification/Lobby_Client.thy ===== *)
theory Lobby_Client
  imports Matchmaking_Store Account_Store Lobby_Session Connection
begin

text \<open>
  \<^verbatim>\<open>internal/online/lobby/client.go\<close>: the clients of the lobby server, and the table of those that
  are active. A \<^verbatim>\<open>*lobbyClient\<close> is a handle: the state of the server maps it to the client's record,
  which several connections change (a push writes to the recipient). The mutexes make each operation
  atomic.
\<close>

record lobbyClient =
  lc_connection :: conn
  lc_account :: Account
  lc_sessionKey :: bytes
  lc_nextServerSeed :: u32

text \<open>What the connections of a lobby server share: the stores, the table of active clients
  (\<^verbatim>\<open>activeLobbyClients\<close>), the counter of connection identifiers, the configured randomness and the
  clients.\<close>

record lobby_world =
  lw_accounts :: AccountStore
  lw_sessions :: LobbySessionStore
  lw_matches :: MatchmakingStore
  lw_byAccount :: "(u64, nat) gomap"
  lw_nextID :: u64
  lw_random :: go_stream
  lw_clients :: "nat \<Rightarrow> lobbyClient"

definition lw_set_client :: "nat \<Rightarrow> lobbyClient \<Rightarrow> lobby_world \<Rightarrow> lobby_world" where
  "lw_set_client h client w = w\<lparr>lw_clients := (lw_clients w)(h := client)\<rparr>"

definition on_client :: "nat \<Rightarrow> (conn \<Rightarrow> 'a \<times> conn) \<Rightarrow> lobby_world \<Rightarrow> 'a \<times> lobby_world" where
  "on_client h f w =
     (let client = lw_clients w h
      in case f (lc_connection client) of
           (a, c) \<Rightarrow> (a, lw_set_client h (client\<lparr>lc_connection := c\<rparr>) w))"

section \<open>Operations\<close>

definition client_writeFrame :: "nat \<Rightarrow> bytes \<Rightarrow> (lobby_world, unit) go" where
  "client_writeFrame h body = on_client h (conn_writeFrame body)"

definition serverSeed :: "nat \<Rightarrow> lobby_world \<Rightarrow> u32 \<times> lobby_world" where
  "serverSeed h w =
     (let client = lw_clients w h; added = lc_nextServerSeed client + 1
      in (added - 1, lw_set_client h (client\<lparr>lc_nextServerSeed := added\<rparr>) w))"

definition client_Close :: "nat \<Rightarrow> lobby_world \<Rightarrow> lobby_world" where
  "client_Close h w =
     (let client = lw_clients w h
      in lw_set_client h (client\<lparr>lc_connection := conn_Close (lc_connection client)\<rparr>) w)"

definition client_hash :: "nat \<Rightarrow> lobby_world \<Rightarrow> u64" where
  "client_hash h w = acc_AccountHash (lc_account (lw_clients w h))"

definition activate :: "nat \<Rightarrow> lobby_world \<Rightarrow> lobby_world" where
  "activate h w =
     (let previous = map_of (lw_byAccount w) (client_hash h w);
          w = w\<lparr>lw_byAccount := AList.update (client_hash h w) h (lw_byAccount w)\<rparr>
      in case previous of
           None \<Rightarrow> w
         | Some p \<Rightarrow> if p \<noteq> h then client_Close p w else w)"

definition deactivate :: "nat \<Rightarrow> lobby_world \<Rightarrow> lobby_world" where
  "deactivate h w =
     (if map_of (lw_byAccount w) (client_hash h w) = Some h
      then w\<lparr>lw_byAccount := AList.delete (client_hash h w) (lw_byAccount w)\<rparr>
      else w)"

definition lookup :: "u64 \<Rightarrow> lobby_world \<Rightarrow> nat option" where
  "lookup accountHash w = map_of (lw_byAccount w) accountHash"

section \<open>Their effect\<close>

lemma lw_set_client_fields [simp]:
  "lw_accounts (lw_set_client h c w) = lw_accounts w" "lw_sessions (lw_set_client h c w) = lw_sessions w"
  "lw_matches (lw_set_client h c w) = lw_matches w" "lw_byAccount (lw_set_client h c w) = lw_byAccount w"
  "lw_nextID (lw_set_client h c w) = lw_nextID w" "lw_random (lw_set_client h c w) = lw_random w"
  "lw_clients (lw_set_client h c w) = (lw_clients w)(h := c)"
  by (simp_all add: lw_set_client_def)

text \<open>Two states of the server that differ in the connections only, and there keep the peers, do not
  open a closed connection and do not put bytes back.\<close>

definition unread :: "conn \<Rightarrow> nat" where
  "unread c = length (st_bytes (cn_in c))"

definition same_identity :: "lobbyClient \<Rightarrow> lobbyClient \<Rightarrow> bool" where
  "same_identity c c' \<longleftrightarrow> lc_account c' = lc_account c \<and> lc_sessionKey c' = lc_sessionKey c \<and>
     cn_peer (lc_connection c') = cn_peer (lc_connection c) \<and>
     (cn_closed (lc_connection c) \<longrightarrow> cn_closed (lc_connection c')) \<and>
     unread (lc_connection c') \<le> unread (lc_connection c)"

definition same_clients :: "lobby_world \<Rightarrow> lobby_world \<Rightarrow> bool" where
  "same_clients w w' \<longleftrightarrow> (\<forall>h. same_identity (lw_clients w h) (lw_clients w' h))"

lemma same_identity_refl [simp]: "same_identity c c"
  by (simp add: same_identity_def)

lemma same_clients_refl [simp]: "same_clients w w"
  by (simp add: same_clients_def)

lemma same_identity_trans: "same_identity a b \<Longrightarrow> same_identity b c \<Longrightarrow> same_identity a c"
  by (auto simp: same_identity_def)

lemma same_clients_trans: "same_clients u v \<Longrightarrow> same_clients v w \<Longrightarrow> same_clients u w"
  unfolding same_clients_def using same_identity_trans by blast

lemma same_clients_hash: "same_clients w w' \<Longrightarrow> client_hash h w' = client_hash h w"
  by (simp add: same_clients_def same_identity_def client_hash_def)

text \<open>The parts of the state that only the stores' operations change.\<close>

definition same_stores :: "lobby_world \<Rightarrow> lobby_world \<Rightarrow> bool" where
  "same_stores w w' \<longleftrightarrow> lw_accounts w' = lw_accounts w \<and> lw_sessions w' = lw_sessions w \<and>
     lw_matches w' = lw_matches w \<and> lw_nextID w' = lw_nextID w \<and> lw_random w' = lw_random w"

definition quiet :: "lobby_world \<Rightarrow> lobby_world \<Rightarrow> bool" where
  "quiet w w' \<longleftrightarrow> same_stores w w' \<and> lw_byAccount w' = lw_byAccount w \<and> same_clients w w'"

lemma quiet_refl [simp]: "quiet w w"
  by (simp add: quiet_def same_stores_def)

lemma quiet_trans: "quiet u v \<Longrightarrow> quiet v w \<Longrightarrow> quiet u w"
  by (auto simp: quiet_def same_stores_def intro: same_clients_trans)

lemma quiet_fields:
  assumes "quiet w w'"
  shows "lw_accounts w' = lw_accounts w" "lw_sessions w' = lw_sessions w" "lw_matches w' = lw_matches w"
    "lw_nextID w' = lw_nextID w" "lw_random w' = lw_random w" "lw_byAccount w' = lw_byAccount w"
    "same_clients w w'" "client_hash h w' = client_hash h w"
    "lc_account (lw_clients w' h) = lc_account (lw_clients w h)"
    "lc_sessionKey (lw_clients w' h) = lc_sessionKey (lw_clients w h)"
    "cn_peer (lc_connection (lw_clients w' h)) = cn_peer (lc_connection (lw_clients w h))"
    "unread (lc_connection (lw_clients w' h)) \<le> unread (lc_connection (lw_clients w h))"
  using assms same_clients_hash by (simp_all add: quiet_def same_stores_def same_clients_def same_identity_def)

text \<open>An operation that leaves the identity of its connection alone.\<close>

definition conn_quiet :: "(conn \<Rightarrow> 'a \<times> conn) \<Rightarrow> bool" where
  "conn_quiet f \<longleftrightarrow> (\<forall>c. cn_peer (snd (f c)) = cn_peer c \<and> cn_closed (snd (f c)) = cn_closed c \<and>
     unread (snd (f c)) \<le> unread c)"

lemma ReadFull_unread: "length (st_bytes (snd (ReadFull n st))) \<le> length (st_bytes st)"
  by (simp add: ReadFull_def)

lemma go_bind_unread:
  assumes "\<And>st. length (st_bytes (snd (f st))) \<le> length (st_bytes st)"
    and "\<And>a st. length (st_bytes (snd (g a st))) \<le> length (st_bytes st)"
  shows "length (st_bytes (snd (go_bind f g st))) \<le> length (st_bytes st)"
  using assms(1) [of st] assms(2)
  by (auto simp: go_bind_def split: prod.splits sum.splits) (metis le_trans snd_conv)

lemma ReadTransportRecord_unread:
  "length (st_bytes (snd (ReadTransportRecord m st))) \<le> length (st_bytes st)"
  unfolding ReadTransportRecord_def Let_def
  by (intro go_bind_unread) (auto simp: snd_go_wrap ReadFull_unread intro!: go_bind_unread)

lemma conn_quiet_ops:
  "conn_quiet time_Now" "conn_quiet config_Now" "conn_quiet ctx_done" "conn_quiet (SetReadDeadline t)"
  "conn_quiet (conn_ReadRecord m)" "conn_quiet (conn_writeFrame body)"
proof -
  show "conn_quiet time_Now" "conn_quiet config_Now" "conn_quiet ctx_done"
    by (simp_all add: conn_quiet_def unread_def)
  show "conn_quiet (SetReadDeadline t)"
    unfolding conn_quiet_def unread_def using SetReadDeadline_result [OF surjective_pairing] by simp
  show "conn_quiet (conn_writeFrame body)"
    unfolding conn_quiet_def unread_def using conn_writeFrame_result(1-4) [OF surjective_pairing] by simp
  show "conn_quiet (conn_ReadRecord m)"
    unfolding conn_quiet_def unread_def
    using ReadTransportRecord_unread by (auto simp: conn_ReadRecord_def split: prod.splits) (metis snd_conv)
qed

text \<open>What an operation on one connection does to the whole.\<close>

definition others :: "nat \<Rightarrow> lobby_world \<Rightarrow> lobby_world \<Rightarrow> bool" where
  "others h w w' \<longleftrightarrow> (\<forall>g. g \<noteq> h \<longrightarrow> lw_clients w' g = lw_clients w g)"

lemma others_refl [simp]: "others h w w"
  by (simp add: others_def)

lemma others_trans: "others h u v \<Longrightarrow> others h v w \<Longrightarrow> others h u w"
  by (simp add: others_def)

lemma on_client_result:
  assumes "on_client h f w = (a, w')" and "conn_quiet f"
  shows "quiet w w'" and "others h w w'" and "f (lc_connection (lw_clients w h)) = (a, lc_connection (lw_clients w' h))"
proof -
  obtain c where f: "f (lc_connection (lw_clients w h)) = (a, c)"
    and w': "w' = lw_set_client h ((lw_clients w h)\<lparr>lc_connection := c\<rparr>) w"
    using assms(1) by (auto simp: on_client_def Let_def split: prod.splits)
  have c: "cn_peer c = cn_peer (lc_connection (lw_clients w h))" "cn_closed c = cn_closed (lc_connection (lw_clients w h))"
    "unread c \<le> unread (lc_connection (lw_clients w h))"
    using assms(2) f unfolding conn_quiet_def by (metis snd_conv)+
  show "quiet w w'"
    using c by (auto simp: w' quiet_def same_stores_def same_clients_def same_identity_def)
  show "others h w w'" by (simp add: w' others_def)
  show "f (lc_connection (lw_clients w h)) = (a, lc_connection (lw_clients w' h))"
    using f by (simp add: w')
qed

lemmas on_client_ops = conn_quiet_ops [THEN [2] on_client_result(1)]

lemma client_writeFrame_result:
  assumes "client_writeFrame h body w = (r, w')"
  shows "quiet w w'" and "others h w w'"
    and "conn_writeFrame body (lc_connection (lw_clients w h)) = (r, lc_connection (lw_clients w' h))"
  using on_client_result [OF _ conn_quiet_ops(6)] assms by (simp_all add: client_writeFrame_def)

lemma client_Close_result:
  "quiet w (client_Close h w)" "others h w (client_Close h w)"
  "cn_closed (lc_connection (lw_clients (client_Close h w) h))"
  by (auto simp: client_Close_def Let_def quiet_def same_stores_def same_clients_def same_identity_def
      others_def conn_Close_def unread_def)

lemma serverSeed_result:
  assumes "serverSeed h w = (seed, w')"
  shows "quiet w w'" and "others h w w'" and "seed = lc_nextServerSeed (lw_clients w h)"
    and "lc_nextServerSeed (lw_clients w' h) = seed + 1"
    and "lc_connection (lw_clients w' h) = lc_connection (lw_clients w h)"
  using assms by (auto simp: serverSeed_def Let_def quiet_def same_stores_def same_clients_def
      same_identity_def others_def)

end
