(* ===== verification/Lobby_Login.thy ===== *)
theory Lobby_Login
  imports Auth_Messages
begin

text \<open>
  The login message of \<^verbatim>\<open>internal/online/lobby/lsg.go\<close>, which opens a connection to the lobby server:
  the title, the seed of the ticket and an authentication blob.
\<close>

definition LSGServiceID :: byte where "LSGServiceID = 0x07"
definition lsgLoginBodySize :: nat where "lsgLoginBodySize = 140"
definition lsgAuthBlobSize :: u32 where "lsgAuthBlobSize = 128"

record LSGLogin =
  lsg_TitleID :: u32
  lsg_TicketSeed :: u32
  lsg_AuthBlob :: bytes

definition malformed_login :: "string \<Rightarrow> go_error" where
  "malformed_login what = Context what (LsgErr ErrMalformedLSGLogin)"

definition ParseLSGLoginBody :: "bytes \<Rightarrow> go_error + LSGLogin" where
  "ParseLSGLoginBody body =
     (if length body \<noteq> lsgLoginBodySize then Inl (malformed_login ''body size'')
      else if body ! 0 \<noteq> 0 \<or> body ! 1 \<noteq> LSGServiceID then Inl (malformed_login ''envelope'')
      else fst (go_bind (go_wrap (\<lambda>_. malformed_login ''invalid type-check flag'') btr_ReadTypeCheckedFlag)
        (\<lambda>typeChecked.
           if \<not> typeChecked then go_fail (malformed_login ''invalid type-check flag'')
           else go_bind (go_wrap (\<lambda>_. malformed_login ''read title ID'') btr_ReadUint32) (\<lambda>titleID.
             if titleID \<noteq> BOZTitleID then go_fail (LsgErr ErrInvalidLSGIdentity)
             else go_bind (go_wrap (\<lambda>_. malformed_login ''read ticket seed'') btr_ReadUint32) (\<lambda>ticketSeed.
               go_bind (btr_SetTypeChecked False) (\<lambda>_.
                 go_bind (go_wrap (\<lambda>_. malformed_login ''read authentication blob'') (btr_ReadRaw lsgAuthBlobSize))
                   (\<lambda>authBlobBytes reader.
                      if btr_RemainingBits reader \<noteq> 5 \<or> body ! (length body - 1) AND 0xf8 \<noteq> 0
                      then (Inl (malformed_login ''nonzero or unexpected padding''), reader)
                      else (Inr \<lparr>lsg_TitleID = titleID, lsg_TicketSeed = ticketSeed,
                                 lsg_AuthBlob = copy_at 0 authBlobBytes (replicate (unat lsgAuthBlobSize) 0)\<rparr>,
                            reader))))))
        (NewBitReader (drop 2 body))))"

section \<open>What the parser accepts\<close>

lemma login_sizes: "unat lsgAuthBlobSize = 128" "lsgLoginBodySize = 140" "LSGServiceID = 0x07"
  by (simp_all add: lsgAuthBlobSize_def lsgLoginBodySize_def LSGServiceID_def)

definition login_fields :: "(BitReader, u32 \<times> u32 \<times> bytes) go" where
  "login_fields =
     go_bind (go_wrap (\<lambda>_. malformed_login ''invalid type-check flag'') btr_ReadTypeCheckedFlag) (\<lambda>typeChecked.
       if \<not> typeChecked then go_fail (malformed_login ''invalid type-check flag'')
       else go_bind (go_wrap (\<lambda>_. malformed_login ''read title ID'') btr_ReadUint32) (\<lambda>titleID.
         if titleID \<noteq> BOZTitleID then go_fail (LsgErr ErrInvalidLSGIdentity)
         else go_bind (go_wrap (\<lambda>_. malformed_login ''read ticket seed'') btr_ReadUint32) (\<lambda>ticketSeed.
           go_bind (btr_SetTypeChecked False) (\<lambda>_.
             go_bind (go_wrap (\<lambda>_. malformed_login ''read authentication blob'') (btr_ReadRaw lsgAuthBlobSize))
               (\<lambda>blob. go_return (titleID, ticketSeed, blob))))))"

definition login_bits :: "u32 \<Rightarrow> bytes \<Rightarrow> bool list" where
  "login_bits seed blob = True # bits_uint32 True BOZTitleID @ bits_uint32 True seed @ bytes_bits blob"

lemma recog_login_fields:
  "bit_reader.recog login_fields
     (\<lambda>tc v xs tc'. (fst v = BOZTitleID \<and> length (snd (snd v)) = 128) \<and>
        xs = login_bits (fst (snd v)) (snd (snd v)) \<and> tc' = False)"
proof -
  have "(\<exists>a. a) \<and> Ex Not" by blast
  then show ?thesis
    unfolding login_fields_def login_bits_def
    by - (rule bit_reader.recog_cong, (rule recog_bit_rules)+,
      simp add: if_bool_eq_conj login_sizes cong: conj_cong split del: if_split,
      auto)
qed

lemma ParseLSGLoginBody_bind:
  "ParseLSGLoginBody body =
     (if length body \<noteq> 140 then Inl (malformed_login ''body size'')
      else if body ! 0 \<noteq> 0 \<or> body ! 1 \<noteq> 0x07 then Inl (malformed_login ''envelope'')
      else fst (go_bind login_fields
           (\<lambda>v reader.
              if padding_ok body reader
              then (Inr \<lparr>lsg_TitleID = fst v, lsg_TicketSeed = fst (snd v),
                        lsg_AuthBlob = copy_at 0 (snd (snd v)) (replicate 128 0)\<rparr>, reader)
              else (Inl (malformed_login ''nonzero or unexpected padding''), reader))
           (NewBitReader (drop 2 body))))"
proof -
  have neg: "(if \<not> c then x else y) = (if c then y else x)" for c and x y :: 'z
    by simp
  show ?thesis
    unfolding ParseLSGLoginBody_def login_fields_def go_bind_laws prod.case
      login_sizes padding_ok_def neg fst_conv snd_conv ..
qed

lemma ParseLSGLoginBody_eq:
  "ParseLSGLoginBody body = Inr login \<longleftrightarrow>
     lsg_TitleID login = BOZTitleID \<and> length (lsg_AuthBlob login) = 128 \<and>
     body = [0, 0x07] @ pack (login_bits (lsg_TicketSeed login) (lsg_AuthBlob login))"
proof (cases "length body = 140")
  case False
  then show ?thesis by (auto simp: ParseLSGLoginBody_bind login_bits_def)
next
  case True
  let ?res = "\<lambda>v :: u32 \<times> u32 \<times> bytes. Inr \<lparr>lsg_TitleID = fst v, lsg_TicketSeed = fst (snd v),
     lsg_AuthBlob = copy_at 0 (snd (snd v)) (replicate 128 0)\<rparr> :: go_error + LSGLogin"
  note rd = padded_parse [OF recog_login_fields, where body = body and n = 137 and res = ?res and req = login]
  have c: "copy_at 0 blob (replicate 128 0) = blob" if "length blob = 128" for blob :: bytes
    using that by (simp add: copy_at_def)
  have "ParseLSGLoginBody body = Inr login \<longleftrightarrow> (body ! 0 = 0 \<and> body ! 1 = 0x07) \<and>
      (\<exists>seed blob. length blob = 128 \<and> drop 2 body = pack (login_bits seed blob) \<and> ?res (BOZTitleID, seed, blob) = Inr login)"
    using True rd unfolding ParseLSGLoginBody_bind
    by (auto simp: login_bits_def split_paired_Ex)
  also have "\<dots> \<longleftrightarrow> body = [0, 0x07] @ drop 2 body \<and> lsg_TitleID login = BOZTitleID \<and> length (lsg_AuthBlob login) = 128 \<and>
      drop 2 body = pack (login_bits (lsg_TicketSeed login) (lsg_AuthBlob login))"
    using two_byte_head [of body 138 0 "0x07"] True c by (cases login) auto
  finally show ?thesis by auto
qed

section \<open>Properties\<close>

text \<open>A login is accepted exactly when it is the clear-text, type-checked encoding of this game's
  title and a seed, followed by a blob of 128 bytes and zero padding; no login has two encodings.\<close>

theorem ParseLSGLoginBody_exact:
  "ParseLSGLoginBody body = Inr login \<longleftrightarrow>
     lsg_TitleID login = BOZTitleID \<and> length (lsg_AuthBlob login) = 128 \<and>
     body = [0, LSGServiceID] @ pack (True # bits_uint32 True (lsg_TitleID login) @
       bits_uint32 True (lsg_TicketSeed login) @ bytes_bits (lsg_AuthBlob login))"
  using ParseLSGLoginBody_eq [of body login] by (auto simp: login_bits_def login_sizes)

end
