(* ===== verification/Auth_Handler.thy ===== *)
theory Auth_Handler
  imports Account_Store Connection
begin

text \<open>
  \<^verbatim>\<open>internal/online/auth/handler.go\<close>: the authentication server on one connection. It serves a
  bounded number of records: account creation, and requests for a ticket, for which it reserves a
  pending lobby session. The state is what the code shares (accounts, disk, sessions, the source of
  randomness) and the connection. The clock of the configuration is the connection's \<open>cn_now\<close>.
\<close>

definition Millisecond :: int where "Millisecond = 1000000"
definition Second :: int where "Second = 1000000000"
definition Minute :: int where "Minute = 60 * Second"
definition Hour :: int where "Hour = 60 * Minute"

definition DefaultMaxRecords :: int where "DefaultMaxRecords = 16"
definition DefaultHandshakeTimeout :: int where "DefaultHandshakeTimeout = 10 * Second"
definition DefaultWriteTimeout :: int where "DefaultWriteTimeout = 5 * Second"
definition DefaultSessionLife :: int where "DefaultSessionLife = Hour"
definition maxSeedAttempts :: nat where "maxSeedAttempts = 16"

record AuthHandlerConfig =
  ahc_MaxRecords :: int
  ahc_HandshakeTimeout :: int
  ahc_WriteTimeout :: int
  ahc_SessionLife :: int
  ahc_Random :: "go_stream option"

record auth_world =
  aw_accounts :: AccountStore
  aw_disk :: disk
  aw_sessions :: LobbySessionStore
  aw_random :: go_stream
  aw_conn :: conn

section \<open>Construction\<close>

text \<open>\<open>None\<close> is a nil store; \<open>rand_Reader\<close> is the system's randomness. The result is the configuration
  with the defaults filled in.\<close>

definition NewAuthHandler ::
  "go_stream \<Rightarrow> AuthHandlerConfig \<Rightarrow> AccountStore option \<Rightarrow> LobbySessionStore option \<Rightarrow>
     go_error + AuthHandlerConfig" where
  "NewAuthHandler rand_Reader config accounts sessions =
     (if accounts = None \<or> sessions = None
      then Inl (Message ''auth: account and lobby session stores are required'')
      else let
        config = (if ahc_MaxRecords config = 0 then config\<lparr>ahc_MaxRecords := DefaultMaxRecords\<rparr> else config);
        config = (if ahc_WriteTimeout config = 0 then config\<lparr>ahc_WriteTimeout := DefaultWriteTimeout\<rparr> else config);
        config = (if ahc_HandshakeTimeout config = 0
                  then config\<lparr>ahc_HandshakeTimeout := DefaultHandshakeTimeout\<rparr> else config);
        config = (if ahc_SessionLife config = 0 then config\<lparr>ahc_SessionLife := DefaultSessionLife\<rparr> else config);
        config = (if ahc_Random config = None then config\<lparr>ahc_Random := Some rand_Reader\<rparr> else config)
      in if ahc_MaxRecords config < 1 \<or> ahc_MaxRecords config > 1024
         then Inl (Message ''auth: maximum records must be between 1 and 1024'')
         else if ahc_WriteTimeout config < Second \<or> ahc_WriteTimeout config > Minute
         then Inl (Message ''auth: write timeout must be between 1s and 1m'')
         else if ahc_HandshakeTimeout config < Second \<or> ahc_HandshakeTimeout config > 5 * Minute
         then Inl (Message ''auth: handshake timeout must be between 1s and 5m'')
         else if ahc_SessionLife config < Minute \<or> ahc_SessionLife config > 24 * Hour
         then Inl (Message ''auth: session lifetime must be between 1m and 24h'')
         else Inr config)"

section \<open>The two requests\<close>

text \<open>An operation on the connection, in the state of the handler.\<close>

definition on_conn :: "(conn \<Rightarrow> 'a \<times> conn) \<Rightarrow> auth_world \<Rightarrow> 'a \<times> auth_world" where
  "on_conn f w = (case f (aw_conn w) of (a, c) \<Rightarrow> (a, w\<lparr>aw_conn := c\<rparr>))"

definition auth_writeFrame :: "bytes \<Rightarrow> (auth_world, unit) go" where
  "auth_writeFrame body = on_conn (conn_writeFrame body)"

definition handleCreateAccount :: "bytes \<Rightarrow> (auth_world, unit) go" where
  "handleCreateAccount body w =
     (case ParseCreateAccountBody body of
        Inl e \<Rightarrow> (Inl e, w)
      | Inr request \<Rightarrow>
          (case RegisterFromPeer (car_Username request) (car_PasswordHash request) (cn_peer (aw_conn w))
                  (aw_accounts w, aw_disk w) of
             ((_, created, err), (accounts, d)) \<Rightarrow>
               let w = w\<lparr>aw_accounts := accounts, aw_disk := d\<rparr>
               in case err of
                    None \<Rightarrow> auth_writeFrame (MarshalCreateAccountReplyBody
                              (if created then StatusNoError else StatusCreateUsernameExists)) w
                  | Some e \<Rightarrow>
                      if errors_is e (AccountStoreErr ErrAccountLimit) \<or>
                         errors_is e (AccountStoreErr ErrAccountSourceLimit)
                      then auth_writeFrame (MarshalCreateAccountReplyBody StatusCreateMaxAccountsExceeded) w
                      else (Inl e, w)))"

text \<open>\<^verbatim>\<open>io.ReadFull(handler.config.Random, ...)\<close>.\<close>

definition read_random :: "nat \<Rightarrow> (auth_world, bytes) go" where
  "read_random n w = (case ReadFull n (aw_random w) of (r, s) \<Rightarrow> (r, w\<lparr>aw_random := s\<rparr>))"

definition ticket_session :: "Account \<Rightarrow> bytes \<Rightarrow> int \<Rightarrow> u32 \<Rightarrow> LobbySession" where
  "ticket_session account sessionKey expiresAt ticketSeed =
     \<lparr>ls_TicketSeed = ticketSeed, ls_UserID = acc_UserID account, ls_AccountHash = acc_AccountHash account,
      ls_TitleID = BOZTitleID, ls_SessionKey = sessionKey, ls_ExpiresAt = expiresAt\<rparr>"

text \<open>The loop that reserves a session under a fresh seed; the first argument counts the attempts
  left. The result is the seed and the token.\<close>

fun reserve_attempts ::
  "nat \<Rightarrow> Account \<Rightarrow> bytes \<Rightarrow> int \<Rightarrow> int \<Rightarrow> (auth_world, u32 \<times> u64) go" where
  "reserve_attempts 0 account sessionKey issuedAt expiresAt w =
     (Inl (LobbySessionErr ErrLobbySessionSeedCollision), w)"
| "reserve_attempts (Suc n) account sessionKey issuedAt expiresAt w =
     (case read_random 4 w of
        (Inl e, w) \<Rightarrow> (Inl (Context ''auth: generate ticket seed'' e), w)
      | (Inr encodedSeed, w) \<Rightarrow>
          let ticketSeed = LE_Uint32 encodedSeed in
          (case lss_Reserve (ticket_session account sessionKey expiresAt ticketSeed)
                  (cn_peer (aw_conn w)) issuedAt (aw_sessions w) of
             (r, sessions) \<Rightarrow>
               let w = w\<lparr>aw_sessions := sessions\<rparr>
               in case r of
                    Inr token \<Rightarrow> (Inr (ticketSeed, token), w)
                  | Inl e \<Rightarrow>
                      if errors_is e (LobbySessionErr ErrLobbySessionSeedCollision)
                      then reserve_attempts n account sessionKey issuedAt expiresAt w
                      else (Inl e, w)))"

definition revoke_session :: "u32 \<Rightarrow> u64 \<Rightarrow> auth_world \<Rightarrow> auth_world" where
  "revoke_session ticketSeed token w = w\<lparr>aw_sessions := lss_Revoke ticketSeed token (aw_sessions w)\<rparr>"

definition handleAccountForMMP :: "AuthHandlerConfig \<Rightarrow> bytes \<Rightarrow> (auth_world, unit) go" where
  "handleAccountForMMP config body w =
     (case ParseAccountForMMPBody body of
        Inl e \<Rightarrow> (Inl e, w)
      | Inr request \<Rightarrow>
          (case LookupHash (amr_AccountHash request) (aw_accounts w) of
             None \<Rightarrow> auth_writeFrame (marshalAccountForMMPErrorBody StatusBadAccount) w
           | Some account \<Rightarrow>
               (case read_random SessionKeySize w of
                  (Inl e, w) \<Rightarrow> (Inl (Context ''auth: generate session key'' e), w)
                | (Inr sessionKey, w) \<Rightarrow>
                    (case on_conn config_Now w of (issuedAt, w) \<Rightarrow>
                       let expiresAt = issuedAt + ahc_SessionLife config in
                       (case reserve_attempts maxSeedAttempts account sessionKey issuedAt expiresAt w of
                          (Inl e, w) \<Rightarrow> (Inl e, w)
                        | (Inr (ticketSeed, token), w) \<Rightarrow>
                            (case marshalAccountForMMPSuccessBody account ticketSeed sessionKey issuedAt expiresAt of
                               Inl e \<Rightarrow> (Inl e, revoke_session ticketSeed token w)
                             | Inr reply \<Rightarrow>
                                 (case auth_writeFrame reply w of
                                    (Inl e, w) \<Rightarrow> (Inl e, revoke_session ticketSeed token w)
                                  | (Inr _, w) \<Rightarrow> (Inr (), w))))))))"

section \<open>The connection\<close>

text \<open>One record.\<close>

definition auth_record :: "AuthHandlerConfig \<Rightarrow> TransportRecord \<Rightarrow> (auth_world, unit) go" where
  "auth_record config record w =
     (case Kind record of
        RecordKindKeepalive \<Rightarrow> auth_writeFrame [] w
      | RecordKindBufferAvailable \<Rightarrow> (Inr (), w)
      | RecordKindFrame \<Rightarrow>
          let body = Body record in
          if length body < 2
          then (Inl (Context ''missing message type'' (AuthHandlerErr ErrUnsupportedAuthMessage)), w)
          else if body ! 1 = MessageCreateAccountRequest then handleCreateAccount body w
          else if body ! 1 = MessageAccountForMMPRequest then handleAccountForMMP config body w
          else (Inl (Context ''message type'' (AuthHandlerErr ErrUnsupportedAuthMessage)), w))"

text \<open>The loop over the records; the first argument counts the records left. The result is the error
  \<^verbatim>\<open>HandleTCP\<close> returns.\<close>

fun auth_records :: "nat \<Rightarrow> AuthHandlerConfig \<Rightarrow> auth_world \<Rightarrow> go_error option \<times> auth_world" where
  "auth_records 0 config w = (Some (AuthHandlerErr AuthErrRecordLimit), w)"
| "auth_records (Suc n) config w =
     (case on_conn ctx_done w of (stop, w) \<Rightarrow>
        if stop then (None, w)
        else (case on_conn (conn_ReadRecord DefaultMaxFrameBody) w of
                (Inl e, w) \<Rightarrow>
                  (case on_conn ctx_done w of (stop, w) \<Rightarrow>
                     if stop \<or> errors_is e (IoErr EOF) \<or> errors_is e (IoErr ErrUnexpectedEOF) then (None, w)
                     else if is_timeout e then (None, w)
                     else (Some e, w))
              | (Inr record, w) \<Rightarrow>
                  (case auth_record config record w of
                     (Inl e, w) \<Rightarrow> (Some e, w)
                   | (Inr _, w) \<Rightarrow> auth_records n config w)))"

definition auth_HandleTCP :: "AuthHandlerConfig \<Rightarrow> auth_world \<Rightarrow> go_error option \<times> auth_world" where
  "auth_HandleTCP config w =
     (case on_conn time_Now w of (now, w) \<Rightarrow>
        (case on_conn (SetReadDeadline (now + ahc_HandshakeTimeout config)) w of
           (Inl e, w) \<Rightarrow> (if is_closed e then None else Some e, w)
         | (Inr _, w) \<Rightarrow> auth_records (nat (ahc_MaxRecords config)) config w))"

section \<open>Reservations\<close>

text \<open>A store that gained exactly one session, entered under a fresh seed.\<close>

definition reserved_in ::
  "LobbySession \<Rightarrow> net_addr \<Rightarrow> int \<Rightarrow> u64 \<Rightarrow> LobbySessionStore \<Rightarrow> LobbySessionStore \<Rightarrow> bool" where
  "reserved_in session peer now token s s' \<longleftrightarrow>
     (\<exists>old p. set old \<subseteq> set (lss_bySeed s) \<and> lss_bySeed s' = old @ [(ls_TicketSeed session, p)] \<and>
        ls_TicketSeed session \<notin> fst ` set old \<and> lss_fresh_entry session peer now token p)"

lemma Reserve_result:
  assumes i: "lss_inv s" and r: "lss_Reserve session peer now s = (res, s')"
  shows "lss_inv s'" and "(\<exists>e. res = Inl e) \<and> set (lss_bySeed s') \<subseteq> set (lss_bySeed s) \<or>
    (\<exists>token. res = Inr token \<and> reserved_in session peer now token s s')"
proof -
  have c: "lobby_counts.counted s" using i by (simp add: lss_inv_def)
  show "lss_inv s'"
    using lss_inv_step [OF i, of "OpReserve session peer now"] r by simp
  show "(\<exists>e. res = Inl e) \<and> set (lss_bySeed s') \<subseteq> set (lss_bySeed s) \<or>
    (\<exists>token. res = Inr token \<and> reserved_in session peer now token s s')"
    using r
  proof (rule lss_Reserve_cases)
    fix s1 token p
    assume "s1 = lss_purgeExpiredLocked now s" "res = Inr token" "lss_fresh_entry session peer now token p"
      "map_of (lss_bySeed s1) (ls_TicketSeed session) = None"
      "s' = lss_insert (ls_TicketSeed session) p (s1\<lparr>lss_nextToken := token\<rparr>)"
    moreover have "set (lss_bySeed (lss_purgeExpiredLocked now s)) \<subseteq> set (lss_bySeed s)"
      by (rule lss_purge_subset [OF c])
    ultimately show ?thesis
      by (auto simp: reserved_in_def length_update_fresh map_of_eq_None_iff)
  qed (use lss_purge_subset [OF c] in auto)
qed

lemma reserve_attempts_result:
  assumes "lss_inv (aw_sessions w)" and "reserve_attempts n account key issued expires w = (r, w')"
  shows "lss_inv (aw_sessions w') \<and> aw_accounts w' = aw_accounts w \<and> aw_disk w' = aw_disk w \<and> aw_conn w' = aw_conn w \<and>
    ((\<exists>e. r = Inl e) \<and> set (lss_bySeed (aw_sessions w')) \<subseteq> set (lss_bySeed (aw_sessions w)) \<or>
     (\<exists>seed token. r = Inr (seed, token) \<and>
        reserved_in (ticket_session account key expires seed) (cn_peer (aw_conn w)) issued token
          (aw_sessions w) (aw_sessions w')))"
  using assms
proof (induction n arbitrary: w)
  case 0
  then show ?case by auto
next
  case (Suc n)
  obtain x w1 where rd: "read_random 4 w = (x, w1)" by (metis surj_pair)
  have w1: "aw_sessions w1 = aw_sessions w" "aw_accounts w1 = aw_accounts w" "aw_disk w1 = aw_disk w" "aw_conn w1 = aw_conn w"
    using rd by (auto simp: read_random_def split: prod.splits)
  show ?case
  proof (cases x)
    case (Inl e)
    with Suc.prems rd w1 show ?thesis by auto
  next
    case (Inr bs)
    let ?session = "ticket_session account key expires (LE_Uint32 bs)"
    obtain y s2 where rv: "lss_Reserve ?session (cn_peer (aw_conn w1)) issued (aw_sessions w1) = (y, s2)" by (metis surj_pair)
    let ?w2 = "w1\<lparr>aw_sessions := s2\<rparr>"
    have i: "lss_inv (aw_sessions w1)" using Suc.prems(1) w1 by simp
    note res = Reserve_result [OF i rv]
    show ?thesis
    proof (cases y)
      case (Inr token)
      then have "r = Inr (LE_Uint32 bs, token)" "w' = ?w2"
        using Suc.prems(2) rd \<open>x = Inr bs\<close> rv by (auto simp: Let_def)
      with res Inr w1 show ?thesis by auto
    next
      case (Inl e)
      then have sub: "set (lss_bySeed s2) \<subseteq> set (lss_bySeed (aw_sessions w))" using res(2) w1 by auto
      show ?thesis
      proof (cases "errors_is e (LobbySessionErr ErrLobbySessionSeedCollision)")
        case True
        then have "reserve_attempts n account key issued expires ?w2 = (r, w')"
          using Suc.prems(2) rd \<open>x = Inr bs\<close> rv Inl by (auto simp: Let_def)
        with Suc.IH [of ?w2] res(1) w1 sub show ?thesis
          by (auto simp: reserved_in_def)
      next
        case False
        then have "r = Inl e" "w' = ?w2"
          using Suc.prems(2) rd \<open>x = Inr bs\<close> rv Inl by (auto simp: Let_def)
        with res(1) w1 sub show ?thesis by auto
      qed
    qed
  qed
qed

text \<open>Revoking a session just reserved restores the entries.\<close>

lemma revoke_reserved:
  assumes "reserved_in session peer now token s s'"
  shows "set (lss_bySeed (lss_Revoke (ls_TicketSeed session) token s')) \<subseteq> set (lss_bySeed s)"
proof -
  from assms obtain old p where o: "set old \<subseteq> set (lss_bySeed s)" "lss_bySeed s' = old @ [(ls_TicketSeed session, p)]"
    "ls_TicketSeed session \<notin> fst ` set old" "lss_fresh_entry session peer now token p"
    unfolding reserved_in_def by blast
  have "map_of old (ls_TicketSeed session) = None" using o(3) by (simp add: map_of_eq_None_iff)
  then have "map_of (lss_bySeed s') (ls_TicketSeed session) = Some p" using o(2) by (simp add: map_add_def)
  moreover have "pend_token p = token"
    using o(4) unfolding lss_fresh_entry_def by (metis pendingLobbySession.select_convs(3))
  ultimately have "lss_bySeed (lss_Revoke (ls_TicketSeed session) token s') = AList.delete (ls_TicketSeed session) (lss_bySeed s')"
    by (simp add: lss_Revoke_def)
  with o(1,2) show ?thesis by (auto simp: delete_filter)
qed

lemma revoke_inv: "lss_inv s \<Longrightarrow> lss_inv (lss_Revoke seed token s)"
  using lss_inv_step [of s "OpRevoke seed token"] by simp

section \<open>What the server sends\<close>

definition auth_reply :: "bytes \<Rightarrow> bool" where
  "auth_reply body \<longleftrightarrow> body = [] \<or> (\<exists>t status. body = marshalStatusReplyBody t status) \<or>
     (\<exists>account seed key issued expires. length key = SessionKeySize \<and>
        marshalAccountForMMPSuccessBody account seed key issued expires = Inr body)"

lemma auth_reply_empty: "auth_reply []"
  and auth_reply_status: "auth_reply (marshalStatusReplyBody t status)"
  and auth_reply_success: "length key = SessionKeySize \<Longrightarrow>
      marshalAccountForMMPSuccessBody account seed key issued expires = Inr body \<Longrightarrow> auth_reply body"
  unfolding auth_reply_def by blast+

text \<open>The part of the state a request leaves alone, and what it sends.\<close>

abbreviation aw_output :: "auth_world \<Rightarrow> bytes" where
  "aw_output w \<equiv> w_out (cn_out (aw_conn w))"

lemma auth_writeFrame_result:
  assumes "auth_writeFrame body w = (r, w')" and "auth_reply body"
  shows "aw_accounts w' = aw_accounts w" "aw_disk w' = aw_disk w" "aw_sessions w' = aw_sessions w"
    "cn_peer (aw_conn w') = cn_peer (aw_conn w)" "cn_in (aw_conn w') = cn_in (aw_conn w)"
    and "sends auth_reply 1 (aw_output w) (aw_output w')"
    and "r = Inr () \<Longrightarrow> aw_output w' = aw_output w @ frame_bytes body"
    and "r = Inr () \<Longrightarrow> sends_all auth_reply 1 (aw_output w) (aw_output w')"
proof -
  obtain c where c: "conn_writeFrame body (aw_conn w) = (r, c)" "w' = w\<lparr>aw_conn := c\<rparr>"
    using assms(1) by (auto simp: auth_writeFrame_def on_conn_def split: prod.splits)
  show "aw_accounts w' = aw_accounts w" "aw_disk w' = aw_disk w" "aw_sessions w' = aw_sessions w"
    "cn_peer (aw_conn w') = cn_peer (aw_conn w)" "cn_in (aw_conn w') = cn_in (aw_conn w)"
    using c(2) conn_writeFrame_result [OF c(1)] by simp_all
  show "sends auth_reply 1 (aw_output w) (aw_output w')"
    using c(2) conn_writeFrame_sends(1) [where P = auth_reply, OF c(1) assms(2)] by simp
  show "r = Inr () \<Longrightarrow> aw_output w' = aw_output w @ frame_bytes body"
    using c(2) conn_writeFrame_result(5) [OF c(1)] by auto
  show "r = Inr () \<Longrightarrow> sends_all auth_reply 1 (aw_output w) (aw_output w')"
    using c(2) conn_writeFrame_sends(2) [where P = auth_reply, OF c(1) assms(2)] by simp
qed

lemma read_random_result:
  assumes "read_random n w = (r, w')"
  shows "aw_accounts w' = aw_accounts w" "aw_disk w' = aw_disk w" "aw_sessions w' = aw_sessions w" "aw_conn w' = aw_conn w"
    and "r = Inr bs \<Longrightarrow> length bs = n"
  using assms by (auto simp: read_random_def ReadFull_eq_Inr split: prod.splits)

lemma on_conn_Now: "on_conn config_Now w = (t, w') \<Longrightarrow>
   aw_accounts w' = aw_accounts w \<and> aw_disk w' = aw_disk w \<and> aw_sessions w' = aw_sessions w \<and>
   cn_peer (aw_conn w') = cn_peer (aw_conn w) \<and> cn_in (aw_conn w') = cn_in (aw_conn w) \<and>
   aw_output w' = aw_output w"
  by (auto simp: on_conn_def config_Now_def split: list.splits)

text \<open>A ticket request that was answered with a ticket.\<close>

definition ticket_issued :: "AuthHandlerConfig \<Rightarrow> bytes \<Rightarrow> auth_world \<Rightarrow> auth_world \<Rightarrow> bool" where
  "ticket_issued config body w w' \<longleftrightarrow>
     (\<exists>request account key issued seed token reply.
        ParseAccountForMMPBody body = Inr request \<and>
        LookupHash (amr_AccountHash request) (aw_accounts w) = Some account \<and> length key = SessionKeySize \<and>
        reserved_in (ticket_session account key (issued + ahc_SessionLife config) seed) (cn_peer (aw_conn w)) issued token
          (aw_sessions w) (aw_sessions w') \<and>
        marshalAccountForMMPSuccessBody account seed key issued (issued + ahc_SessionLife config) = Inr reply \<and>
        aw_output w' = aw_output w @ frame_bytes reply)"

definition no_new_session :: "auth_world \<Rightarrow> auth_world \<Rightarrow> bool" where
  "no_new_session w w' \<longleftrightarrow> set (lss_bySeed (aw_sessions w')) \<subseteq> set (lss_bySeed (aw_sessions w))"

text \<open>What a ticket request comes to, by its result \<open>r\<close>.\<close>

definition known_account :: "bytes \<Rightarrow> auth_world \<Rightarrow> bool" where
  "known_account body w \<longleftrightarrow>
     (case ParseAccountForMMPBody body of
        Inl _ \<Rightarrow> False
      | Inr request \<Rightarrow> LookupHash (amr_AccountHash request) (aw_accounts w) \<noteq> None)"

definition ticket_outcome :: "AuthHandlerConfig \<Rightarrow> bytes \<Rightarrow> auth_world \<Rightarrow> go_error + unit \<Rightarrow> auth_world \<Rightarrow> bool" where
  "ticket_outcome config body w r w' \<longleftrightarrow>
     (case r of
        Inl _ \<Rightarrow> no_new_session w w'
      | Inr _ \<Rightarrow>
          if known_account body w then ticket_issued config body w w'
          else no_new_session w w' \<and>
            aw_output w' = aw_output w @ frame_bytes (marshalAccountForMMPErrorBody StatusBadAccount))"

lemma ticket_outcome_cases:
  "ticket_outcome config body w r w' \<Longrightarrow> no_new_session w w' \<or> r = Inr () \<and> ticket_issued config body w w'"
  by (auto simp: ticket_outcome_def split: sum.splits if_splits)

lemma handleAccountForMMP_result:
  assumes i: "lss_inv (aw_sessions w)" and h: "handleAccountForMMP config body w = (r, w')"
  shows "lss_inv (aw_sessions w') \<and> aw_accounts w' = aw_accounts w \<and> aw_disk w' = aw_disk w \<and>
    sends auth_reply 1 (aw_output w) (aw_output w') \<and> (r = Inr () \<longrightarrow> sends_all auth_reply 1 (aw_output w) (aw_output w')) \<and>
    ticket_outcome config body w r w'"
proof (cases "ParseAccountForMMPBody body")
  case (Inl e)
  with h i show ?thesis by (auto simp: handleAccountForMMP_def no_new_session_def ticket_outcome_def)
next
  case req: (Inr request)
  show ?thesis
  proof (cases "LookupHash (amr_AccountHash request) (aw_accounts w)")
    case None
    with h req have "auth_writeFrame (marshalAccountForMMPErrorBody StatusBadAccount) w = (r, w')"
      by (simp add: handleAccountForMMP_def)
    then show ?thesis
      using auth_writeFrame_result [of "marshalAccountForMMPErrorBody StatusBadAccount" w r w'] i auth_reply_status
      using req None
      by (auto simp: marshalAccountForMMPErrorBody_def no_new_session_def ticket_outcome_def known_account_def split: sum.split)
  next
    case acc: (Some account)
    obtain x w1 where rd: "read_random SessionKeySize w = (x, w1)" by (metis surj_pair)
    note w1 = read_random_result [OF rd]
    show ?thesis
    proof (cases x)
      case (Inl e)
      with h req acc rd w1 i show ?thesis by (auto simp: handleAccountForMMP_def no_new_session_def ticket_outcome_def)
    next
      case x: (Inr key)
      have key: "length key = SessionKeySize" using w1(5) x by simp
      obtain issued w2 where nw: "on_conn config_Now w1 = (issued, w2)" by (metis surj_pair)
      let ?exp = "issued + ahc_SessionLife config"
      obtain y w3 where ra: "reserve_attempts maxSeedAttempts account key issued ?exp w2 = (y, w3)" by (metis surj_pair)
      have i2: "lss_inv (aw_sessions w2)" using i on_conn_Now [OF nw] w1 by simp
      note w2 = on_conn_Now [OF nw]
      note res = reserve_attempts_result [OF i2 ra]
      have w3: "aw_accounts w3 = aw_accounts w" "aw_disk w3 = aw_disk w" "aw_output w3 = aw_output w" "lss_inv (aw_sessions w3)"
        using res w1 w2 by simp_all
      show ?thesis
      proof (cases y)
        case (Inl e)
        with h req acc rd x nw ra have "w' = w3" "r = Inl e" by (auto simp: handleAccountForMMP_def Let_def)
        with res Inl w1 w2 w3 show ?thesis by (auto simp: no_new_session_def ticket_outcome_def)
      next
        case y: (Inr st)
        obtain seed token where st: "st = (seed, token)" by (metis surj_pair)
        let ?session = "ticket_session account key ?exp seed"
        have new: "reserved_in ?session (cn_peer (aw_conn w)) issued token (aw_sessions w) (aw_sessions w3)"
          using res y st w1 w2 by auto
        have gone: "set (lss_bySeed (lss_Revoke seed token (aw_sessions w3))) \<subseteq> set (lss_bySeed (aw_sessions w))"
          using revoke_reserved [OF new] by (simp add: ticket_session_def)
        show ?thesis
        proof (cases "marshalAccountForMMPSuccessBody account seed key issued ?exp")
          case (Inl e)
          with h req acc rd x nw ra y st have "w' = revoke_session seed token w3" "r = Inl e"
            by (auto simp: handleAccountForMMP_def Let_def)
          with gone w3 revoke_inv show ?thesis by (simp add: revoke_session_def no_new_session_def ticket_outcome_def)
        next
          case reply: (Inr reply)
          obtain z w4 where wr: "auth_writeFrame reply w3 = (z, w4)" by (metis surj_pair)
          note sent = auth_writeFrame_result [OF wr auth_reply_success [OF key reply]]
          show ?thesis
          proof (cases z)
            case (Inl e)
            with h req acc rd x nw ra y st reply wr have "w' = revoke_session seed token w4" "r = Inl e"
              by (auto simp: handleAccountForMMP_def Let_def)
            with gone w3 sent(1-6) revoke_inv show ?thesis by (simp add: revoke_session_def no_new_session_def ticket_outcome_def)
          next
            case (Inr u)
            with h req acc rd x nw ra y st reply wr have "w' = w4" "r = Inr ()"
              by (auto simp: handleAccountForMMP_def Let_def)
            moreover have "ticket_issued config body w w4"
              unfolding ticket_issued_def using req acc key new reply sent(3,7) w3(3) Inr by auto
            ultimately show ?thesis
              using w3 sent(1-3,6,8) Inr req acc by (simp add: ticket_outcome_def known_account_def)
          qed
        qed
      qed
    qed
  qed
qed

lemma handleCreateAccount_result:
  assumes h: "handleCreateAccount body w = (r, w')"
  shows "aw_sessions w' = aw_sessions w \<and>
    (\<exists>ops. length ops \<le> 1 \<and> list_all acs_op_ok ops \<and>
       (aw_accounts w', aw_disk w') = acs_run ops (aw_accounts w, aw_disk w)) \<and>
    sends auth_reply 1 (aw_output w) (aw_output w') \<and> (r = Inr () \<longrightarrow> sends_all auth_reply 1 (aw_output w) (aw_output w'))"
proof (cases "ParseCreateAccountBody body")
  case (Inl e)
  with h show ?thesis by (auto simp: handleCreateAccount_def acs_run_def intro!: exI [of _ "[]"])
next
  case req: (Inr request)
  let ?op = "AccRegisterFromPeer (car_Username request) (car_PasswordHash request) (cn_peer (aw_conn w))"
  have ok: "acs_op_ok ?op" using req by (simp add: ParseCreateAccountBody_eq)
  obtain a created err accounts d where reg: "RegisterFromPeer (car_Username request) (car_PasswordHash request)
      (cn_peer (aw_conn w)) (aw_accounts w, aw_disk w) = ((a, created, err), (accounts, d))"
    by (metis surj_pair)
  let ?w = "w\<lparr>aw_accounts := accounts, aw_disk := d\<rparr>"
  have run: "(accounts, d) = acs_run [?op] (aw_accounts w, aw_disk w)" using reg by (simp add: acs_run_def)
  have out: "(\<exists>status. auth_writeFrame (marshalStatusReplyBody MessageCreateAccountReply status) ?w = (r, w')) \<or>
      (\<exists>e. r = Inl e) \<and> w' = ?w"
    using h req reg by (auto simp: handleCreateAccount_def MarshalCreateAccountReplyBody_def Let_def
        split: option.splits if_splits)
  then have "aw_sessions w' = aw_sessions w \<and> aw_accounts w' = accounts \<and> aw_disk w' = d \<and>
    sends auth_reply 1 (aw_output w) (aw_output w') \<and> (r = Inr () \<longrightarrow> sends_all auth_reply 1 (aw_output w) (aw_output w'))"
  proof
    assume "\<exists>status. auth_writeFrame (marshalStatusReplyBody MessageCreateAccountReply status) ?w = (r, w')"
    then obtain status where "auth_writeFrame (marshalStatusReplyBody MessageCreateAccountReply status) ?w = (r, w')" by blast
    from auth_writeFrame_result [OF this auth_reply_status] show ?thesis by auto
  qed auto
  with run ok show ?thesis by (intro conjI exI [of _ "[?op]"]) auto
qed

text \<open>Every pending session belongs to an account and carries a session key.\<close>

definition sessions_ok :: "AccountStore \<Rightarrow> LobbySessionStore \<Rightarrow> bool" where
  "sessions_ok accounts sessions \<longleftrightarrow>
     (\<forall>(seed, p)\<in>set (lss_bySeed sessions).
        ls_TicketSeed (pend_session p) = seed \<and> length (ls_SessionKey (pend_session p)) = SessionKeySize \<and>
        ls_TitleID (pend_session p) = BOZTitleID \<and>
        (\<exists>a. LookupUserID (ls_UserID (pend_session p)) accounts = Some a \<and>
             acc_AccountHash a = ls_AccountHash (pend_session p)))"

definition auth_inv :: "auth_world \<Rightarrow> bool" where
  "auth_inv w \<longleftrightarrow> acs_inv (aw_accounts w) \<and> lss_inv (aw_sessions w) \<and> sessions_ok (aw_accounts w) (aw_sessions w)"

lemma sessions_ok_less:
  "sessions_ok accounts s \<Longrightarrow> set (lss_bySeed s') \<subseteq> set (lss_bySeed s) \<Longrightarrow> sessions_ok accounts s'"
  unfolding sessions_ok_def by blast

lemma sessions_ok_more:
  assumes "sessions_ok acc s" and "acs_extends acc acc'" and "acs_inv acc" and "acs_inv acc'"
  shows "sessions_ok acc' s"
  using assms(1) acs_extends_lookup(3) [OF assms(2-4)] unfolding sessions_ok_def by fast

lemma sessions_ok_issued:
  assumes s: "sessions_ok (aw_accounts w) (aw_sessions w)" and i: "acs_inv (aw_accounts w)"
    and t: "ticket_issued config body w w'"
  shows "sessions_ok (aw_accounts w) (aw_sessions w')"
proof -
  from t obtain h account key issued seed token where acc: "LookupHash h (aw_accounts w) = Some account"
    and key: "length key = SessionKeySize"
    and r: "reserved_in (ticket_session account key (issued + ahc_SessionLife config) seed) (cn_peer (aw_conn w)) issued token
          (aw_sessions w) (aw_sessions w')"
    unfolding ticket_issued_def by blast
  let ?session = "ticket_session account key (issued + ahc_SessionLife config) seed"
  from r obtain old p where o: "set old \<subseteq> set (lss_bySeed (aw_sessions w))"
    "lss_bySeed (aw_sessions w') = old @ [(ls_TicketSeed ?session, p)]"
    "lss_fresh_entry ?session (cn_peer (aw_conn w)) issued token p"
    unfolding reserved_in_def by blast
  have p: "pend_session p = ?session"
    using o(3) unfolding lss_fresh_entry_def by (metis pendingLobbySession.select_convs(1))
  have "account \<in> set (accounts_of (aw_accounts w))"
    using acc i by (simp add: LookupHash_def acs_inv_def acs_indexed_def)
  then have "LookupUserID (acc_UserID account) (aw_accounts w) = Some account"
    using i by (simp add: LookupUserID_def acs_inv_def acs_indexed_def)
  then show ?thesis
    using s o(1,2) key p by (auto simp: sessions_ok_def ticket_session_def)
qed

text \<open>What one record does.\<close>

lemma auth_record_result:
  assumes i: "auth_inv w" and n: "unat (acs_nextUserID (aw_accounts w)) + 1 < 2 ^ 64"
    and h: "auth_record config record w = (r, w')"
  shows "auth_inv w' \<and> unat (acs_nextUserID (aw_accounts w')) \<le> unat (acs_nextUserID (aw_accounts w)) + 1 \<and>
    acs_extends (aw_accounts w) (aw_accounts w') \<and>
    sends auth_reply 1 (aw_output w) (aw_output w') \<and> (r = Inr () \<longrightarrow> sends_all auth_reply 1 (aw_output w) (aw_output w'))"
proof -
  consider (wr) "auth_writeFrame [] w = (r, w')" | (create) "handleCreateAccount (Body record) w = (r, w')"
    | (mmp) "handleAccountForMMP config (Body record) w = (r, w')" | (stay) "w' = w"
    using h by (auto simp: auth_record_def Let_def split: TransportRecordKind.splits if_splits)
  then show ?thesis
  proof cases
    case wr
    from auth_writeFrame_result [OF wr auth_reply_empty] i show ?thesis by (simp add: auth_inv_def)
  next
    case create
    note res = handleCreateAccount_result [OF create]
    then obtain ops where ops: "length ops \<le> 1" "acs_run ops (aw_accounts w, aw_disk w) = (aw_accounts w', aw_disk w')"
      by auto
    have "unat (acs_nextUserID (aw_accounts w)) + length ops < 2 ^ 64" using n ops(1) by simp
    from acs_run_inv [OF _ this ops(2)] i ops(1)
    have a: "acs_inv (aw_accounts w')" "acs_extends (aw_accounts w) (aw_accounts w')"
      "unat (acs_nextUserID (aw_accounts w')) \<le> unat (acs_nextUserID (aw_accounts w)) + 1"
      by (auto simp: auth_inv_def)
    with res i sessions_ok_more [OF _ a(2) _ a(1)] show ?thesis by (simp add: auth_inv_def)
  next
    case mmp
    have l: "lss_inv (aw_sessions w)" using i by (simp add: auth_inv_def)
    note res = handleAccountForMMP_result [OF l mmp]
    then have "no_new_session w w' \<or> ticket_issued config (Body record) w w'" using ticket_outcome_cases by blast
    then have "sessions_ok (aw_accounts w) (aw_sessions w')"
      using i sessions_ok_less sessions_ok_issued by (auto simp: auth_inv_def no_new_session_def)
    with res i show ?thesis by (simp add: auth_inv_def)
  next
    case stay
    with i show ?thesis by simp
  qed
qed

lemma on_conn_quiet:
  assumes "on_conn f w = (a, w')" and "\<And>c. cn_out (snd (f c)) = cn_out c"
  shows "aw_accounts w' = aw_accounts w" "aw_disk w' = aw_disk w" "aw_sessions w' = aw_sessions w" "aw_output w' = aw_output w"
  using assms(1) assms(2) [of "aw_conn w"] by (auto simp: on_conn_def split: prod.splits)

lemma auth_inv_cong:
  "aw_accounts w' = aw_accounts w \<Longrightarrow> aw_sessions w' = aw_sessions w \<Longrightarrow> auth_inv w' = auth_inv w"
  by (simp add: auth_inv_def)

lemma auth_records_result:
  assumes "auth_inv w" and "unat (acs_nextUserID (aw_accounts w)) + n < 2 ^ 64" and "auth_records n config w = (e, w')"
  shows "auth_inv w' \<and> acs_extends (aw_accounts w) (aw_accounts w') \<and> sends auth_reply n (aw_output w) (aw_output w')"
  using assms
proof (induction n arbitrary: w)
  case 0
  then show ?case by auto
next
  case (Suc n)
  obtain b w1 where s1: "on_conn ctx_done w = (b, w1)" by (metis surj_pair)
  obtain x w2 where s2: "on_conn (conn_ReadRecord DefaultMaxFrameBody) w1 = (x, w2)" by (metis surj_pair)
  have q2: "cn_out (snd (conn_ReadRecord DefaultMaxFrameBody c)) = cn_out c" for c
    by (simp add: conn_ReadRecord_def split: prod.splits)
  note w1 = on_conn_quiet [OF s1 ctx_done_fields(2)]
  note w2 = on_conn_quiet [OF s2 q2]
  have keep: "auth_inv w1" "auth_inv w2" using Suc.prems(1) w1 w2 by (simp_all add: auth_inv_def)
  show ?case
  proof (cases b)
    case True
    with Suc.prems s1 w1 keep show ?thesis by auto
  next
    case b: False
    show ?thesis
    proof (cases x)
      case (Inl err)
      obtain b' w3 where s3: "on_conn ctx_done w2 = (b', w3)" by (metis surj_pair)
      have "w' = w3" using Suc.prems(3) s1 s2 s3 b Inl by (auto split: if_splits)
      with on_conn_quiet [OF s3 ctx_done_fields(2)] w1 w2 Suc.prems(1) show ?thesis by (simp add: auth_inv_def)
    next
      case (Inr rec)
      obtain y w3 where s3: "auth_record config rec w2 = (y, w3)" by (metis surj_pair)
      have n2: "unat (acs_nextUserID (aw_accounts w2)) + 1 < 2 ^ 64" using Suc.prems(2) w1 w2 by simp
      note one = auth_record_result [OF keep(2) n2 s3]
      show ?thesis
      proof (cases y)
        case (Inl err)
        then have "w' = w3" using Suc.prems(3) s1 s2 s3 b \<open>x = Inr rec\<close> by auto
        with one w1 w2 sends_mono [of auth_reply 1 _ _ "Suc n"] show ?thesis by auto
      next
        case (Inr u)
        then have rest: "auth_records n config w3 = (e, w')" using Suc.prems(3) s1 s2 s3 b \<open>x = Inr rec\<close> by auto
        have n3: "unat (acs_nextUserID (aw_accounts w3)) + n < 2 ^ 64" using one Suc.prems(2) w1 w2 by simp
        have "auth_inv w3" using one by simp
        from Suc.IH [OF this n3 rest] have two: "auth_inv w'" "acs_extends (aw_accounts w3) (aw_accounts w')"
          "sends auth_reply n (aw_output w3) (aw_output w')" by simp_all
        have "sends auth_reply (1 + n) (aw_output w2) (aw_output w')"
          by (rule sends_trans [OF _ two(3)]) (use one Inr in simp)
        with one two acs_extends_trans w1 w2 show ?thesis by auto
      qed
    qed
  qed
qed

lemma auth_reply_length: "auth_reply body \<Longrightarrow> length body \<in> {0, 7, 140}"
  unfolding auth_reply_def
  by (elim disjE exE conjE) (auto simp: marshalStatusReplyBody_eq dest!: success_body_layout)

lemma auth_HandleTCP_result:
  assumes "auth_inv w" and "unat (acs_nextUserID (aw_accounts w)) + nat (ahc_MaxRecords config) < 2 ^ 64"
    and "auth_HandleTCP config w = (e, w')"
  shows "auth_inv w' \<and> acs_extends (aw_accounts w) (aw_accounts w') \<and>
    sends auth_reply (nat (ahc_MaxRecords config)) (aw_output w) (aw_output w')"
proof -
  obtain now w1 where s1: "on_conn time_Now w = (now, w1)" by (metis surj_pair)
  obtain x w2 where s2: "on_conn (SetReadDeadline (now + ahc_HandshakeTimeout config)) w1 = (x, w2)" by (metis surj_pair)
  have q: "cn_out (snd (SetReadDeadline t c)) = cn_out c" for t c
    using SetReadDeadline_result(2) [of t c] by (metis prod.collapse)
  note w1 = on_conn_quiet [OF s1 time_Now_fields(2)]
  note w2 = on_conn_quiet [OF s2 q]
  show ?thesis
  proof (cases x)
    case (Inl err)
    then have "w' = w2" using assms(3) s1 s2 by (auto simp: auth_HandleTCP_def)
    with w1 w2 assms(1) show ?thesis by (simp add: auth_inv_def)
  next
    case (Inr u)
    then have "auth_records (nat (ahc_MaxRecords config)) config w2 = (e, w')"
      using assms(3) s1 s2 by (simp add: auth_HandleTCP_def)
    from auth_records_result [OF _ _ this] w1 w2 assms(1,2) show ?thesis by (simp add: auth_inv_def)
  qed
qed

text \<open>Once a connection is closed its handler returns without handling a further record.\<close>

lemma closed_connection_stops:
  assumes "cn_closed (aw_conn w)" and "auth_records n config w = (e, w')"
  shows "aw_accounts w' = aw_accounts w \<and> aw_disk w' = aw_disk w \<and> aw_sessions w' = aw_sessions w \<and> aw_output w' = aw_output w"
proof (cases n)
  case (Suc k)
  obtain stop w1 where 1: "on_conn ctx_done w = (stop, w1)" by (metis surj_pair)
  have "cn_closed (aw_conn w1)" using 1 assms(1) by (auto simp: on_conn_def ctx_done_def split: list.splits)
  then obtain x where 2: "on_conn (conn_ReadRecord DefaultMaxFrameBody) w1 = (Inl x, w1)"
    by (simp add: on_conn_def conn_ReadRecord_def)
  obtain b w2 where 3: "on_conn ctx_done w1 = (b, w2)" by (metis surj_pair)
  have "w' = w1 \<or> w' = w2" using assms(2) 1 2 3 Suc by (auto split: if_splits)
  with on_conn_quiet [OF 1 ctx_done_fields(2)] on_conn_quiet [OF 3 ctx_done_fields(2)] show ?thesis by auto
qed (use assms(2) in simp)

section \<open>Properties\<close>

text \<open>Whatever bytes arrive and whatever fails, a connection leaves the shared stores in order: the
  stores keep their invariants, no registered account changes, and every pending session carries a
  full session key and the hash of the account it names.\<close>

theorem auth_connection_keeps_stores:
  assumes "auth_inv w" and "unat (acs_nextUserID (aw_accounts w)) + nat (ahc_MaxRecords config) < 2 ^ 64"
    and "auth_HandleTCP config w = (e, w')"
  shows "auth_inv w' \<and> acs_extends (aw_accounts w) (aw_accounts w')"
  using auth_HandleTCP_result [OF assms] by simp

text \<open>A connection is sent at most as many frames as it may send records, each of them a keep-alive,
  a status reply or a ticket reply, and none has the length that a peer would take for a control
  word; only the last frame may be cut short.\<close>

theorem auth_connection_sends:
  assumes "auth_inv w" and "unat (acs_nextUserID (aw_accounts w)) + nat (ahc_MaxRecords config) < 2 ^ 64"
    and "auth_HandleTCP config w = (e, w')"
  shows "sends (\<lambda>body. auth_reply body \<and> length body \<noteq> BufferAvailableRecordMarker)
    (nat (ahc_MaxRecords config)) (aw_output w) (aw_output w')"
  using auth_HandleTCP_result [OF assms] auth_reply_length
  by (fastforce elim!: sends_weaken simp: BufferAvailableRecordMarker_def)

text \<open>C14: a ticket request leaves a session behind exactly when it named a known account and was answered
  without an error: then the one session added carries that account's identity, the peer of this
  connection and a key of 24 bytes, and the reply with its ticket is what the connection was sent. A
  request for an unknown account that is answered gets the bad-account status, and that request, like
  every request that ends with an error, leaves no new session. The accounts never change.\<close>

theorem ticket_request_reserves_once:
  assumes "lss_inv (aw_sessions w)" and "handleAccountForMMP config body w = (r, w')"
  shows "aw_accounts w' = aw_accounts w \<and> aw_disk w' = aw_disk w \<and>
    (case r of
       Inl _ \<Rightarrow> no_new_session w w'
     | Inr _ \<Rightarrow>
         if known_account body w then ticket_issued config body w w'
         else no_new_session w w' \<and>
           aw_output w' = aw_output w @ frame_bytes (marshalAccountForMMPErrorBody StatusBadAccount))"
  using handleAccountForMMP_result [OF assms] by (simp add: ticket_outcome_def)

section \<open>A request that is served\<close>

lemma success_body_exists:
  assumes "account_ok account" and "issuedAt < expiresAt" and "0 \<le> time_Unix issuedAt"
    and "time_Unix expiresAt \<le> int MaxUint32"
  shows "\<exists>body. marshalAccountForMMPSuccessBody account seed key issuedAt expiresAt = Inr body"
proof -
  have "time_Unix issuedAt \<le> time_Unix expiresAt" using assms(2) by (simp add: time_Unix_def zdiv_mono1)
  then have t: "0 \<le> time_Unix expiresAt" "time_Unix issuedAt \<le> int MaxUint32" using assms(3,4) by simp_all
  let ?p = "ticket_plaintext account key (time_Unix issuedAt) (time_Unix expiresAt)"
  have "length ?p = 128" by (simp add: ticket_plaintext_def Let_def authTicketSize_def)
  then obtain c where "Encrypt3DESCBC (acc_PasswordHash account) (DeriveIV seed) ?p = Inr c"
    using assms(1) by (simp add: Encrypt3DESCBC_eq account_ok_def)
  then show ?thesis
    using assms t by (simp add: marshalAccountForMMPSuccessBody_def buildEncryptedAuthTicket_def Let_def
        account_ok_def valid_username_def accountUsernameSize_def)
qed

lemma auth_reply_sent:
  assumes "auth_reply body" and "cn_deadlines (aw_conn w) = []" and "w_script (cn_out (aw_conn w)) = []"
    and "\<not> cn_closed (aw_conn w)"
  shows "\<exists>w'. auth_writeFrame body w = (Inr (), w')"
proof -
  have "length body \<in> {0, 7, 140}" by (rule auth_reply_length [OF assms(1)])
  then have "checkFrameBody body = None"
    by (auto simp: checkFrameBody_def BufferAvailableRecordMarker_def)
  with assms(2-4) show ?thesis
    by (auto simp: auth_writeFrame_def on_conn_def conn_writeFrame_def set_deadline_def time_Now_def
        WriteFrame_def writeAll_done split: list.splits)
qed

text \<open>The store has room for one more session of the user under the seed.\<close>

definition session_room :: "LobbySessionStore \<Rightarrow> u64 \<Rightarrow> u32 \<Rightarrow> bool" where
  "session_room store user seed \<longleftrightarrow> map_of (lss_bySeed store) seed = None \<and>
     gm_count (lss_sessionsByAccount store) user < lss_maxSessionsPerAccount store \<and>
     int (length (lss_bySeed store)) < lss_maxSessions store"

lemma reserve_first_attempt:
  assumes "4 \<le> length (st_bytes (aw_random w))" and "lobbyPeerIdentity (cn_peer (aw_conn w)) = Inr pid"
    and "acc_UserID account \<noteq> 0" and "issued < expires"
    and "session_room (lss_purgeExpiredLocked issued (aw_sessions w)) (acc_UserID account)
           (LE_Uint32 (take 4 (st_bytes (aw_random w))))"
  shows "\<exists>token w'. reserve_attempts (Suc n) account key issued expires w =
      (Inr (LE_Uint32 (take 4 (st_bytes (aw_random w))), token), w')"
  using assms by (simp add: read_random_def ReadFull_def lss_Reserve_def ticket_session_def session_room_def Let_def)

lemma ticket_served:
  assumes "lss_inv (aw_sessions w)" and "ParseAccountForMMPBody body = Inr request"
    and "LookupHash (amr_AccountHash request) (aw_accounts w) = Some account" and "account_ok account"
    and "28 \<le> length (st_bytes (aw_random w))" and "cn_now (aw_conn w) = issued # later"
    and "0 < ahc_SessionLife config" and "0 \<le> time_Unix issued"
    and "time_Unix (issued + ahc_SessionLife config) \<le> int MaxUint32"
    and "lobbyPeerIdentity (cn_peer (aw_conn w)) = Inr pid"
    and "session_room (lss_purgeExpiredLocked issued (aw_sessions w)) (acc_UserID account)
           (LE_Uint32 (take 4 (drop 24 (st_bytes (aw_random w)))))"
    and "cn_deadlines (aw_conn w) = []" and "w_script (cn_out (aw_conn w)) = []" and "\<not> cn_closed (aw_conn w)"
  shows "\<exists>w' p reply. handleAccountForMMP config body w = (Inr (), w') \<and>
    map_of (lss_bySeed (aw_sessions w')) (LE_Uint32 (take 4 (drop 24 (st_bytes (aw_random w))))) = Some p \<and>
    pend_session p = ticket_session account (take 24 (st_bytes (aw_random w))) (issued + ahc_SessionLife config)
      (LE_Uint32 (take 4 (drop 24 (st_bytes (aw_random w))))) \<and> pend_peer p = pid \<and>
    marshalAccountForMMPSuccessBody account (LE_Uint32 (take 4 (drop 24 (st_bytes (aw_random w)))))
      (take 24 (st_bytes (aw_random w))) issued (issued + ahc_SessionLife config) = Inr reply \<and>
    aw_output w' = aw_output w @ frame_bytes reply"
proof -
  let ?key = "take 24 (st_bytes (aw_random w))" and ?exp = "issued + ahc_SessionLife config"
  let ?seed = "LE_Uint32 (take 4 (drop 24 (st_bytes (aw_random w))))"
  let ?w1 = "w\<lparr>aw_random := aw_random w\<lparr>st_bytes := drop 24 (st_bytes (aw_random w))\<rparr>\<rparr>"
  let ?w2 = "?w1\<lparr>aw_conn := (aw_conn w)\<lparr>cn_now := later\<rparr>\<rparr>"
  have rd: "read_random SessionKeySize w = (Inr ?key, ?w1)"
    using assms(5) by (simp add: read_random_def ReadFull_def SessionKeySize_def)
  have nw: "on_conn config_Now ?w1 = (issued, ?w2)"
    using assms(6) by (simp add: on_conn_def config_Now_def)
  obtain n where n: "maxSeedAttempts = Suc n" by (simp add: maxSeedAttempts_def)
  obtain token w3 where ra: "reserve_attempts maxSeedAttempts account ?key issued ?exp ?w2 = (Inr (?seed, token), w3)"
  proof -
    have "acc_UserID account \<noteq> 0" using assms(4) by (simp add: account_ok_def)
    with reserve_first_attempt [of ?w2 pid account issued ?exp n ?key] assms(5,7,10,11)
    have "\<exists>token w3. reserve_attempts (Suc n) account ?key issued ?exp ?w2 = (Inr (?seed, token), w3)"
      by (simp del: reserve_attempts.simps)
    then show ?thesis using that [unfolded n] by blast
  qed
  note res = reserve_attempts_result [OF _ ra]
  have r3: "aw_conn w3 = aw_conn ?w2"
    "reserved_in (ticket_session account ?key ?exp ?seed) (cn_peer (aw_conn w)) issued token (aw_sessions w) (aw_sessions w3)"
    using res assms(1) by auto
  obtain reply where reply: "marshalAccountForMMPSuccessBody account ?seed ?key issued ?exp = Inr reply"
    using success_body_exists [OF assms(4), of issued ?exp] assms(7-9) by auto
  have key: "length ?key = SessionKeySize" using assms(5) by (simp add: SessionKeySize_def)
  obtain w4 where w4: "auth_writeFrame reply w3 = (Inr (), w4)"
    using auth_reply_sent [OF auth_reply_success [OF key reply], of w3] r3(1) assms(12-14) by auto
  have h: "handleAccountForMMP config body w = (Inr (), w4)"
    using assms(2,3) rd nw ra reply w4 by (simp add: handleAccountForMMP_def Let_def)
  have same: "aw_sessions w4 = aw_sessions w3"
    using auth_writeFrame_result(3) [OF w4 auth_reply_success [OF key reply]] .
  from r3(2) obtain old p where o: "lss_bySeed (aw_sessions w3) = old @ [(?seed, p)]" "?seed \<notin> fst ` set old"
    "lss_fresh_entry (ticket_session account ?key ?exp ?seed) (cn_peer (aw_conn w)) issued token p"
    unfolding reserved_in_def by (auto simp: ticket_session_def)
  have "map_of old ?seed = None" using o(2) by (simp add: map_of_eq_None_iff)
  then have m: "map_of (lss_bySeed (aw_sessions w4)) ?seed = Some p" using o(1) same by (simp add: map_add_def)
  have "pend_session p = ticket_session account ?key ?exp ?seed"
    using o(3) unfolding lss_fresh_entry_def by (metis pendingLobbySession.select_convs(1))
  moreover have "pend_peer p = pid" using o(3) assms(10) unfolding lss_fresh_entry_def by (metis Inr_inject)
  moreover have "aw_output w4 = aw_output w @ frame_bytes reply"
    using auth_writeFrame_result(7) [OF w4 auth_reply_success [OF key reply]] r3(1) by simp
  ultimately show ?thesis using h m reply by blast
qed

text \<open>C27: a ticket request for a registered account is served: if the randomness lasts, the store (after
  the expired sessions are purged) has room for the account under the seed drawn, the times fit in
  the ticket and the connection takes the reply, then the request succeeds; exactly the session of
  that account, with the key and the seed drawn and the configured lifetime, is pending under the seed,
  for the peer of the connection; and the connection has been sent the success reply whose ticket is for
  that account, seed, key and lifetime.\<close>

theorem known_account_gets_ticket:
  assumes "lss_inv (aw_sessions w)" and "ParseAccountForMMPBody body = Inr request"
    and "LookupHash (amr_AccountHash request) (aw_accounts w) = Some account" and "account_ok account"
    and "28 \<le> length (st_bytes (aw_random w))" and "cn_now (aw_conn w) = issued # later"
    and "0 < ahc_SessionLife config" and "0 \<le> time_Unix issued"
    and "time_Unix (issued + ahc_SessionLife config) \<le> int MaxUint32"
    and "lobbyPeerIdentity (cn_peer (aw_conn w)) = Inr pid"
    and "session_room (lss_purgeExpiredLocked issued (aw_sessions w)) (acc_UserID account)
           (LE_Uint32 (take 4 (drop 24 (st_bytes (aw_random w)))))"
    and "cn_deadlines (aw_conn w) = []" and "w_script (cn_out (aw_conn w)) = []" and "\<not> cn_closed (aw_conn w)"
  shows "\<exists>w' p reply. handleAccountForMMP config body w = (Inr (), w') \<and>
    map_of (lss_bySeed (aw_sessions w')) (LE_Uint32 (take 4 (drop 24 (st_bytes (aw_random w))))) = Some p \<and>
    pend_session p = ticket_session account (take 24 (st_bytes (aw_random w))) (issued + ahc_SessionLife config)
      (LE_Uint32 (take 4 (drop 24 (st_bytes (aw_random w))))) \<and> pend_peer p = pid \<and>
    marshalAccountForMMPSuccessBody account (LE_Uint32 (take 4 (drop 24 (st_bytes (aw_random w)))))
      (take 24 (st_bytes (aw_random w))) issued (issued + ahc_SessionLife config) = Inr reply \<and>
    aw_output w' = aw_output w @ frame_bytes reply"
  using ticket_served [OF assms] .

section \<open>An instance\<close>

text \<open>One registered account, no pending session, and a client that asks for its ticket.\<close>

definition ticket_request_bytes :: bytes where
  "ticket_request_bytes = [0, MessageAccountForMMPRequest] @
     pack (header_bits 5 @ bits_uint64 False (BOZAccountHash [97]))"

definition example_connection :: "bytes \<Rightarrow> conn" where
  "example_connection bs = \<lparr>cn_in = \<lparr>st_bytes = bs, st_end = StreamEOF\<rparr>, cn_out = \<lparr>w_script = [], w_out = []\<rparr>,
     cn_peer = OtherAddr [1] [2], cn_clock = [], cn_now = [0], cn_ctx = [], cn_deadlines = [], cn_read_by = 0,
     cn_closed = False\<rparr>"

definition example_auth :: "bytes \<Rightarrow> auth_world" where
  "example_auth bs = \<lparr>aw_accounts = acs_enter (new_account [97] (replicate 24 1) (empty_store 4096 32 [])) [] False
       (empty_store 4096 32 []),
     aw_disk = empty_disk,
     aw_sessions = \<lparr>lss_maxSessions = 4096, lss_maxSessionsPerAccount = 4, lss_bySeed = [],
       lss_sessionsByAccount = [], lss_nextToken = 0\<rparr>,
     aw_random = \<lparr>st_bytes = replicate 28 7, st_end = StreamEOF\<rparr>, aw_conn = example_connection bs\<rparr>"

definition example_auth_config :: AuthHandlerConfig where
  "example_auth_config = \<lparr>ahc_MaxRecords = 16, ahc_HandshakeTimeout = Second, ahc_WriteTimeout = Second,
     ahc_SessionLife = Hour, ahc_Random = None\<rparr>"

lemma example_auth_inv: "auth_inv (example_auth bs)"
  and example_auth_ids: "unat (acs_nextUserID (aw_accounts (example_auth bs))) = 2"
proof -
  let ?e = "empty_store 4096 32 []"
  have e: "acs_inv ?e" "accounts_of ?e = []" using acs_inv_empty by simp_all
  have n: "acs_byUsername ?e = []" "acs_byHash ?e = []" "acs_nextUserID ?e = 1" "acs_maxAccounts ?e = 4096"
    by (simp_all add: empty_store_def)
  then have "acs_inv (acs_enter (new_account [97] (replicate 24 1) ?e) [] False ?e)"
    using acs_inv_enter(1) [OF e(1), of "[97]" False "[]"] by simp
  moreover have "lss_inv (aw_sessions (example_auth bs))"
    by (rule lss_inv_New [of 0 0]) (simp add: NewLobbySessionStore_def example_auth_def Let_def
      DefaultMaxLobbySessions_def DefaultMaxLobbySessionsPerAccount_def)
  ultimately show "auth_inv (example_auth bs)"
    by (simp add: auth_inv_def sessions_ok_def example_auth_def)
  show "unat (acs_nextUserID (aw_accounts (example_auth bs))) = 2"
    by (simp add: example_auth_def acs_enter_eq n)
qed

theorem auth_connection_keeps_stores_witness:
  "\<exists>e w'. auth_HandleTCP example_auth_config (example_auth [0, 0, 0, 0]) = (e, w') \<and> auth_inv w' \<and>
     acs_extends (aw_accounts (example_auth [0, 0, 0, 0])) (aw_accounts w')"
proof -
  obtain e w' where "auth_HandleTCP example_auth_config (example_auth [0, 0, 0, 0]) = (e, w')" by (metis surj_pair)
  moreover from auth_connection_keeps_stores [OF example_auth_inv _ this] example_auth_ids
  have "auth_inv w' \<and> acs_extends (aw_accounts (example_auth [0, 0, 0, 0])) (aw_accounts w')"
    by (simp add: example_auth_config_def)
  ultimately show ?thesis by blast
qed

theorem auth_connection_sends_witness:
  "\<exists>e w'. auth_HandleTCP example_auth_config (example_auth [0, 0, 0, 0]) = (e, w') \<and>
     sends (\<lambda>body. auth_reply body \<and> length body \<noteq> BufferAvailableRecordMarker) 16 [] (aw_output w')"
proof -
  obtain e w' where "auth_HandleTCP example_auth_config (example_auth [0, 0, 0, 0]) = (e, w')" by (metis surj_pair)
  moreover from auth_connection_sends [OF example_auth_inv _ this] example_auth_ids
  have "sends (\<lambda>body. auth_reply body \<and> length body \<noteq> BufferAvailableRecordMarker) 16
      (aw_output (example_auth [0, 0, 0, 0])) (aw_output w')"
    by (simp add: example_auth_config_def)
  ultimately show ?thesis by (auto simp: example_auth_def example_connection_def)
qed

text \<open>The example request is parsed and finds its account.\<close>

lemma example_request:
  "ParseAccountForMMPBody ticket_request_bytes = Inr \<lparr>amr_IVSeed = 5, amr_TitleID = BOZTitleID, amr_AccountHash = BOZAccountHash [97]\<rparr>"
  by (simp add: ParseAccountForMMPBody_eq ticket_request_bytes_def MessageAccountForMMPRequest_def)

lemma example_account_found:
  "LookupHash (BOZAccountHash [97]) (aw_accounts (example_auth bs)) =
     Some (new_account [97] (replicate 24 1) (empty_store 4096 32 []))"
  by (simp add: example_auth_def LookupHash_def acs_enter_eq acs_index_def empty_store_def new_account_def)

text \<open>Its request meets the conditions.\<close>

lemma example_conditions:
  shows "lss_inv (aw_sessions (example_auth bs))"
    and "account_ok (new_account [97] (replicate 24 1) (empty_store 4096 32 []))"
    and "28 \<le> length (st_bytes (aw_random (example_auth bs)))"
    and "take 4 (drop 24 (st_bytes (aw_random (example_auth bs)))) = replicate 4 7"
    and "cn_now (aw_conn (example_auth bs)) = 0 # []"
    and "0 < ahc_SessionLife example_auth_config" and "0 \<le> time_Unix 0"
    and "time_Unix (0 + ahc_SessionLife example_auth_config) \<le> int MaxUint32"
    and "lobbyPeerIdentity (cn_peer (aw_conn (example_auth bs))) = Inr ([1] @ [58] @ [2])"
    and "session_room (lss_purgeExpiredLocked 0 (aw_sessions (example_auth bs)))
      (acc_UserID (new_account [97] (replicate 24 1) (empty_store 4096 32 []))) seed"
    and "cn_deadlines (aw_conn (example_auth bs)) = []" and "w_script (cn_out (aw_conn (example_auth bs))) = []"
    and "\<not> cn_closed (aw_conn (example_auth bs))"
proof -
  show "lss_inv (aw_sessions (example_auth bs))" using example_auth_inv by (simp add: auth_inv_def)
  show "account_ok (new_account [97] (replicate 24 1) (empty_store 4096 32 []))"
    by (simp add: account_ok_def new_account_def empty_store_def valid_username_def printable_def word_le_nat_alt)
  show "session_room (lss_purgeExpiredLocked 0 (aw_sessions (example_auth bs)))
      (acc_UserID (new_account [97] (replicate 24 1) (empty_store 4096 32 []))) seed"
    by (simp add: session_room_def lss_purgeExpiredLocked_def example_auth_def)
  show "lobbyPeerIdentity (cn_peer (aw_conn (example_auth bs))) = Inr ([1] @ [58] @ [2])"
  proof -
    have "SplitHostPort [2] = None" by code_simp
    then show ?thesis by (simp add: example_auth_def example_connection_def lobbyPeerIdentity_def)
  qed
qed (simp_all add: example_auth_def example_connection_def example_auth_config_def time_Unix_def
  Hour_def Minute_def Second_def)

theorem known_account_gets_ticket_witness:
  "\<exists>w' p reply. handleAccountForMMP example_auth_config ticket_request_bytes (example_auth []) = (Inr (), w') \<and>
     map_of (lss_bySeed (aw_sessions w')) (LE_Uint32 (replicate 4 7)) = Some p \<and> ls_UserID (pend_session p) = 1 \<and>
     ls_SessionKey (pend_session p) = replicate 24 7 \<and> length reply = 140 \<and> aw_output w' = frame_bytes reply"
proof -
  let ?a = "new_account [97] (replicate 24 1) (empty_store 4096 32 [])"
  have key: "take 24 (st_bytes (aw_random (example_auth []))) = replicate 24 7" by (simp add: example_auth_def)
  obtain w' p reply where r: "handleAccountForMMP example_auth_config ticket_request_bytes (example_auth []) = (Inr (), w')"
    "map_of (lss_bySeed (aw_sessions w')) (LE_Uint32 (replicate 4 7)) = Some p"
    "pend_session p = ticket_session ?a (replicate 24 7) (0 + ahc_SessionLife example_auth_config) (LE_Uint32 (replicate 4 7))"
    "marshalAccountForMMPSuccessBody ?a (LE_Uint32 (replicate 4 7)) (replicate 24 7) 0
       (0 + ahc_SessionLife example_auth_config) = Inr reply"
    "aw_output w' = aw_output (example_auth []) @ frame_bytes reply"
    using known_account_gets_ticket [OF example_conditions(1) example_request _ example_conditions(2,3,5-13), of "[]"]
    by (auto simp: example_account_found example_conditions(4) key)
  have "length reply = 140" using success_body_layout [OF r(4)] by (auto simp: SessionKeySize_def)
  with r show ?thesis
    by (auto simp: ticket_session_def new_account_def empty_store_def example_auth_def example_connection_def)
qed

theorem ticket_request_reserves_once_witness:
  "\<exists>w'. handleAccountForMMP example_auth_config ticket_request_bytes (example_auth []) = (Inr (), w') \<and>
     ticket_issued example_auth_config ticket_request_bytes (example_auth []) w'"
proof -
  obtain w' where h: "handleAccountForMMP example_auth_config ticket_request_bytes (example_auth []) = (Inr (), w')"
    using ticket_served [OF example_conditions(1) example_request _ example_conditions(2,3,5-13), of "[]"]
    by (auto simp: example_account_found)
  have "known_account ticket_request_bytes (example_auth [])"
    by (simp add: known_account_def example_request example_account_found)
  with ticket_request_reserves_once [OF example_conditions(1) h] h show ?thesis by simp
qed

section \<open>A limit of the design\<close>

text \<open>A client that registers a name which differs from a registered one in case only is not told so:
  its connection ends without a reply.\<close>

lemma case_variant_drops_connection:
  assumes "acs_inv (aw_accounts w)" and "ParseCreateAccountBody body = Inr request"
    and "Lookup v (aw_accounts w) = Some b" and "ToLower (car_Username request) = ToLower v"
    and "Lookup (car_Username request) (aw_accounts w) = None"
    and "int (length (acs_byUsername (aw_accounts w))) < acs_maxAccounts (aw_accounts w)"
    and "accountSourceIdentity (cn_peer (aw_conn w)) = Inr source"
    and "gm_count (acs_accountsBySource (aw_accounts w)) source < acs_maxAccountsPerSource (aw_accounts w)"
  shows "handleCreateAccount body w = (Inl (AccountStoreErr ErrAccountHashCollision), w)"
  using register_case_collision [OF assms(1,3,4,5,6,8)] assms(2,7)
  by (simp add: handleCreateAccount_def RegisterFromPeer_def Let_def)

end
