(* ===== verification/Lobby_Handler.thy ===== *)
theory Lobby_Handler
  imports Lobby_Client Lobby_Login Auth_Handler
begin

text \<open>
  \<^verbatim>\<open>internal/online/lobby/lsg.go\<close>: the lobby server. A connection logs in with the seed of its ticket,
  is given a connection identifier, and is served once its first encrypted request has proved that it
  holds the session key; from then on it is the active client of its account. The loop of
  \<^verbatim>\<open>HandleTCP\<close> is an iteration over the local variables of the connection (\<open>lsg_state\<close>) and the state
  the connections share (\<open>lobby_world\<close>). The calls of \<^verbatim>\<open>logf\<close> have no effect on either and are left out.
\<close>

definition lsgConnectionIDMessage :: byte where "lsgConnectionIDMessage = 0x04"
definition LobbyDefaultMaxRecords :: int where "LobbyDefaultMaxRecords = 0"
definition DefaultReadTimeout :: int where "DefaultReadTimeout = 2 * Minute"
definition LobbyDefaultWriteTimeout :: int where "LobbyDefaultWriteTimeout = 5 * Second"
definition DefaultProofTimeout :: int where "DefaultProofTimeout = 10 * Second"
definition DefaultMaxProvisionalControlRecords :: int where "DefaultMaxProvisionalControlRecords = 8"

section \<open>Construction\<close>

record LobbyHandlerConfig =
  lhc_MaxRecords :: int
  lhc_MaxProvisionalControlRecords :: int
  lhc_ReadTimeout :: int
  lhc_WriteTimeout :: int
  lhc_ProofTimeout :: int
  lhc_Random :: "go_stream option"

text \<open>\<open>None\<close> is a nil store; the result is the configuration with the defaults filled in. The clock of
  the configuration is the connection's \<open>cn_now\<close>.\<close>

definition NewLobbyHandler ::
  "go_stream \<Rightarrow> LobbyHandlerConfig \<Rightarrow> AccountStore option \<Rightarrow> LobbySessionStore option \<Rightarrow>
     MatchmakingStore option \<Rightarrow> go_error + LobbyHandlerConfig" where
  "NewLobbyHandler rand_Reader config accounts sessions matches =
     (if accounts = None \<or> sessions = None \<or> matches = None
      then Inl (Message ''lobby: account, session, and matchmaking stores are required'')
      else let
        config = (if lhc_WriteTimeout config = 0 then config\<lparr>lhc_WriteTimeout := LobbyDefaultWriteTimeout\<rparr> else config);
        config = (if lhc_ReadTimeout config = 0 then config\<lparr>lhc_ReadTimeout := DefaultReadTimeout\<rparr> else config);
        config = (if lhc_ProofTimeout config = 0 then config\<lparr>lhc_ProofTimeout := DefaultProofTimeout\<rparr> else config);
        config = (if lhc_MaxProvisionalControlRecords config = 0
                  then config\<lparr>lhc_MaxProvisionalControlRecords := DefaultMaxProvisionalControlRecords\<rparr> else config);
        config = (if lhc_Random config = None then config\<lparr>lhc_Random := Some rand_Reader\<rparr> else config)
      in if lhc_MaxRecords config < 0 \<or> lhc_MaxRecords config > 1000000
         then Inl (Message ''lobby: maximum records must be zero (unlimited) or between 1 and 1000000'')
         else if lhc_MaxProvisionalControlRecords config < 1 \<or> lhc_MaxProvisionalControlRecords config > 1024
         then Inl (Message ''lobby: maximum provisional control records must be between 1 and 1024'')
         else if lhc_WriteTimeout config < Second \<or> lhc_WriteTimeout config > Minute
         then Inl (Message ''lobby: write timeout must be between 1s and 1m'')
         else if lhc_ReadTimeout config < 5 * Second \<or> lhc_ReadTimeout config > 10 * Minute
         then Inl (Message ''lobby: read timeout must be between 5s and 10m'')
         else if lhc_ProofTimeout config < 10 * Millisecond \<or> lhc_ProofTimeout config > Minute
         then Inl (Message ''lobby: proof timeout must be between 10ms and 1m'')
         else Inr config)"

section \<open>The services\<close>

definition deliverGlobalInstantMessage :: "nat \<Rightarrow> MessagingRequest \<Rightarrow> lobby_world \<Rightarrow> bool \<times> lobby_world" where
  "deliverGlobalInstantMessage sender request w =
     (case lookup (msg_Recipient request) w of
        None \<Rightarrow> (False, w)
      | Some recipient \<Rightarrow>
          let senderAccount = lc_account (lw_clients w sender);
              senderName = take maxMessagingSenderNameBytes (acc_Username senderAccount)
          in case serverSeed recipient w of (seed, w) \<Rightarrow>
            (case marshalGlobalInstantMessagePush (lc_sessionKey (lw_clients w recipient)) seed
                    (acc_AccountHash senderAccount) senderName (msg_Message request) of
               Inl _ \<Rightarrow> (False, w)
             | Inr body \<Rightarrow>
                 (case client_writeFrame recipient body w of
                    (Inl _, w) \<Rightarrow> (False, client_Close recipient (deactivate recipient w))
                  | (Inr _, w) \<Rightarrow> (True, w))))"

text \<open>The results of a search, written one after the other.\<close>

fun write_results :: "MatchmakingInfo list \<Rightarrow> (ByteWriter, unit) go" where
  "write_results [] writer = (Inr (), writer)"
| "write_results (result # results) writer =
     (case writeMatchmakingResult result writer of
        (Inl e, writer) \<Rightarrow> (Inl e, writer)
      | (Inr _, writer) \<Rightarrow> write_results results writer)"

definition handleMatchmaking :: "u64 \<Rightarrow> u64 \<Rightarrow> MatchmakingRequest \<Rightarrow> (lobby_world, bytes) go" where
  "handleMatchmaking connectionID transactionID request w =
     (let task = mr_Task request;
          acknowledge = marshalClearTaskReplyBody (marshalTaskReply transactionID task statusNoError 0 0)
      in if task = MatchmakingTaskCreate
      then (case mms_Create connectionID (mr_Info request) (lw_matches w, Some (lw_random w)) of
              (r, (matches, random)) \<Rightarrow>
                let w = w\<lparr>lw_matches := matches, lw_random := the random\<rparr>
                in case r of
                     Inl e \<Rightarrow> (Inl e, w)
                   | Inr created \<Rightarrow>
                       let logicalReply = marshalTaskReply transactionID task statusNoError 1 1;
                           writer = bw_WriteRaw logicalReply (NewByteWriter True)
                       in (case writeMatchmakingSessionID (mi_SessionID created) writer of
                             (Inl e, writer) \<Rightarrow>
                               (Inl e, w\<lparr>lw_matches := snd (mms_Delete connectionID (mi_SessionID created) (lw_matches w))\<rparr>)
                           | (Inr _, writer) \<Rightarrow> (Inr (marshalClearTaskReplyBody (bw_Bytes writer)), w)))
      else if task = MatchmakingTaskUpdate
      then (case mms_Update connectionID (mr_SessionID request) (mr_Info request) (lw_matches w) of
              (err, matches) \<Rightarrow>
                let w = w\<lparr>lw_matches := matches\<rparr>
                in case err of
                     None \<Rightarrow> (Inr acknowledge, w)
                   | Some e \<Rightarrow>
                       if errors_is e (MatchmakingStoreErr ErrMatchmakingSessionMiss) then (Inr acknowledge, w)
                       else (Inl (Context ''update match'' e), w))
      else if task = MatchmakingTaskDelete
      then (case mms_Delete connectionID (mr_SessionID request) (lw_matches w) of
              (err, matches) \<Rightarrow>
                let w = w\<lparr>lw_matches := matches\<rparr>
                in case err of
                     None \<Rightarrow> (Inr acknowledge, w)
                   | Some e \<Rightarrow>
                       if errors_is e (MatchmakingStoreErr ErrMatchmakingSessionMiss) then (Inr acknowledge, w)
                       else (Inl (Context ''delete match'' e), w))
      else if task = MatchmakingTaskFind
      then (case mms_Find (mr_Query request) (mr_Offset request) (mr_MaxResults request) (lw_matches w) of
              (results, found) \<Rightarrow>
                let logicalReply = marshalTaskReply transactionID task statusNoError
                      (word_of_nat (length results)) found;
                    writer = bw_WriteRaw logicalReply (NewByteWriter True)
                in (case write_results results writer of
                      (Inl e, writer) \<Rightarrow> (Inl e, w)
                    | (Inr _, writer) \<Rightarrow> (Inr (marshalClearTaskReplyBody (bw_Bytes writer)), w)))
      else (Inl (MatchmakingErr ErrUnsupportedMatchmakingTask), w))"

section \<open>The connection\<close>

text \<open>The variables of \<^verbatim>\<open>HandleTCP\<close>.\<close>

record lsg_state =
  lv_authenticated :: bool
  lv_sessionConfirmed :: bool
  lv_lobbySession :: LobbySession
  lv_sessionToken :: u64
  lv_connectionID :: u64
  lv_transactionID :: u64
  lv_proofDeadline :: int
  lv_provisionalControlRecords :: nat
  lv_recordIndex :: nat

definition zero_session :: LobbySession where
  "zero_session = \<lparr>ls_TicketSeed = 0, ls_UserID = 0, ls_AccountHash = 0, ls_TitleID = 0,
     ls_SessionKey = replicate SessionKeySize 0, ls_ExpiresAt = 0\<rparr>"

definition lsg_start :: lsg_state where
  "lsg_start = \<lparr>lv_authenticated = False, lv_sessionConfirmed = False, lv_lobbySession = zero_session,
     lv_sessionToken = 0, lv_connectionID = 0, lv_transactionID = 0, lv_proofDeadline = 0,
     lv_provisionalControlRecords = 0, lv_recordIndex = 0\<rparr>"

definition new_client :: "conn \<Rightarrow> lobbyClient" where
  "new_client connection = \<lparr>lc_connection = connection, lc_account = zero_account,
     lc_sessionKey = replicate SessionKeySize 0, lc_nextServerSeed = 0\<rparr>"

text \<open>What an iteration of the loop ends in: the next record, or the return of \<^verbatim>\<open>HandleTCP\<close>.\<close>

datatype lsg_outcome = Continue | Return "go_error option"

definition connection_id_body :: "u64 \<Rightarrow> bytes" where
  "connection_id_body connectionID =
     (let body = replicate 11 0;
          body = body[0 := 0];
          body = body[1 := lsgConnectionIDMessage];
          body = body[2 := TypeUint64]
      in copy_at 3 (LE_PutUint64 connectionID) body)"

definition writeConnectionID :: "nat \<Rightarrow> u64 \<Rightarrow> (lobby_world, unit) go" where
  "writeConnectionID h connectionID = client_writeFrame h (connection_id_body connectionID)"

text \<open>\<^verbatim>\<open>nextID.Add(1)\<close>, again when the result is 0.\<close>

definition nextID_Add :: "lobby_world \<Rightarrow> u64 \<times> lobby_world" where
  "nextID_Add w = (lw_nextID w + 1, w\<lparr>lw_nextID := lw_nextID w + 1\<rparr>)"

definition new_connectionID :: "lobby_world \<Rightarrow> u64 \<times> lobby_world" where
  "new_connectionID w =
     (case nextID_Add w of (connectionID, w) \<Rightarrow> if connectionID = 0 then nextID_Add w else (connectionID, w))"

text \<open>A frame of a connection that has not logged in.\<close>

definition lsg_login :: "LobbyHandlerConfig \<Rightarrow> nat \<Rightarrow> bytes \<Rightarrow> lsg_state \<times> lobby_world \<Rightarrow>
    lsg_outcome \<times> lsg_state \<times> lobby_world" where
  "lsg_login config h body st =
     (case st of (s, w) \<Rightarrow>
       (case ParseLSGLoginBody body of
          Inl e \<Rightarrow> (Return (Some e), s, w)
        | Inr login \<Rightarrow>
            if \<not> lobby_allZero (lsg_AuthBlob login) then (Return (Some (LsgErr ErrInvalidLSGIdentity)), s, w)
            else case on_client h config_Now w of (now, w) \<Rightarrow>
              (case lss_Lookup (lsg_TicketSeed login) (cn_peer (lc_connection (lw_clients w h))) now (lw_sessions w) of
                 (found, sessions) \<Rightarrow>
                   let w = w\<lparr>lw_sessions := sessions\<rparr>
                   in case found of
                        None \<Rightarrow> (Return (Some (LsgErr ErrInvalidLSGIdentity)), s, w)
                      | Some (session, token) \<Rightarrow>
                          if ls_TitleID session \<noteq> lsg_TitleID login
                          then (Return (Some (LsgErr ErrInvalidLSGIdentity)), s, w)
                          else (case LookupUserID (ls_UserID session) (lw_accounts w) of
                                  None \<Rightarrow> (Return (Some (LsgErr ErrInvalidLSGIdentity)), s, w)
                                | Some account \<Rightarrow>
                                    if acc_AccountHash account \<noteq> ls_AccountHash session
                                    then (Return (Some (LsgErr ErrInvalidLSGIdentity)), s, w)
                                    else let w = lw_set_client h ((lw_clients w h)\<lparr>lc_account := account,
                                                   lc_sessionKey := ls_SessionKey session\<rparr>) w
                                      in case new_connectionID w of (connectionID, w) \<Rightarrow>
                                        let s = s\<lparr>lv_connectionID := connectionID\<rparr>
                                        in case writeConnectionID h connectionID w of
                                             (Inl e, w) \<Rightarrow> (Return (Some e), s, w)
                                           | (Inr _, w) \<Rightarrow>
                                               (case on_client h time_Now w of (t, w) \<Rightarrow>
                                                  (Continue, s\<lparr>lv_lobbySession := session, lv_sessionToken := token,
                                                     lv_authenticated := True,
                                                     lv_proofDeadline := t + lhc_ProofTimeout config\<rparr>, w))))))"

text \<open>The reply of a service; the error is the one \<^verbatim>\<open>HandleTCP\<close> returns.\<close>

definition service_reply :: "nat \<Rightarrow> encryptedRequest \<Rightarrow> lsg_state \<Rightarrow> (lobby_world, bytes) go" where
  "service_reply h request s w =
     (if er_Service request = EventLogServiceID
      then (case parseEventLogRequest (er_Payload request) (er_Seed request) of
              Inl e \<Rightarrow> (Inl e, w)
            | Inr event \<Rightarrow>
                (Inr (marshalClearTaskReplyBody
                  (marshalTaskReply (lv_transactionID s) (ev_Task event) statusNoError 0 0)), w))
      else if er_Service request = MatchmakingServiceID
      then (case parseMatchmakingRequest (er_Payload request) (er_Seed request) of
              Inl e \<Rightarrow> (Inl e, w)
            | Inr matchmaking \<Rightarrow>
                (case bindMatchmakingIdentity matchmaking (acc_Username (lc_account (lw_clients w h))) of
                   Inl e \<Rightarrow> (Inl e, w)
                 | Inr matchmaking \<Rightarrow>
                     handleMatchmaking (lv_connectionID s) (lv_transactionID s) matchmaking w))
      else if er_Service request = MessagingServiceID
      then (case parseMessagingRequest (er_Payload request) (er_Seed request) of
              Inl e \<Rightarrow> (Inl e, w)
            | Inr message \<Rightarrow>
                (case deliverGlobalInstantMessage h message w of
                   (delivered, w) \<Rightarrow>
                     (Inr (marshalClearTaskReplyBody
                       (marshalTaskReply (lv_transactionID s) (msg_Task message) statusNoError 0 0)), w)))
      else (Inl (Context ''service'' (LsgErr ErrUnsupportedLobbyMessage)), w))"

definition lsg_service :: "nat \<Rightarrow> encryptedRequest \<Rightarrow> lsg_state \<times> lobby_world \<Rightarrow>
    lsg_outcome \<times> lsg_state \<times> lobby_world" where
  "lsg_service h request st =
     (case st of (s, w) \<Rightarrow>
       (case service_reply h request s w of
          (Inl e, w) \<Rightarrow> (Return (Some e), s, w)
        | (Inr replyBody, w) \<Rightarrow>
            (case client_writeFrame h replyBody w of
               (Inl e, w) \<Rightarrow> (Return (Some e), s, w)
             | (Inr _, w) \<Rightarrow> (Continue, s\<lparr>lv_transactionID := lv_transactionID s + 1\<rparr>, w))))"

text \<open>The proof: the first request that decrypts consumes the session and activates the client. The
  result says whether the request may be served.\<close>

definition lsg_confirm :: "nat \<Rightarrow> lsg_state \<times> lobby_world \<Rightarrow> bool \<times> lsg_state \<times> lobby_world" where
  "lsg_confirm h st =
     (case st of (s, w) \<Rightarrow>
       if lv_sessionConfirmed s then (True, s, w)
       else case on_client h config_Now w of (now, w) \<Rightarrow>
         (case lss_Consume (ls_TicketSeed (lv_lobbySession s)) (lv_sessionToken s)
                 (cn_peer (lc_connection (lw_clients w h))) now (lw_sessions w) of
            (r, sessions) \<Rightarrow>
              let w = w\<lparr>lw_sessions := sessions\<rparr>
              in case r of
                   None \<Rightarrow> (False, s, w)
                 | Some confirmed \<Rightarrow>
                     (True, s\<lparr>lv_lobbySession := confirmed, lv_sessionConfirmed := True\<rparr>, activate h w)))"

definition lsg_request :: "nat \<Rightarrow> bytes \<Rightarrow> lsg_state \<times> lobby_world \<Rightarrow>
    lsg_outcome \<times> lsg_state \<times> lobby_world" where
  "lsg_request h body st =
     (case st of (s, w) \<Rightarrow>
       (case decryptRequestBody body (ls_SessionKey (lv_lobbySession s)) of
          Inl e \<Rightarrow> (Return (Some e), s, w)
        | Inr request \<Rightarrow>
            (case lsg_confirm h (s, w) of
               (ok, s, w) \<Rightarrow>
                 if ok then lsg_service h request (s, w)
                 else (Return (Some (LsgErr ErrInvalidLSGIdentity)), s, w))))"

text \<open>The count of control records between login and proof; the result says whether it is exceeded.\<close>

definition count_control :: "LobbyHandlerConfig \<Rightarrow> lsg_state \<Rightarrow> bool \<times> lsg_state" where
  "count_control config s =
     (if lv_authenticated s \<and> \<not> lv_sessionConfirmed s
      then let s = s\<lparr>lv_provisionalControlRecords := lv_provisionalControlRecords s + 1\<rparr>
           in (int (lv_provisionalControlRecords s) > lhc_MaxProvisionalControlRecords config, s)
      else (False, s))"

definition lsg_record :: "LobbyHandlerConfig \<Rightarrow> nat \<Rightarrow> TransportRecord \<Rightarrow> lsg_state \<times> lobby_world \<Rightarrow>
    lsg_outcome \<times> lsg_state \<times> lobby_world" where
  "lsg_record config h record st =
     (case st of (s, w) \<Rightarrow>
       (case Kind record of
          RecordKindKeepalive \<Rightarrow>
            (case count_control config s of
               (exceeded, s) \<Rightarrow>
                 if exceeded then (Return (Some (LsgErr ErrProvisionalControlLimit)), s, w)
                 else (case client_writeFrame h [] w of
                         (Inl e, w) \<Rightarrow> (Return (Some e), s, w)
                       | (Inr _, w) \<Rightarrow> (Continue, s, w)))
        | RecordKindBufferAvailable \<Rightarrow>
            (case count_control config s of
               (exceeded, s) \<Rightarrow>
                 if exceeded then (Return (Some (LsgErr ErrProvisionalControlLimit)), s, w)
                 else (Continue, s, w))
        | RecordKindFrame \<Rightarrow>
            if lv_authenticated s then lsg_request h (Body record) (s, w)
            else lsg_login config h (Body record) (s, w)))"

definition read_deadline :: "LobbyHandlerConfig \<Rightarrow> lsg_state \<Rightarrow> int \<Rightarrow> int" where
  "read_deadline config s now =
     (let readDeadline = now + lhc_ReadTimeout config
      in if lv_authenticated s \<and> \<not> lv_sessionConfirmed s \<and> lv_proofDeadline s < readDeadline
         then lv_proofDeadline s else readDeadline)"

definition lsg_iteration :: "LobbyHandlerConfig \<Rightarrow> nat \<Rightarrow> lsg_state \<times> lobby_world \<Rightarrow>
    lsg_outcome \<times> lsg_state \<times> lobby_world" where
  "lsg_iteration config h st =
     (case st of (s, w) \<Rightarrow>
       if lhc_MaxRecords config \<noteq> 0 \<and> int (lv_recordIndex s) \<ge> lhc_MaxRecords config
       then (Return (Some (LsgErr LobbyErrRecordLimit)), s, w)
       else case on_client h ctx_done w of (stop, w) \<Rightarrow>
         if stop then (Return None, s, w)
         else case on_client h time_Now w of (now, w) \<Rightarrow>
           (case on_client h (SetReadDeadline (read_deadline config s now)) w of
              (Inl e, w) \<Rightarrow> (Return (if is_closed e then None else Some e), s, w)
            | (Inr _, w) \<Rightarrow>
                (case on_client h (conn_ReadRecord DefaultMaxFrameBody) w of
                   (Inl e, w) \<Rightarrow>
                     (case on_client h ctx_done w of (stop, w) \<Rightarrow>
                        if stop \<or> errors_is e (IoErr EOF) \<or> errors_is e (IoErr ErrUnexpectedEOF)
                        then (Return None, s, w)
                        else if is_timeout e then (Return None, s, w)
                        else (Return (Some e), s, w))
                 | (Inr record, w) \<Rightarrow>
                     lsg_record config h record (s\<lparr>lv_recordIndex := lv_recordIndex s + 1\<rparr>, w))))"

text \<open>The deferred call.\<close>

definition lsg_deferred :: "nat \<Rightarrow> lsg_state \<times> lobby_world \<Rightarrow> lobby_world" where
  "lsg_deferred h st =
     (case st of (s, w) \<Rightarrow>
       let w = deactivate h w
       in if lv_connectionID s \<noteq> 0
          then w\<lparr>lw_matches := mms_DeleteOwner (lv_connectionID s) (lw_matches w)\<rparr> else w)"

text \<open>The loop, which has no bound of its own when \<^verbatim>\<open>MaxRecords\<close> is 0: with fuel, \<open>None\<close> when it runs
  out.\<close>

fun lsg_loop :: "nat \<Rightarrow> LobbyHandlerConfig \<Rightarrow> nat \<Rightarrow> lsg_state \<times> lobby_world \<Rightarrow>
    (go_error option \<times> lsg_state \<times> lobby_world) option" where
  "lsg_loop 0 config h st = None"
| "lsg_loop (Suc fuel) config h st =
     (case lsg_iteration config h st of
        (Continue, st) \<Rightarrow> lsg_loop fuel config h st
      | (Return r, st) \<Rightarrow> Some (r, st))"

definition lsg_HandleTCP :: "nat \<Rightarrow> LobbyHandlerConfig \<Rightarrow> nat \<Rightarrow> conn \<Rightarrow> lobby_world \<Rightarrow>
    (go_error option \<times> lobby_world) option" where
  "lsg_HandleTCP fuel config h connection w =
     (case lsg_loop fuel config h (lsg_start, lw_set_client h (new_client connection) w) of
        None \<Rightarrow> None
      | Some (r, st) \<Rightarrow> Some (r, lsg_deferred h st))"

end
