(* ===== verification/Lobby_Service.thy ===== *)
theory Lobby_Service
  imports Lobby_Handler
begin

text \<open>
  What the lobby server guarantees on one connection. The iterations of the loop of \<^verbatim>\<open>HandleTCP\<close> are
  shown to be moves of six kinds (\<open>lsg_move\<close>), each with what it may change of the state the
  connections share; the properties of a connection follow from the moves, and so do those of a server
  of many connections in the theory that composes them.
\<close>

section \<open>What serving a request changes\<close>

text \<open>Clients that leave the table of active clients are closed.\<close>

definition table_pruned :: "lobby_world \<Rightarrow> lobby_world \<Rightarrow> bool" where
  "table_pruned w w' \<longleftrightarrow> (\<forall>x. map_of (lw_byAccount w') x = map_of (lw_byAccount w) x \<or>
     map_of (lw_byAccount w') x = None \<and>
     (\<exists>p. map_of (lw_byAccount w) x = Some p \<and> cn_closed (lc_connection (lw_clients w' p))))"

lemma table_pruned_same: "lw_byAccount w' = lw_byAccount w \<Longrightarrow> table_pruned w w'"
  by (simp add: table_pruned_def)

lemma table_pruned_trans:
  assumes "table_pruned u v" and "table_pruned v w" and "same_clients v w"
  shows "table_pruned u w"
  unfolding table_pruned_def
proof
  fix x
  have c: "cn_closed (lc_connection (lw_clients w p))" if "cn_closed (lc_connection (lw_clients v p))" for p
    using that assms(3) by (simp add: same_clients_def same_identity_def)
  show "map_of (lw_byAccount w) x = map_of (lw_byAccount u) x \<or> map_of (lw_byAccount w) x = None \<and>
     (\<exists>p. map_of (lw_byAccount u) x = Some p \<and> cn_closed (lc_connection (lw_clients w p)))"
    using assms(1,2) c unfolding table_pruned_def by metis
qed

text \<open>An operation on matches that a request of a connection performs.\<close>

definition owner_ops :: "u64 \<Rightarrow> match_op list \<Rightarrow> bool" where
  "owner_ops cid ops \<longleftrightarrow> list_all (\<lambda>op. match_actor op = cid \<and> (\<forall>x. op \<noteq> MatchDeleteOwner x)) ops"

definition served :: "u64 \<Rightarrow> lobby_world \<Rightarrow> lobby_world \<Rightarrow> bool" where
  "served cid w w' \<longleftrightarrow> lw_accounts w' = lw_accounts w \<and> lw_sessions w' = lw_sessions w \<and>
     lw_nextID w' = lw_nextID w \<and> same_clients w w' \<and> table_pruned w w' \<and>
     (\<exists>ops. owner_ops cid ops \<and> lw_matches w' = mms_run ops (lw_matches w))"

lemma mms_run_Nil [simp]: "mms_run [] s = s"
  by (simp add: mms_run_def)

lemma mms_run_append: "mms_run (xs @ ys) s = mms_run ys (mms_run xs s)"
  by (simp add: mms_run_def)

lemma owner_ops_Nil [simp]: "owner_ops cid []"
  by (simp add: owner_ops_def)

lemma served_quiet: "quiet w w' \<Longrightarrow> served cid w w'"
  using quiet_fields [of w w'] table_pruned_same by (fastforce simp: served_def intro: exI [of _ "[]"])

lemma served_trans:
  assumes "served cid u v" and "served cid v w"
  shows "served cid u w"
proof -
  from assms obtain xs ys where "owner_ops cid xs" "lw_matches v = mms_run xs (lw_matches u)"
    "owner_ops cid ys" "lw_matches w = mms_run ys (lw_matches v)"
    unfolding served_def by blast
  then have "owner_ops cid (xs @ ys) \<and> lw_matches w = mms_run (xs @ ys) (lw_matches u)"
    by (simp add: owner_ops_def mms_run_append)
  with assms show ?thesis
    unfolding served_def using table_pruned_trans same_clients_trans by (metis (no_types, lifting))
qed

lemma deactivate_closed:
  assumes "map_of (lw_byAccount w) x = Some p"
  shows "served cid w (client_Close p (deactivate p w))"
proof -
  let ?d = "deactivate p w"
  have d: "lw_accounts ?d = lw_accounts w" "lw_sessions ?d = lw_sessions w" "lw_matches ?d = lw_matches w"
    "lw_nextID ?d = lw_nextID w" "lw_clients ?d = lw_clients w"
    by (simp_all add: deactivate_def)
  have t: "map_of (lw_byAccount ?d) y = map_of (lw_byAccount w) y \<or>
      map_of (lw_byAccount ?d) y = None \<and> map_of (lw_byAccount w) y = Some p" for y
    by (auto simp: deactivate_def)
  note c = client_Close_result [where w = ?d and h = p]
  note f = quiet_fields [OF c(1)]
  have "table_pruned w (client_Close p ?d)"
    unfolding table_pruned_def f(6) using t c(3) by blast
  moreover have "same_clients w (client_Close p ?d)"
    using f(7) d(5) by (simp add: same_clients_def)
  ultimately show ?thesis
    using f d by (auto simp: served_def intro: exI [of _ "[]"])
qed

lemma deliver_result:
  assumes "deliverGlobalInstantMessage h request w = (delivered, w')"
  shows "served cid w w'"
proof (cases "lookup (msg_Recipient request) w")
  case None
  with assms show ?thesis by (auto simp: deliverGlobalInstantMessage_def intro: served_quiet)
next
  case (Some recipient)
  let ?sender = "lc_account (lw_clients w h)"
  obtain seed w1 where s: "serverSeed recipient w = (seed, w1)" by (metis surj_pair)
  note w1 = serverSeed_result [OF s]
  let ?push = "marshalGlobalInstantMessagePush (lc_sessionKey (lw_clients w1 recipient)) seed
    (acc_AccountHash ?sender) (take maxMessagingSenderNameBytes (acc_Username ?sender)) (msg_Message request)"
  show ?thesis
  proof (cases ?push)
    case (Inl e)
    with assms Some s w1(1) show ?thesis by (auto simp: deliverGlobalInstantMessage_def Let_def intro: served_quiet)
  next
    case (Inr body)
    obtain r w2 where wr: "client_writeFrame recipient body w1 = (r, w2)" by (metis surj_pair)
    have q: "quiet w w2" using w1(1) client_writeFrame_result(1) [OF wr] quiet_trans by blast
    have "map_of (lw_byAccount w2) (msg_Recipient request) = Some recipient"
      using Some q by (simp add: lookup_def quiet_def)
    from served_trans [OF served_quiet [OF q] deactivate_closed [OF this]]
    show ?thesis
      using assms Some s Inr wr served_quiet [OF q]
      by (auto simp: deliverGlobalInstantMessage_def Let_def split: sum.splits)
  qed
qed

lemma served_matches:
  assumes "owner_ops cid ops"
  shows "served cid w (w\<lparr>lw_matches := mms_run ops (lw_matches w), lw_random := r\<rparr>)"
  using assms by (auto simp: served_def same_clients_def table_pruned_def)

lemma mms_run_single: "mms_run [op] s = mms_step op s"
  by (simp add: mms_run_def)

lemma handleMatchmaking_result:
  assumes "handleMatchmaking cid tx request w = (r, w')"
  shows "served cid w w'" and "lw_clients w' = lw_clients w"
proof -
  have "\<exists>ops random. owner_ops cid ops \<and> w' = w\<lparr>lw_matches := mms_run ops (lw_matches w), lw_random := random\<rparr>"
  proof (cases "mr_Task request = MatchmakingTaskCreate")
    case True
    obtain x m random where c: "mms_Create cid (mr_Info request) (lw_matches w, Some (lw_random w)) = (x, (m, random))"
      by (metis surj_pair)
    let ?op = "MatchCreate cid (mr_Info request) (Some (lw_random w))"
    have m: "m = mms_run [?op] (lw_matches w)" using c by (simp add: mms_run_single)
    have del: "mms_run [?op, MatchDelete cid sid] (lw_matches w) = snd (mms_Delete cid sid m)" for sid
      using c by (simp add: mms_run_def)
    have o: "owner_ops cid [?op]" "owner_ops cid [?op, MatchDelete cid sid]" for sid
      by (simp_all add: owner_ops_def)
    from assms True c have "w' = w\<lparr>lw_matches := m, lw_random := the random\<rparr> \<or>
        (\<exists>sid. w' = w\<lparr>lw_random := the random, lw_matches := snd (mms_Delete cid sid m)\<rparr>)"
      by (auto simp: handleMatchmaking_def Let_def split: sum.splits prod.splits)
    moreover have "w\<lparr>lw_random := the random, lw_matches := x\<rparr> = w\<lparr>lw_matches := x, lw_random := the random\<rparr>" for x
      by simp
    ultimately show ?thesis using m del o by metis
  next
    case nc: False
    show ?thesis
    proof (cases "mr_Task request = MatchmakingTaskUpdate")
      case True
      let ?op = "MatchUpdate cid (mr_SessionID request) (mr_Info request)"
      from assms nc True have "w' = w\<lparr>lw_matches := mms_run [?op] (lw_matches w), lw_random := lw_random w\<rparr>"
        by (auto simp: handleMatchmaking_def Let_def mms_run_single split: option.splits prod.splits if_splits)
      moreover have "owner_ops cid [?op]" by (simp add: owner_ops_def)
      ultimately show ?thesis by blast
    next
      case nu: False
      show ?thesis
      proof (cases "mr_Task request = MatchmakingTaskDelete")
        case True
        let ?op = "MatchDelete cid (mr_SessionID request)"
        from assms nc nu True have "w' = w\<lparr>lw_matches := mms_run [?op] (lw_matches w), lw_random := lw_random w\<rparr>"
          by (auto simp: handleMatchmaking_def Let_def mms_run_single split: option.splits prod.splits if_splits)
        moreover have "owner_ops cid [?op]" by (simp add: owner_ops_def)
        ultimately show ?thesis by blast
      next
        case False
        with assms nc nu have "w' = w"
          by (auto simp: handleMatchmaking_def Let_def split: sum.splits prod.splits if_splits)
        then show ?thesis by (intro exI [of _ "[]"] exI [of _ "lw_random w"]) simp
      qed
    qed
  qed
  then show "served cid w w'" "lw_clients w' = lw_clients w" using served_matches by auto
qed

lemma service_reply_result:
  assumes "service_reply h request s w = (r, w')"
  shows "served (lv_connectionID s) w w'"
proof -
  consider "w' = w" | tx m where "handleMatchmaking (lv_connectionID s) tx m w = (r, w')"
    | m delivered where "deliverGlobalInstantMessage h m w = (delivered, w')"
    using assms by (auto simp: service_reply_def split: if_splits sum.splits prod.splits)
  then show ?thesis
    by cases (auto intro: served_quiet handleMatchmaking_result(1) deliver_result)
qed

lemma lsg_service_result:
  assumes "lsg_service h request (s, w) = (out, s', w')"
  shows "served (lv_connectionID s) w w'" and "\<exists>tx. s' = s\<lparr>lv_transactionID := tx\<rparr>"
proof -
  obtain r w1 where a: "service_reply h request s w = (r, w1)" by (metis surj_pair)
  have one: "served (lv_connectionID s) w w1" by (rule service_reply_result [OF a])
  have "served (lv_connectionID s) w w' \<and> (\<exists>tx. s' = s\<lparr>lv_transactionID := tx\<rparr>)"
  proof (cases r)
    case (Inl e)
    with assms a one show ?thesis by (auto simp: lsg_service_def intro: exI [of _ "lv_transactionID s"])
  next
    case (Inr body)
    obtain x w2 where b: "client_writeFrame h body w1 = (x, w2)" by (metis surj_pair)
    have "served (lv_connectionID s) w w2"
      using served_trans [OF one served_quiet [OF client_writeFrame_result(1) [OF b]]] .
    with assms a b Inr show ?thesis
      by (auto simp: lsg_service_def split: sum.splits intro: exI [of _ "lv_transactionID s"])
  qed
  then show "served (lv_connectionID s) w w'" "\<exists>tx. s' = s\<lparr>lv_transactionID := tx\<rparr>" by simp_all
qed

section \<open>What one record changes\<close>

lemma activate_result:
  assumes w': "w' = activate h w"
  shows "lw_accounts w' = lw_accounts w" "lw_sessions w' = lw_sessions w" "lw_matches w' = lw_matches w"
    "lw_nextID w' = lw_nextID w" "same_clients w w'"
    and "map_of (lw_byAccount w') = (map_of (lw_byAccount w))(client_hash h w \<mapsto> h)"
    and "g \<noteq> h \<Longrightarrow> map_of (lw_byAccount w) (client_hash h w) = Some g \<Longrightarrow> cn_closed (lc_connection (lw_clients w' g))"
    and "map_of (lw_byAccount w) (client_hash h w) \<noteq> Some g \<Longrightarrow> lw_clients w' g = lw_clients w g"
proof -
  let ?w1 = "w\<lparr>lw_byAccount := AList.update (client_hash h w) h (lw_byAccount w)\<rparr>"
  have cl: "client_hash h ?w1 = client_hash h w" by (simp add: client_hash_def)
  have "w' = ?w1 \<and> (\<forall>g. map_of (lw_byAccount w) (client_hash h w) = Some g \<longrightarrow> g = h) \<or>
      (\<exists>p. map_of (lw_byAccount w) (client_hash h w) = Some p \<and> p \<noteq> h \<and> w' = client_Close p ?w1)"
    by (auto simp: w' activate_def Let_def split: option.splits)
  then show "lw_accounts w' = lw_accounts w" "lw_sessions w' = lw_sessions w" "lw_matches w' = lw_matches w"
    "lw_nextID w' = lw_nextID w" "same_clients w w'"
    "map_of (lw_byAccount w') = (map_of (lw_byAccount w))(client_hash h w \<mapsto> h)"
    "g \<noteq> h \<Longrightarrow> map_of (lw_byAccount w) (client_hash h w) = Some g \<Longrightarrow> cn_closed (lc_connection (lw_clients w' g))"
    "map_of (lw_byAccount w) (client_hash h w) \<noteq> Some g \<Longrightarrow> lw_clients w' g = lw_clients w g"
    by (auto simp: client_Close_def conn_Close_def Let_def same_clients_def same_identity_def map_of_update unread_def)
qed

text \<open>The session operations of a lookup and of a consumption.\<close>

definition session_gone :: "lobby_world \<Rightarrow> lobby_world \<Rightarrow> bool" where
  "session_gone w w' \<longleftrightarrow> (\<exists>op w1. quiet w w1 \<and> (\<forall>x y z. op \<noteq> OpReserve x y z) \<and>
     w' = w1\<lparr>lw_sessions := lss_step op (lw_sessions w)\<rparr>)"

text \<open>A login: the identity of the client is that of an account the pending session names.\<close>

definition logs_in :: "nat \<Rightarrow> LobbySession \<Rightarrow> u64 \<Rightarrow> u64 \<Rightarrow> lobby_world \<Rightarrow> lobby_world \<Rightarrow> bool" where
  "logs_in h session token cid w w' \<longleftrightarrow>
     (\<exists>seed p. map_of (lss_bySeed (lw_sessions w)) seed = Some p \<and> session = pend_session p \<and> token = pend_token p \<and>
        lobbyPeerIdentity (cn_peer (lc_connection (lw_clients w h))) = Inr (pend_peer p)) \<and>
     LookupUserID (ls_UserID session) (lw_accounts w) = Some (lc_account (lw_clients w' h)) \<and>
     acc_AccountHash (lc_account (lw_clients w' h)) = ls_AccountHash session \<and>
     lc_sessionKey (lw_clients w' h) = ls_SessionKey session \<and>
     lw_accounts w' = lw_accounts w \<and> lw_sessions w' = lw_sessions w \<and> lw_matches w' = lw_matches w \<and>
     lw_byAccount w' = lw_byAccount w \<and> others h w w' \<and>
     cid = (if lw_nextID w + 1 = 0 then 1 else lw_nextID w + 1) \<and> lw_nextID w' = cid \<and>
     cn_peer (lc_connection (lw_clients w' h)) = cn_peer (lc_connection (lw_clients w h)) \<and>
     unread (lc_connection (lw_clients w' h)) \<le> unread (lc_connection (lw_clients w h))"

text \<open>The moves of a connection, for the body of the record it has read. What the definitions above
  compute is one of these.\<close>

inductive lsg_move :: "nat \<Rightarrow> bytes \<Rightarrow> lsg_outcome \<Rightarrow> lsg_state \<times> lobby_world \<Rightarrow> lsg_state \<times> lobby_world \<Rightarrow> bool"
  for h body where
  move_idle: "quiet w w' \<Longrightarrow> others h w w' \<Longrightarrow>
     (\<not> (lv_authenticated s \<and> \<not> lv_sessionConfirmed s) \<longrightarrow> n = lv_provisionalControlRecords s) \<Longrightarrow>
     lsg_move h body out (s, w) (s\<lparr>lv_provisionalControlRecords := n\<rparr>, w')"
| move_gone: "\<not> lv_sessionConfirmed s \<Longrightarrow> session_gone w w' \<Longrightarrow> others h w w' \<Longrightarrow>
     lsg_move h body (Return (Some e)) (s, w) (s, w')"
| move_login: "\<not> lv_authenticated s \<Longrightarrow> logs_in h session token cid w w' \<Longrightarrow>
     lsg_move h body Continue (s, w) (s\<lparr>lv_connectionID := cid, lv_lobbySession := session, lv_sessionToken := token,
       lv_authenticated := True, lv_proofDeadline := t\<rparr>, w')"
| move_login_failed: "\<not> lv_authenticated s \<Longrightarrow> logs_in h session token cid w w' \<Longrightarrow>
     lsg_move h body (Return (Some e)) (s, w) (s\<lparr>lv_connectionID := cid\<rparr>, w')"
| move_serve: "lv_authenticated s \<Longrightarrow> lv_sessionConfirmed s \<Longrightarrow>
     decryptRequestBody body (ls_SessionKey (lv_lobbySession s)) = Inr request \<Longrightarrow>
     served (lv_connectionID s) w w' \<Longrightarrow>
     lsg_move h body out (s, w) (s\<lparr>lv_transactionID := tx\<rparr>, w')"
| move_confirm: "lv_authenticated s \<Longrightarrow> \<not> lv_sessionConfirmed s \<Longrightarrow>
     decryptRequestBody body (ls_SessionKey (lv_lobbySession s)) = Inr request \<Longrightarrow>
     quiet w w1 \<Longrightarrow> others h w w1 \<Longrightarrow>
     lss_Consume (ls_TicketSeed (lv_lobbySession s)) (lv_sessionToken s) (cn_peer (lc_connection (lw_clients w h)))
       now (lw_sessions w) = (Some session, sessions) \<Longrightarrow>
     served (lv_connectionID s) (activate h (w1\<lparr>lw_sessions := sessions\<rparr>)) w' \<Longrightarrow>
     lsg_move h body out (s, w)
       (s\<lparr>lv_lobbySession := session, lv_sessionConfirmed := True, lv_transactionID := tx\<rparr>, w')"

inductive_cases lsg_moveE: "lsg_move h body out (s, w) (s', w')"

lemma lsg_move_cases [consumes 1, case_names idle gone login login_failed serve confirm]:
  assumes "lsg_move h body out (s, w) (s', w')"
  obtains (idle) n where "s' = s\<lparr>lv_provisionalControlRecords := n\<rparr>" "quiet w w'" "others h w w'"
      "\<not> (lv_authenticated s \<and> \<not> lv_sessionConfirmed s) \<longrightarrow> n = lv_provisionalControlRecords s"
  | (gone) e where "out = Return (Some e)" "s' = s" "\<not> lv_sessionConfirmed s" "session_gone w w'" "others h w w'"
  | (login) session token cid t where "out = Continue" "\<not> lv_authenticated s" "logs_in h session token cid w w'"
      "s' = s\<lparr>lv_connectionID := cid, lv_lobbySession := session, lv_sessionToken := token,
         lv_authenticated := True, lv_proofDeadline := t\<rparr>"
  | (login_failed) e session token cid where "out = Return (Some e)" "\<not> lv_authenticated s"
      "logs_in h session token cid w w'" "s' = s\<lparr>lv_connectionID := cid\<rparr>"
  | (serve) request tx where "lv_authenticated s" "lv_sessionConfirmed s"
      "decryptRequestBody body (ls_SessionKey (lv_lobbySession s)) = Inr request"
      "served (lv_connectionID s) w w'" "s' = s\<lparr>lv_transactionID := tx\<rparr>"
  | (confirm) request w1 now session sessions tx where "lv_authenticated s" "\<not> lv_sessionConfirmed s"
      "decryptRequestBody body (ls_SessionKey (lv_lobbySession s)) = Inr request" "quiet w w1" "others h w w1"
      "lss_Consume (ls_TicketSeed (lv_lobbySession s)) (lv_sessionToken s) (cn_peer (lc_connection (lw_clients w h)))
         now (lw_sessions w) = (Some session, sessions)"
      "served (lv_connectionID s) (activate h (w1\<lparr>lw_sessions := sessions\<rparr>)) w'"
      "s' = s\<lparr>lv_lobbySession := session, lv_sessionConfirmed := True, lv_transactionID := tx\<rparr>"
  by (rule lsg_moveE [OF assms]) (use that in blast)+

lemma lss_Lookup_result:
  assumes "lss_Lookup seed peer now s = (r, s')"
  shows "s' = lss_step (OpLookup seed peer now) s"
    and "r = Some (session, token) \<Longrightarrow> s' = s \<and> (\<exists>p. map_of (lss_bySeed s) seed = Some p \<and> session = pend_session p \<and>
      token = pend_token p \<and> lobbyPeerIdentity peer = Inr (pend_peer p))"
  using assms by (auto simp: lss_Lookup_def split: sum.splits option.splits if_splits)

lemma lsg_login_move:
  assumes na: "\<not> lv_authenticated s" "\<not> lv_sessionConfirmed s" and l: "lsg_login config h body (s, w) = (out, s', w')"
  shows "lsg_move h body out (s, w) (s', w')"
proof -
  have stay: "lsg_move h body out (s, w) (s, w)" for out
    using move_idle [of w w h s "lv_provisionalControlRecords s" body out] by simp
  show ?thesis
  proof (cases "ParseLSGLoginBody body")
    case (Inl e)
    with l stay show ?thesis by (auto simp: lsg_login_def)
  next
    case login: (Inr login)
    show ?thesis
    proof (cases "lobby_allZero (lsg_AuthBlob login)")
      case False
      with l login stay show ?thesis by (auto simp: lsg_login_def)
    next
      case zero: True
      obtain now w1 where s1: "on_client h config_Now w = (now, w1)" by (metis surj_pair)
      note w1 = on_client_result [OF s1 conn_quiet_ops(2)]
      note f1 = quiet_fields [OF w1(1)]
      let ?peer = "cn_peer (lc_connection (lw_clients w1 h))"
      obtain r sessions where lk: "lss_Lookup (lsg_TicketSeed login) ?peer now (lw_sessions w1) = (r, sessions)"
        by (metis surj_pair)
      note lk_step = lss_Lookup_result(1) [OF lk]
      let ?w2 = "w1\<lparr>lw_sessions := sessions\<rparr>"
      have gone: "session_gone w ?w2" "others h w ?w2"
        unfolding session_gone_def using w1 lk_step f1(2)
        by (auto simp: others_def intro!: exI [of _ "OpLookup (lsg_TicketSeed login) ?peer now"] exI [of _ w1])
      have rej: "lsg_move h body (Return (Some e)) (s, w) (s, ?w2)" for e
        by (rule move_gone [OF na(2) gone])
      show ?thesis
      proof (cases r)
        case None
        with l login zero s1 lk rej show ?thesis by (auto simp: lsg_login_def Let_def)
      next
        case r: (Some st)
        obtain session token where st: "st = (session, token)" by (metis surj_pair)
        from lss_Lookup_result(2) [OF lk, of session token] r st obtain p where same: "sessions = lw_sessions w1"
          and p: "map_of (lss_bySeed (lw_sessions w1)) (lsg_TicketSeed login) = Some p" "session = pend_session p"
            "token = pend_token p" "lobbyPeerIdentity ?peer = Inr (pend_peer p)" by auto
        have w2: "?w2 = w1" using same by simp
        show ?thesis
        proof (cases "\<exists>account. ls_TitleID session = lsg_TitleID login \<and>
            LookupUserID (ls_UserID session) (lw_accounts w1) = Some account \<and> acc_AccountHash account = ls_AccountHash session")
          case False
          with l login zero s1 lk r st rej show ?thesis
            by (auto simp: lsg_login_def Let_def split: option.splits if_splits)
        next
          case True
          then obtain account where acc: "ls_TitleID session = lsg_TitleID login"
            "LookupUserID (ls_UserID session) (lw_accounts w1) = Some account" "acc_AccountHash account = ls_AccountHash session"
            by blast
          let ?w3 = "lw_set_client h ((lw_clients ?w2 h)\<lparr>lc_account := account, lc_sessionKey := ls_SessionKey session\<rparr>) ?w2"
          obtain cid w4 where cid: "new_connectionID ?w3 = (cid, w4)" by (metis surj_pair)
          have w4: "w4 = ?w3\<lparr>lw_nextID := cid\<rparr>" "cid = (if lw_nextID w + 1 = 0 then 1 else lw_nextID w + 1)"
            using cid f1(4) by (auto simp: new_connectionID_def nextID_Add_def split: if_splits)
          obtain y w5 where wr: "writeConnectionID h cid w4 = (y, w5)" by (metis surj_pair)
          note w5 = client_writeFrame_result [OF wr [unfolded writeConnectionID_def]]
          have in5: "logs_in h session token cid w w'" if "quiet w5 w'" "others h w5 w'" for w'
          proof -
            have q: "quiet w4 w'" "others h w4 w'"
              using w5 that quiet_trans others_trans by blast+
            note f = quiet_fields [OF q(1)]
            have "lw_accounts w' = lw_accounts w" "lw_sessions w' = lw_sessions w" "lw_matches w' = lw_matches w"
              "lw_byAccount w' = lw_byAccount w" "lw_nextID w' = cid"
              using f f1 w4 same by simp_all
            moreover have "others h w w'" using q(2) w1(2) w4(1) by (simp add: others_def)
            moreover have "lc_account (lw_clients w' h) = account" "lc_sessionKey (lw_clients w' h) = ls_SessionKey session"
              "cn_peer (lc_connection (lw_clients w' h)) = cn_peer (lc_connection (lw_clients w h))"
              "unread (lc_connection (lw_clients w' h)) \<le> unread (lc_connection (lw_clients w h))"
              using f(9-12) [of h] f1(11,12) [of h] w4(1) by simp_all
            ultimately show ?thesis
              unfolding logs_in_def using p acc f1(1,2,11) w4(2) by metis
          qed
          show ?thesis
          proof (cases y)
            case (Inl e)
            with l login zero s1 lk r st acc cid wr have "out = Return (Some e)" "s' = s\<lparr>lv_connectionID := cid\<rparr>" "w' = w5"
              by (simp_all add: lsg_login_def Let_def)
            with move_login_failed [OF na(1) in5] show ?thesis by simp
          next
            case (Inr u)
            obtain t w6 where tm: "on_client h time_Now w5 = (t, w6)" by (metis surj_pair)
            note w6 = on_client_result(1,2) [OF tm conn_quiet_ops(1)]
            from Inr l login zero s1 lk r st acc cid wr tm have "out = Continue" "w' = w6"
              "s' = s\<lparr>lv_connectionID := cid, lv_lobbySession := session, lv_sessionToken := token,
                lv_authenticated := True, lv_proofDeadline := t + lhc_ProofTimeout config\<rparr>"
              by (simp_all add: lsg_login_def Let_def)
            with move_login [OF na(1) in5 [OF w6]] show ?thesis by simp
          qed
        qed
      qed
    qed
  qed
qed

lemma lsg_stay: "lsg_move h body out (s, w) (s, w)"
  using move_idle [of w w h s "lv_provisionalControlRecords s" body out] by simp

lemma lsg_request_move:
  assumes a: "lv_authenticated s" and l: "lsg_request h body (s, w) = (out, s', w')"
  shows "lsg_move h body out (s, w) (s', w')"
proof (cases "decryptRequestBody body (ls_SessionKey (lv_lobbySession s))")
  case (Inl e)
  with l lsg_stay show ?thesis by (auto simp: lsg_request_def)
next
  case req: (Inr request)
  show ?thesis
  proof (cases "lv_sessionConfirmed s")
    case True
    with l req have sv: "lsg_service h request (s, w) = (out, s', w')" by (simp add: lsg_request_def lsg_confirm_def)
    from lsg_service_result [OF sv] move_serve [OF a True req] show ?thesis by auto
  next
    case nc: False
    obtain now w1 where s1: "on_client h config_Now w = (now, w1)" by (metis surj_pair)
    note w1 = on_client_result [OF s1 conn_quiet_ops(2)]
    note f1 = quiet_fields [OF w1(1)]
    let ?peer = "cn_peer (lc_connection (lw_clients w h))"
    obtain r sessions where co: "lss_Consume (ls_TicketSeed (lv_lobbySession s)) (lv_sessionToken s) ?peer now (lw_sessions w)
        = (r, sessions)" by (metis surj_pair)
    have co1: "lss_Consume (ls_TicketSeed (lv_lobbySession s)) (lv_sessionToken s)
        (cn_peer (lc_connection (lw_clients w1 h))) now (lw_sessions w1) = (r, sessions)"
      using co f1(2,11) by simp
    let ?w2 = "w1\<lparr>lw_sessions := sessions\<rparr>"
    show ?thesis
    proof (cases r)
      case None
      let ?op = "OpConsume (ls_TicketSeed (lv_lobbySession s)) (lv_sessionToken s) ?peer now"
      have "session_gone w ?w2" "others h w ?w2"
        unfolding session_gone_def using w1 co by (auto simp: others_def intro!: exI [of _ ?op] exI [of _ w1])
      moreover from None l req s1 co1 nc have "out = Return (Some (LsgErr ErrInvalidLSGIdentity))" "s' = s" "w' = ?w2"
        by (simp_all add: lsg_request_def lsg_confirm_def)
      ultimately show ?thesis using move_gone [OF nc] by simp
    next
      case (Some session)
      let ?s = "s\<lparr>lv_lobbySession := session, lv_sessionConfirmed := True\<rparr>"
      from Some l req s1 co1 nc have sv: "lsg_service h request (?s, activate h ?w2) = (out, s', w')"
        by (simp add: lsg_request_def lsg_confirm_def)
      from lsg_service_result [OF sv] move_confirm [OF a nc req w1(1,2) co [unfolded Some]] show ?thesis by auto
    qed
  qed
qed

lemma lsg_record_move:
  assumes a: "lv_sessionConfirmed s \<longrightarrow> lv_authenticated s" and l: "lsg_record config h record (s, w) = (out, s', w')"
  shows "lsg_move h (Body record) out (s, w) (s', w')"
proof -
  obtain exceeded n where c: "count_control config s = (exceeded, s\<lparr>lv_provisionalControlRecords := n\<rparr>)"
    "\<not> (lv_authenticated s \<and> \<not> lv_sessionConfirmed s) \<longrightarrow> n = lv_provisionalControlRecords s"
  proof
    let ?n = "if lv_authenticated s \<and> \<not> lv_sessionConfirmed s then lv_provisionalControlRecords s + 1
      else lv_provisionalControlRecords s"
    show "count_control config s = (fst (count_control config s), s\<lparr>lv_provisionalControlRecords := ?n\<rparr>)"
      by (simp add: count_control_def Let_def)
  qed simp
  note idle = move_idle [OF _ _ c(2), of w _ h "Body record"]
  have same: "lsg_move h (Body record) out (s, w) (s\<lparr>lv_provisionalControlRecords := n\<rparr>, w)" for out
    by (rule idle) simp_all
  show ?thesis
  proof (cases "Kind record")
    case RecordKindKeepalive
    obtain y w1 where wr: "client_writeFrame h [] w = (y, w1)" by (metis surj_pair)
    have "lsg_move h (Body record) out (s, w) (s\<lparr>lv_provisionalControlRecords := n\<rparr>, w1)" for out
      by (rule idle) (use client_writeFrame_result [OF wr] in simp_all)
    with l RecordKindKeepalive c(1) wr same show ?thesis
      by (auto simp: lsg_record_def split: if_splits sum.splits)
  next
    case RecordKindBufferAvailable
    with l c(1) same show ?thesis by (auto simp: lsg_record_def split: if_splits)
  next
    case RecordKindFrame
    with l lsg_request_move lsg_login_move a show ?thesis by (auto simp: lsg_record_def split: if_splits)
  qed
qed

text \<open>The reading half of an iteration.\<close>

lemma lsg_iteration_cases:
  assumes "lsg_iteration config h (s, w) = (out, s', w')"
  obtains (over) r where "out = Return r" "s' = s" "quiet w w'" "others h w w'"
  | (read) rec w1 where "quiet w w1" "others h w w1"
      "unread (lc_connection (lw_clients w1 h)) < unread (lc_connection (lw_clients w h))"
      "\<exists>now. cn_read_by (lc_connection (lw_clients w1 h)) = read_deadline config s now"
      "\<exists>c. conn_ReadRecord DefaultMaxFrameBody c = (Inr rec, lc_connection (lw_clients w1 h)) \<and>
        cn_in c = cn_in (lc_connection (lw_clients w h))"
      "lhc_MaxRecords config \<noteq> 0 \<longrightarrow> int (lv_recordIndex s) < lhc_MaxRecords config"
      "lsg_record config h rec (s\<lparr>lv_recordIndex := lv_recordIndex s + 1\<rparr>, w1) = (out, s', w')"
proof (cases "lhc_MaxRecords config \<noteq> 0 \<and> int (lv_recordIndex s) \<ge> lhc_MaxRecords config")
  case True
  show ?thesis by (rule over) (use assms True in \<open>auto simp: lsg_iteration_def\<close>)
next
  case lim: False
  obtain stopped w1 where s1: "on_client h ctx_done w = (stopped, w1)" by (metis surj_pair)
  note w1 = on_client_result [OF s1 conn_quiet_ops(3)]
  obtain now w2 where s2: "on_client h time_Now w1 = (now, w2)" by (metis surj_pair)
  note w2 = on_client_result [OF s2 conn_quiet_ops(1)]
  obtain y w3 where s3: "on_client h (SetReadDeadline (read_deadline config s now)) w2 = (y, w3)" by (metis surj_pair)
  note w3 = on_client_result [OF s3 conn_quiet_ops(4)]
  obtain z w4 where s4: "on_client h (conn_ReadRecord DefaultMaxFrameBody) w3 = (z, w4)" by (metis surj_pair)
  note w4 = on_client_result [OF s4 conn_quiet_ops(5)]
  obtain stopped' w5 where s5: "on_client h ctx_done w4 = (stopped', w5)" by (metis surj_pair)
  note w5 = on_client_result [OF s5 conn_quiet_ops(3)]
  have q: "quiet w w3" "others h w w3" using w1 w2 w3 quiet_trans others_trans by blast+
  have q4: "quiet w w4" "others h w w4" using q w4 quiet_trans others_trans by blast+
  have q5: "quiet w w5" "others h w w5" using q4 w5 quiet_trans others_trans by blast+
  show ?thesis
  proof (cases stopped)
    case True
    show ?thesis by (rule over) (use assms lim s1 True w1 in \<open>auto simp: lsg_iteration_def\<close>)
  next
    case st: False
    show ?thesis
    proof (cases y)
      case (Inl e)
      show ?thesis by (rule over) (use assms lim s1 st s2 s3 Inl q in \<open>auto simp: lsg_iteration_def\<close>)
    next
      case y: (Inr u)
      show ?thesis
      proof (cases z)
        case (Inl e)
        have e: "(\<exists>r. out = Return r) \<and> s' = s \<and> w' = w5"
          using assms lim s1 st s2 s3 y s4 Inl s5 by (auto simp: lsg_iteration_def split: if_splits)
        show ?thesis using over e q5 by blast
      next
        case (Inr rec)
        let ?c = "\<lambda>w. lc_connection (lw_clients w h)"
        have rd: "conn_ReadRecord DefaultMaxFrameBody (?c w3) = (Inr rec, ?c w4)" using w4(3) Inr by simp
        then obtain stm where "ReadTransportRecord DefaultMaxFrameBody (cn_in (?c w3)) = (Inr rec, stm)"
          "?c w4 = ?c w3\<lparr>cn_in := stm\<rparr>"
          by (auto simp: conn_ReadRecord_def split: prod.splits if_splits)
        then have "unread (?c w4) < unread (?c w3)"
          using ReadTransportRecord_shorter [of DefaultMaxFrameBody "cn_in (?c w3)" rec stm]
          by (simp add: unread_def)
        then have less: "unread (?c w4) < unread (?c w)" using quiet_fields(12) [OF q(1), of h] by simp
        have cin: "cn_in (?c w3) = cn_in (?c w)"
          using w1(3) w2(3) SetReadDeadline_result(1) [OF w3(3)] ctx_done_fields(1) time_Now_fields(1)
          by (metis snd_conv)
        have "cn_read_by (?c w4) = cn_read_by (?c w3)" by (rule conn_ReadRecord_result(3) [OF rd])
        then have rb: "cn_read_by (?c w4) = read_deadline config s now" using SetReadDeadline_result(5) [OF w3(3)] y by simp
        have run: "lsg_record config h rec (s\<lparr>lv_recordIndex := lv_recordIndex s + 1\<rparr>, w4) = (out, s', w')"
          using assms lim s1 st s2 s3 y s4 Inr by (simp add: lsg_iteration_def)
        show ?thesis
          by (rule read [OF q4 less _ _ _ run]) (use rb rd cin lim in auto)
      qed
    qed
  qed
qed

section \<open>Replies\<close>

lemma write_results_eq:
  "list_all stored_info_ok results \<Longrightarrow>
   write_results results writer = (Inr (), bw_append (concat (map (result_bytes (bw_typeChecked writer)) results)) writer)"
  by (induction results arbitrary: writer) (simp_all add: writeMatchmakingResult_eq)

text \<open>The body of the reply to a search that found \<open>results\<close> out of \<open>found\<close> matches.\<close>

definition search_reply :: "u64 \<Rightarrow> MatchmakingInfo list \<Rightarrow> u32 \<Rightarrow> bytes" where
  "search_reply tx results found = marshalClearTaskReplyBody
     (marshalTaskReply tx MatchmakingTaskFind statusNoError (word_of_nat (length results)) found @
      concat (map (result_bytes True) results))"

lemma stored_results_ok: "mms_inv s \<Longrightarrow> list_all stored_info_ok (map sm_info (take n (drop m (matching_sessions q s))))"
  unfolding mms_inv_def mms_entry_ok_def list_all_iff matching_sessions_def
  by (fastforce dest!: in_set_takeD in_set_dropD)

lemma handle_find:
  assumes "mms_inv (lw_matches w)" and "mms_maxSessions (lw_matches w) \<le> 1000000" and "mr_Task request = MatchmakingTaskFind"
  shows "handleMatchmaking cid tx request w =
    (let all = matching_sessions (mr_Query request) (lw_matches w)
     in (Inr (search_reply tx (map sm_info (take (unat (mr_MaxResults request)) (drop (unat (mr_Offset request)) all)))
           (word_of_nat (length all))), w))"
  using assms(3) mms_Find_eq [OF assms(1,2)] stored_results_ok [OF assms(1)]
  by (simp add: handleMatchmaking_def Let_def task_defs write_results_eq search_reply_def bw_WriteRaw_def
      NewByteWriter_def bw_Bytes_def bw_append_def)

lemma length_results: "list_all stored_info_ok rs \<Longrightarrow> length (concat (map (result_bytes True) rs)) \<le> 400 * length rs"
  by (induction rs) (use length_result_bytes in force)+

lemma handleMatchmaking_body:
  assumes i: "mms_inv (lw_matches w)" "mms_maxSessions (lw_matches w) \<le> 1000000"
    and ok: "mr_Task request = MatchmakingTaskFind \<longrightarrow> mr_MaxResults request \<le> maxFindResults"
    and h: "handleMatchmaking cid tx request w = (Inr body, w')"
  shows "\<exists>reply. body = marshalClearTaskReplyBody reply \<and> length reply \<le> 20100"
proof -
  let ?ack = "marshalTaskReply tx (mr_Task request) statusNoError 0 0"
  have ack: "length ?ack \<le> 20100" by (simp add: length_marshalTaskReply)
  show ?thesis
  proof (cases "mr_Task request = MatchmakingTaskFind")
    case True
    let ?all = "matching_sessions (mr_Query request) (lw_matches w)"
    let ?page = "map sm_info (take (unat (mr_MaxResults request)) (drop (unat (mr_Offset request)) ?all))"
    have "unat (mr_MaxResults request) \<le> 50" using ok True by (simp add: maxFindResults_def word_le_nat_alt)
    then have "length ?page \<le> 50" by simp
    moreover have "length (concat (map (result_bytes True) ?page)) \<le> 400 * length ?page"
      by (rule length_results [OF stored_results_ok [OF i(1)]])
    ultimately have "length (concat (map (result_bytes True) ?page)) \<le> 20000" by simp
    then have "length (marshalTaskReply tx MatchmakingTaskFind statusNoError n m @
        concat (map (result_bytes True) ?page)) \<le> 20100" for n m
      by (simp only: length_append) (simp add: length_marshalTaskReply)
    moreover have "body = search_reply tx ?page (word_of_nat (length ?all))"
      using handle_find [OF i True, of cid tx] h by (simp add: Let_def)
    ultimately show ?thesis unfolding search_reply_def by blast
  next
    case nf: False
    show ?thesis
    proof (cases "mr_Task request = MatchmakingTaskCreate")
      case True
      obtain x m random where c: "mms_Create cid (mr_Info request) (lw_matches w, Some (lw_random w)) = (x, (m, random))"
        by (metis surj_pair)
      obtain created writer where wr: "writeMatchmakingSessionID (mi_SessionID created)
          (bw_WriteRaw (marshalTaskReply tx (mr_Task request) statusNoError 1 1) (NewByteWriter True)) = (Inr (), writer)"
        and b: "body = marshalClearTaskReplyBody (bw_Bytes writer)" and x: "x = Inr created"
        using h True c by (auto simp: handleMatchmaking_def Let_def split: sum.splits prod.splits)
      obtain m' r' where "create_attempts maxSessionIDAttempts cid (mr_Info request) (lw_matches w, lw_random w) = (Inr created, (m', r'))"
        using c x by (auto simp: mms_Create_def split: if_splits prod.splits)
      then have sid: "length (mi_SessionID created) = 8"
        by (auto dest: create_attempts_result)
      then have "length (bw_Bytes writer) \<le> 20100"
        using wr by (auto simp: writeMatchmakingSessionID_def bw_WriteBlob_eq bw_WriteRaw_def bw_Bytes_def
            NewByteWriter_def bw_append_def length_enc length_marshalTaskReply)
      with b show ?thesis by blast
    next
      case False
      with h nf ack show ?thesis
        by (auto simp: handleMatchmaking_def Let_def split: option.splits prod.splits if_splits)
    qed
  qed
qed

text \<open>The body of every reply can be sent: it is never one that the frame writer refuses.\<close>

lemma parse_find_limit:
  assumes "parseMatchmakingRequest payload seed = Inr request" and "length payload \<le> MaxUint32"
    and "bindMatchmakingIdentity request name = Inr bound" and "mr_Task bound = MatchmakingTaskFind"
  shows "mr_MaxResults bound \<le> maxFindResults"
proof -
  have t: "mr_Task request = MatchmakingTaskFind \<and> bound = request"
    using assms(3,4) by (auto simp: bindMatchmakingIdentity_def task_defs split: if_splits)
  have "matchmaking_request_ok request"
    using assms(1) parseMatchmakingRequest_eq [OF assms(2)] by simp
  with t show ?thesis by (simp add: matchmaking_request_ok_def Let_def task_defs)
qed

lemma clear_body_sendable: "length reply \<le> 20100 \<Longrightarrow> checkFrameBody (marshalClearTaskReplyBody reply) = None"
  using length_marshalClearTaskReplyBody [of reply] by (simp add: checkFrameBody_None)

lemma service_reply_body:
  assumes i: "mms_inv (lw_matches w)" "mms_maxSessions (lw_matches w) \<le> 1000000"
    and p: "length (er_Payload request) \<le> MaxUint32" and h: "service_reply h request s w = (Inr body, w')"
  shows "\<exists>reply. body = marshalClearTaskReplyBody reply \<and> length reply \<le> 20100"
proof -
  have plain: "length (marshalTaskReply tx t statusNoError 0 0) \<le> 20100" for tx t by (simp add: length_marshalTaskReply)
  from h consider tx t where "body = marshalClearTaskReplyBody (marshalTaskReply tx t statusNoError 0 0)"
    | m m' where "parseMatchmakingRequest (er_Payload request) (er_Seed request) = Inr m"
        "bindMatchmakingIdentity m (acc_Username (lc_account (lw_clients w h))) = Inr m'"
        "handleMatchmaking (lv_connectionID s) (lv_transactionID s) m' w = (Inr body, w')"
    by (auto simp: service_reply_def split: if_splits sum.splits prod.splits)
  then show ?thesis
  proof cases
    case 2
    have "mr_Task m' = MatchmakingTaskFind \<longrightarrow> mr_MaxResults m' \<le> maxFindResults"
      using parse_find_limit [OF 2(1) p 2(2)] by blast
    from handleMatchmaking_body [OF i this 2(3)] show ?thesis .
  qed (use plain in blast)
qed

section \<open>Termination\<close>

lemma served_unread:
  assumes "served cid w w'"
  shows "unread (lc_connection (lw_clients w' h)) \<le> unread (lc_connection (lw_clients w h))"
  using assms by (simp add: served_def same_clients_def same_identity_def)

lemma session_gone_clients: "session_gone w w' \<Longrightarrow> same_clients w w'"
  by (auto simp: session_gone_def quiet_def same_clients_def)

lemma lsg_move_unread:
  assumes "lsg_move h body out (s, w) (s', w')"
  shows "unread (lc_connection (lw_clients w' h)) \<le> unread (lc_connection (lw_clients w h))"
  using assms
proof (cases rule: lsg_move_cases)
  case (confirm request w1 now session sessions tx)
  let ?w2 = "w1\<lparr>lw_sessions := sessions\<rparr>"
  have "unread (lc_connection (lw_clients w' h)) \<le> unread (lc_connection (lw_clients (activate h ?w2) h))"
    by (rule served_unread [OF confirm(7)])
  also have "\<dots> \<le> unread (lc_connection (lw_clients ?w2 h))"
    using activate_result(5) [OF refl, of ?w2 h] by (simp add: same_clients_def same_identity_def)
  also have "\<dots> \<le> unread (lc_connection (lw_clients w h))" using quiet_fields(12) [OF confirm(4), of h] by simp
  finally show ?thesis .
qed (use quiet_fields(12) served_unread session_gone_clients in
    \<open>auto simp: logs_in_def same_clients_def same_identity_def\<close>)

definition lsg_ok :: "lsg_state \<Rightarrow> bool" where
  "lsg_ok s \<longleftrightarrow> (lv_sessionConfirmed s \<longrightarrow> lv_authenticated s)"

lemma lsg_move_ok: "lsg_move h body out (s, w) (s', w') \<Longrightarrow> lsg_ok s \<Longrightarrow> lsg_ok s'"
  by (erule lsg_move_cases) (auto simp: lsg_ok_def)

lemma lsg_iteration_progress:
  assumes "lsg_iteration config h (s, w) = (Continue, s', w')" and "lsg_ok s"
  shows "unread (lc_connection (lw_clients w' h)) < unread (lc_connection (lw_clients w h)) \<and> lsg_ok s'"
  using assms(1)
proof (rule lsg_iteration_cases)
  fix rec w1
  assume less: "unread (lc_connection (lw_clients w1 h)) < unread (lc_connection (lw_clients w h))"
    and run: "lsg_record config h rec (s\<lparr>lv_recordIndex := lv_recordIndex s + 1\<rparr>, w1) = (Continue, s', w')"
  have mv: "lsg_move h (Body rec) Continue (s\<lparr>lv_recordIndex := lv_recordIndex s + 1\<rparr>, w1) (s', w')"
    by (rule lsg_record_move [OF _ run]) (use assms(2) in \<open>simp add: lsg_ok_def\<close>)
  from lsg_move_unread [OF mv] lsg_move_ok [OF mv] less assms(2) show ?thesis by (simp add: lsg_ok_def)
qed simp

lemma lsg_loop_returns:
  assumes "lsg_ok s" and "unread (lc_connection (lw_clients w h)) < fuel"
  shows "\<exists>r st. lsg_loop fuel config h (s, w) = Some (r, st)"
  using assms
proof (induction fuel arbitrary: s w)
  case (Suc fuel)
  obtain out s' w' where it: "lsg_iteration config h (s, w) = (out, s', w')" by (metis surj_pair)
  show ?case
  proof (cases out)
    case Continue
    with it lsg_iteration_progress [of config h s w s' w'] Suc.prems Suc.IH [of s' w'] show ?thesis by simp
  qed (use it in simp)
qed simp

text \<open>Once a connection is closed its handler returns, at the next record at the latest.\<close>

lemma closed_connection_returns:
  assumes "cn_closed (lc_connection (lw_clients w h))"
  shows "\<exists>r w'. lsg_iteration config h (s, w) = (Return r, s, w')"
proof -
  obtain stop w1 where 1: "on_client h ctx_done w = (stop, w1)" by (metis surj_pair)
  obtain now w2 where 2: "on_client h time_Now w1 = (now, w2)" by (metis surj_pair)
  have "cn_closed (lc_connection (lw_clients w1 h))"
    using on_client_result(3) [OF 1 conn_quiet_ops(3)] assms ctx_done_fields by (metis snd_conv)
  then have "cn_closed (lc_connection (lw_clients w2 h))"
    using on_client_result(3) [OF 2 conn_quiet_ops(1)] time_Now_fields by (metis snd_conv)
  then have "\<exists>e w3. on_client h (SetReadDeadline (read_deadline config s now)) w2 = (Inl e, w3)"
    by (simp add: on_client_def Let_def SetReadDeadline_def set_deadline_def)
  with 1 2 show ?thesis by (auto simp: lsg_iteration_def)
qed

section \<open>Properties\<close>

text \<open>C21: a connection to the lobby server ends. The loop has no bound of its own by default, but every
  iteration that continues has taken a record from the connection, so a connection whose peer sends
  finitely many bytes returns.\<close>

theorem lobby_connection_returns:
  assumes "unread connection < fuel"
  shows "\<exists>r w'. lsg_HandleTCP fuel config h connection w = Some (r, w')"
proof -
  have "unread (lc_connection (lw_clients (lw_set_client h (new_client connection) w) h)) < fuel"
    using assms by (simp add: new_client_def)
  from lsg_loop_returns [OF _ this, of lsg_start config]
  obtain r st where "lsg_loop fuel config h (lsg_start, lw_set_client h (new_client connection) w) = Some (r, st)"
    by (auto simp: lsg_ok_def lsg_start_def)
  then show ?thesis by (simp add: lsg_HandleTCP_def)
qed

text \<open>C1: no service before proof. If handling a record for a connection that is not confirmed creates or
  removes a match, changes the table of active clients, touches another connection, or confirms the
  session, then the connection had logged in, the record is a request sealed with the session key, and
  the pending session was consumed for its token and this peer.\<close>

theorem no_service_before_proof:
  assumes "lsg_iteration config h (s, w) = (out, s', w')" and "\<not> lv_sessionConfirmed s"
    and "lw_matches w' \<noteq> lw_matches w \<or> lw_byAccount w' \<noteq> lw_byAccount w \<or>
      (\<exists>g. g \<noteq> h \<and> lw_clients w' g \<noteq> lw_clients w g) \<or> lv_sessionConfirmed s'"
  shows "lv_authenticated s \<and> lv_sessionConfirmed s' \<and>
    (\<exists>c c' record request. conn_ReadRecord DefaultMaxFrameBody c = (Inr record, c') \<and>
       cn_in c = cn_in (lc_connection (lw_clients w h)) \<and>
       decryptRequestBody (Body record) (ls_SessionKey (lv_lobbySession s)) = Inr request) \<and>
    (\<exists>now session. lss_Consume (ls_TicketSeed (lv_lobbySession s)) (lv_sessionToken s)
       (cn_peer (lc_connection (lw_clients w h))) now (lw_sessions w) = (Some session, lw_sessions w'))"
  using assms(1)
proof (rule lsg_iteration_cases)
  assume "s' = s" "quiet w w'" "others h w w'"
  with assms(2,3) show ?thesis by (auto simp: quiet_def same_stores_def others_def)
next
  fix rec w1
  let ?s = "s\<lparr>lv_recordIndex := lv_recordIndex s + 1\<rparr>"
  assume q: "quiet w w1" "others h w w1"
    and rd: "\<exists>c. conn_ReadRecord DefaultMaxFrameBody c = (Inr rec, lc_connection (lw_clients w1 h)) \<and>
        cn_in c = cn_in (lc_connection (lw_clients w h))"
    and run: "lsg_record config h rec (?s, w1) = (out, s', w')"
  note f = quiet_fields [OF q(1)]
  have mv: "lsg_move h (Body rec) out (?s, w1) (s', w')"
    by (rule lsg_record_move [OF _ run]) (use assms(2) in simp)
  have same: False if "lw_matches w' = lw_matches w1" "lw_byAccount w' = lw_byAccount w1" "others h w1 w'"
      "\<not> lv_sessionConfirmed s'"
    using that assms(3) f(3,6) q(2) by (auto simp: others_def)
  from mv show ?thesis
  proof (cases rule: lsg_move_cases)
    case (confirm request w2 now session sessions tx)
    have "lw_sessions w' = sessions"
      using confirm(7) activate_result(2) [OF refl, of h "w2\<lparr>lw_sessions := sessions\<rparr>"] by (simp add: served_def)
    with confirm f(2,11) rd show ?thesis by simp blast
  next
    case (gone e)
    with same assms(2) show ?thesis by (auto simp: session_gone_def quiet_def same_stores_def)
  qed (use same assms(2) in \<open>auto simp: quiet_def same_stores_def logs_in_def\<close>)
qed


text \<open>C23: an instant message reported as delivered has left in full, once, to the active client of the
  recipient's account; under that client's session key and a seed of its own it decrypts to the account
  and the name (cut to 63 bytes) of the sender and to the message.\<close>

theorem message_is_delivered:
  assumes "deliverGlobalInstantMessage h request w = (True, w')"
  shows "\<exists>g c k. lookup (msg_Recipient request) w = Some g \<and> k < 8 \<and>
    w_out (cn_out (lc_connection (lw_clients w' g))) = w_out (cn_out (lc_connection (lw_clients w g))) @
      frame_bytes ([1] @ LE_PutUint32 (lc_nextServerSeed (lw_clients w g)) @ c) \<and>
    Decrypt3DESCBC (lc_sessionKey (lw_clients w g)) (DeriveIV (lc_nextServerSeed (lw_clients w g))) c =
      Inr (push_plaintext (client_hash h w) (take 63 (acc_Username (lc_account (lw_clients w h)))) (msg_Message request) @
        replicate k 0) \<and>
    lc_nextServerSeed (lw_clients w' g) = lc_nextServerSeed (lw_clients w g) + 1"
proof -
  obtain g where g: "lookup (msg_Recipient request) w = Some g"
    using assms by (auto simp: deliverGlobalInstantMessage_def split: option.splits)
  let ?sender = "lc_account (lw_clients w h)"
  obtain seed w1 where s: "serverSeed g w = (seed, w1)" by (metis surj_pair)
  note w1 = serverSeed_result [OF s]
  let ?push = "marshalGlobalInstantMessagePush (lc_sessionKey (lw_clients w1 g)) seed
    (acc_AccountHash ?sender) (take maxMessagingSenderNameBytes (acc_Username ?sender)) (msg_Message request)"
  obtain body where body: "?push = Inr body"
    using assms g s by (auto simp: deliverGlobalInstantMessage_def Let_def split: sum.splits)
  obtain r w2 where wr: "client_writeFrame g body w1 = (r, w2)" by (metis surj_pair)
  have "r = Inr () \<and> w' = w2"
    using assms g s body wr by (auto simp: deliverGlobalInstantMessage_def Let_def split: sum.splits)
  then have r: "r = Inr ()" "w' = w2" by simp_all
  note wf = client_writeFrame_result(3) [OF wr]
  have sent: "w_out (cn_out (lc_connection (lw_clients w' g))) = w_out (cn_out (lc_connection (lw_clients w g))) @ frame_bytes body"
    using conn_writeFrame_result(5) [OF wf] r w1(5) by auto
  have keep: "lc_nextServerSeed (lw_clients w' g) = seed + 1"
    using wr r w1(4) by (auto simp: client_writeFrame_def on_client_def Let_def split: prod.splits)
  from push_recovers [OF body] obtain c k where c: "body = [1] @ LE_PutUint32 seed @ c" "k < 8"
    "Decrypt3DESCBC (lc_sessionKey (lw_clients w1 g)) (DeriveIV seed) c =
      Inr (push_plaintext (acc_AccountHash ?sender) (take maxMessagingSenderNameBytes (acc_Username ?sender))
        (msg_Message request) @ replicate k 0)" by blast
  have "lc_sessionKey (lw_clients w1 g) = lc_sessionKey (lw_clients w g)" using quiet_fields(10) [OF w1(1)] by simp
  with g c sent keep w1(3) show ?thesis
    by (intro exI [of _ g] exI [of _ c] exI [of _ k]) (simp add: client_hash_def maxMessagingSenderNameBytes_def)
qed

text \<open>The reply to a request is always a frame that can be sent: whatever the payload asks, its body is
  small and never has the length of a control word, so that the writer does not refuse it.\<close>

theorem service_reply_sendable:
  assumes "mms_inv (lw_matches w)" and "mms_maxSessions (lw_matches w) \<le> 1000000"
    and "length (er_Payload request) \<le> MaxUint32" and "service_reply h request s w = (Inr body, w')"
  shows "checkFrameBody body = None"
proof -
  from service_reply_body [OF assms] obtain reply where
    "body = marshalClearTaskReplyBody reply" "length reply \<le> 20100" by (elim exE conjE)
  then show ?thesis by (simp only: clear_body_sendable)
qed

text \<open>A search is always answered, with exactly the page of the matching sessions that was asked for, in
  the order of their creation, each in full, and their total number; it changes nothing.\<close>

theorem search_is_answered:
  assumes "mms_inv (lw_matches w)" and "mms_maxSessions (lw_matches w) \<le> 1000000" and "mr_Task request = MatchmakingTaskFind"
  shows "handleMatchmaking cid tx request w =
    (let all = matching_sessions (mr_Query request) (lw_matches w);
         results = map sm_info (take (unat (mr_MaxResults request)) (drop (unat (mr_Offset request)) all))
     in (Inr (marshalClearTaskReplyBody
           (marshalTaskReply tx MatchmakingTaskFind statusNoError (word_of_nat (length results)) (word_of_nat (length all)) @
            concat (map (result_bytes True) results))), w))"
  using handle_find [OF assms, of cid tx] by (simp add: Let_def search_reply_def)

section \<open>An instance\<close>

text \<open>A server with one account and its pending session, and a connection that has logged in with it.\<close>

definition lobby_key :: bytes where "lobby_key = replicate 24 1"

definition lobby_session :: LobbySession where
  "lobby_session = \<lparr>ls_TicketSeed = 7, ls_UserID = 1, ls_AccountHash = 9, ls_TitleID = BOZTitleID,
     ls_SessionKey = lobby_key, ls_ExpiresAt = 100\<rparr>"

definition lobby_connection :: "bytes \<Rightarrow> conn" where
  "lobby_connection bs = (example_connection bs)\<lparr>cn_peer := OtherAddr [1] [2]\<rparr>"

definition example_lobby :: "bytes \<Rightarrow> lobby_world" where
  "example_lobby bs = \<lparr>lw_accounts = empty_store 4096 32 [],
     lw_sessions = \<lparr>lss_maxSessions = 4096, lss_maxSessionsPerAccount = 4,
       lss_bySeed = [(7, \<lparr>pend_session = lobby_session, pend_peer = [1, 58, 2], pend_token = 1\<rparr>)],
       lss_sessionsByAccount = [(1, 1)], lss_nextToken = 1\<rparr>,
     lw_matches = \<lparr>mms_maxSessions = 16, mms_maxSessionsPerOwner = 1, mms_nextOrder = 0, mms_byID = [], mms_sessionsByOwner = []\<rparr>,
     lw_byAccount = [(9, 1)], lw_nextID = 1, lw_random = \<lparr>st_bytes = [], st_end = StreamEOF\<rparr>,
     lw_clients = (\<lambda>h. \<lparr>lc_connection = lobby_connection bs, lc_account = example_account,
       lc_sessionKey = lobby_key, lc_nextServerSeed = 0\<rparr>)\<rparr>"

definition example_lsg_state :: lsg_state where
  "example_lsg_state = lsg_start\<lparr>lv_authenticated := True, lv_lobbySession := lobby_session, lv_sessionToken := 1,
     lv_connectionID := 1, lv_proofDeadline := 50\<rparr>"

definition example_lobby_config :: LobbyHandlerConfig where
  "example_lobby_config = \<lparr>lhc_MaxRecords = 0, lhc_MaxProvisionalControlRecords = 8, lhc_ReadTimeout = DefaultReadTimeout,
     lhc_WriteTimeout = LobbyDefaultWriteTimeout, lhc_ProofTimeout = DefaultProofTimeout, lhc_Random = None\<rparr>"

theorem lobby_connection_returns_witness:
  "\<exists>r w'. lsg_HandleTCP 5 example_lobby_config 0 (lobby_connection [0, 0, 0, 0]) (example_lobby []) = Some (r, w')"
  by (rule lobby_connection_returns) (simp add: unread_def lobby_connection_def example_connection_def)

text \<open>A keep-alive of the connection is handled and counted.\<close>

lemma example_keepalive:
  "\<exists>w'. lsg_iteration example_lobby_config 0 (example_lsg_state, example_lobby [0, 0, 0, 0]) =
     (Continue, example_lsg_state\<lparr>lv_provisionalControlRecords := 1, lv_recordIndex := 1\<rparr>, w')"
proof -
  have "ReadTransportRecord DefaultMaxFrameBody \<lparr>st_bytes = [0, 0, 0, 0], st_end = StreamEOF\<rparr> =
      (Inr \<lparr>Kind = RecordKindKeepalive, Body = [], AvailableBuffer = 0\<rparr>, \<lparr>st_bytes = [], st_end = StreamEOF\<rparr>)"
    by code_simp
  then show ?thesis
    by (simp add: lsg_iteration_def example_lobby_config_def example_lsg_state_def lsg_start_def on_client_def Let_def
      example_lobby_def lobby_connection_def example_connection_def ctx_done_def time_Now_def SetReadDeadline_def
      set_deadline_def conn_ReadRecord_def lsg_record_def count_control_def client_writeFrame_def conn_writeFrame_def
      WriteFrame_def checkFrameBody_def writeAll_done BufferAvailableRecordMarker_def)
qed


text \<open>A request that proves the key: the smallest payload, for a service there is not.\<close>

lemma example_proof:
  "\<exists>body. decryptRequestBody body lobby_key = Inr \<lparr>er_Seed = 5, er_Service = 0, er_Payload = [0, 0, 0]\<rparr>"
proof -
  have "length (TruncatedHMACSHA1 lobby_key [0, 0, 0] @ [0] @ [0, 0, 0]) mod 8 = 0" by simp
  then obtain c where "Encrypt3DESCBC lobby_key (DeriveIV 5) (TruncatedHMACSHA1 lobby_key [0, 0, 0] @ [0] @ [0, 0, 0]) = Inr c"
    by (simp add: Encrypt3DESCBC_eq lobby_key_def)
  then show ?thesis unfolding decryptRequestBody_eq sealed_request_def by auto
qed

lemma example_matches: "mms_inv (lw_matches (example_lobby bs))"
proof -
  have "NewMatchmakingStore 16 1 = Inr (lw_matches (example_lobby bs))"
    by (simp add: NewMatchmakingStore_def example_lobby_def Let_def)
  then show ?thesis using mms_inv_New by blast
qed

text \<open>Delivery to the one active client.\<close>

lemma example_delivery:
  "\<exists>w'. deliverGlobalInstantMessage 0 \<lparr>msg_Task = 14, msg_Recipient = 9, msg_Message = [66]\<rparr> (example_lobby []) = (True, w')"
proof -
  have n: "acc_Username example_account = ascii ''dempsey''" "acc_AccountHash example_account = 9"
    by (simp_all add: example_account_def)
  have len: "length (push_plaintext 9 (ascii ''dempsey'') [66]) < 2 ^ 62" by (simp add: length_push_plaintext ascii_def)
  have "length (PadTo3DESBlock (push_plaintext 9 (ascii ''dempsey'') [66])) mod 8 = 0"
    by (rule length_PadTo3DESBlock [OF len])
  then obtain body where b: "marshalGlobalInstantMessagePush lobby_key 0 9 (ascii ''dempsey'') [66] = Inr body"
    unfolding marshalGlobalInstantMessagePush_eq by (auto simp: Encrypt3DESCBC_eq lobby_key_def ascii_def)
  have "checkFrameBody body = None" using push_body [OF b] by (simp add: checkFrameBody_None)
  then show ?thesis
    using b n by (simp add: deliverGlobalInstantMessage_def lookup_def example_lobby_def serverSeed_def Let_def
      lw_set_client_def maxMessagingSenderNameBytes_def ascii_def client_writeFrame_def on_client_def conn_writeFrame_def
      time_Now_def set_deadline_def lobby_connection_def example_connection_def WriteFrame_def writeAll_done)
qed

theorem message_is_delivered_witness:
  "\<exists>w' sent. deliverGlobalInstantMessage 0 \<lparr>msg_Task = 14, msg_Recipient = 9, msg_Message = [66]\<rparr> (example_lobby []) = (True, w') \<and>
     w_out (cn_out (lc_connection (lw_clients w' 1))) = frame_bytes ([1, 0, 0, 0, 0] @ sent)"
proof -
  obtain w' where d: "deliverGlobalInstantMessage 0 \<lparr>msg_Task = 14, msg_Recipient = 9, msg_Message = [66]\<rparr> (example_lobby []) = (True, w')"
    using example_delivery by blast
  have l: "lookup 9 (example_lobby []) = Some 1" "lc_nextServerSeed (lw_clients (example_lobby []) g) = 0"
    "w_out (cn_out (lc_connection (lw_clients (example_lobby []) g))) = []" for g
    by (simp_all add: lookup_def example_lobby_def lobby_connection_def example_connection_def)
  have z: "LE_PutUint32 0 = [0, 0, 0, 0]" by code_simp
  from message_is_delivered [OF d] d show ?thesis by (auto simp: l z)
qed

theorem search_is_answered_witness:
  "\<exists>body. handleMatchmaking 1 3 (zero_request\<lparr>mr_Task := MatchmakingTaskFind, mr_MaxResults := 5\<rparr>) (example_lobby []) =
     (Inr body, example_lobby [])"
proof -
  have "mms_inv (lw_matches (example_lobby []))" by (rule example_matches)
  moreover have "mms_maxSessions (lw_matches (example_lobby [])) \<le> 1000000" by (simp add: example_lobby_def)
  ultimately show ?thesis
    using search_is_answered [of "example_lobby []" "zero_request\<lparr>mr_Task := MatchmakingTaskFind, mr_MaxResults := 5\<rparr>" 1 3]
    by (simp add: Let_def)
qed

theorem service_reply_sendable_witness:
  "\<exists>body w'. service_reply 0 \<lparr>er_Seed = 5, er_Service = MessagingServiceID,
       er_Payload = [3, 0x0e, 0x0a, 9, 0, 0, 0, 0, 0, 0, 0, 0x13, 8, 1, 0, 0, 0, 65, 0]\<rparr> example_lsg_state (example_lobby []) =
       (Inr body, w') \<and> checkFrameBody body = None"
proof -
  let ?req = "\<lparr>er_Seed = 5, er_Service = MessagingServiceID,
       er_Payload = [3, 0x0e, 0x0a, 9, 0, 0, 0, 0, 0, 0, 0, 0x13, 8, 1, 0, 0, 0, 65, 0]\<rparr> :: encryptedRequest"
  have "parseMessagingRequest (er_Payload ?req) (er_Seed ?req) =
      Inr \<lparr>msg_Task = 14, msg_Recipient = 9, msg_Message = [65]\<rparr>"
    by code_simp
  moreover obtain d w' where "deliverGlobalInstantMessage 0 \<lparr>msg_Task = 14, msg_Recipient = 9, msg_Message = [65]\<rparr>
      (example_lobby []) = (d, w')" by (metis surj_pair)
  ultimately obtain body w' where r: "service_reply 0 ?req example_lsg_state (example_lobby []) = (Inr body, w')"
    by (simp add: service_reply_def EventLogServiceID_def MatchmakingServiceID_def MessagingServiceID_def)
  have "checkFrameBody body = None"
    by (rule service_reply_sendable [OF example_matches _ _ r]) (simp_all add: example_lobby_def)
  with r show ?thesis by blast
qed

text \<open>A connection that proves its key.\<close>

lemma example_confirmation:
  "\<exists>bs out s' w'. lsg_iteration example_lobby_config 0 (example_lsg_state, example_lobby bs) = (out, s', w') \<and>
     lv_sessionConfirmed s'"
proof -
  obtain body where body: "decryptRequestBody body lobby_key = Inr \<lparr>er_Seed = 5, er_Service = 0, er_Payload = [0, 0, 0]\<rparr>"
    using example_proof by blast
  let ?rec = "\<lparr>Kind = RecordKindFrame, Body = body, AvailableBuffer = 0\<rparr>"
  have len: "length body = 13"
    using body unfolding decryptRequestBody_eq sealed_request_def by (auto dest!: length_Encrypt3DESCBC [rotated])
  then have ne: "body \<noteq> []" by auto
  have rd: "ReadTransportRecord DefaultMaxFrameBody \<lparr>st_bytes = frame_bytes body, st_end = StreamEOF\<rparr> =
      (Inr ?rec, \<lparr>st_bytes = [], st_end = StreamEOF\<rparr>)"
    using len ne by (simp add: ReadTransportRecord_eq record_bytes_def record_ok_def DefaultMaxFrameBody_def)
  have peer: "lobbyPeerIdentity (OtherAddr [1] [2]) = Inr [1, 58, 2]"
  proof -
    have "SplitHostPort [2] = None" by code_simp
    then show ?thesis by (simp add: lobbyPeerIdentity_def)
  qed
  show ?thesis
    by (rule exI [of _ "frame_bytes body"])
      (simp add: lsg_iteration_def example_lobby_config_def example_lsg_state_def lsg_start_def on_client_def Let_def
      example_lobby_def lobby_connection_def example_connection_def ctx_done_def time_Now_def SetReadDeadline_def
      set_deadline_def conn_ReadRecord_def lsg_record_def rd lsg_request_def body lsg_confirm_def config_Now_def
      lobby_session_def lss_Consume_def peer lss_expired_def lsg_service_def service_reply_def EventLogServiceID_def
      MatchmakingServiceID_def MessagingServiceID_def)
qed

theorem no_service_before_proof_witness:
  "\<exists>now session sessions. lss_Consume 7 1 (OtherAddr [1] [2]) now (lw_sessions (example_lobby [])) = (Some session, sessions)"
proof -
  obtain bs out s' w' where it: "lsg_iteration example_lobby_config 0 (example_lsg_state, example_lobby bs) = (out, s', w')"
    and c: "lv_sessionConfirmed s'"
    using example_confirmation by blast
  have e: "\<not> lv_sessionConfirmed example_lsg_state" "ls_TicketSeed (lv_lobbySession example_lsg_state) = 7"
    "lv_sessionToken example_lsg_state = 1" "cn_peer (lc_connection (lw_clients (example_lobby bs) 0)) = OtherAddr [1] [2]"
    "lw_sessions (example_lobby bs) = lw_sessions (example_lobby [])"
    by (simp_all add: example_lsg_state_def lsg_start_def lobby_session_def example_lobby_def lobby_connection_def)
  from no_service_before_proof [OF it e(1)] c show ?thesis unfolding e by blast
qed

end
