(* ===== verification/Lobby_System.thy ===== *)
theory Lobby_System
  imports Lobby_Service
begin

text \<open>
  The authentication server and the lobby server together: any number of connections that share the
  stores. A step of the system opens a lobby connection, lets one handle its next record, ends it, or
  handles a record of an authentication connection. Within a record the operations of a handler run
  without interleaving; the stores' own theories cover every order of their operations.
\<close>

record lobby_system =
  sys_world :: lobby_world
  sys_disk :: disk
  sys_locals :: "nat \<Rightarrow> lsg_state option"

text \<open>The state the authentication server works on, for its own connection and randomness.\<close>

definition auth_view :: "lobby_world \<Rightarrow> disk \<Rightarrow> go_stream \<Rightarrow> conn \<Rightarrow> auth_world" where
  "auth_view w d random c = \<lparr>aw_accounts = lw_accounts w, aw_disk = d, aw_sessions = lw_sessions w,
     aw_random = random, aw_conn = c\<rparr>"

inductive system_step :: "AuthHandlerConfig \<Rightarrow> LobbyHandlerConfig \<Rightarrow> lobby_system \<Rightarrow> lobby_system \<Rightarrow> bool"
  for auth_config config where
  step_connect: "sys_locals y h = None \<Longrightarrow>
     system_step auth_config config y
       (y\<lparr>sys_world := lw_set_client h (new_client c) (sys_world y), sys_locals := (sys_locals y)(h \<mapsto> lsg_start)\<rparr>)"
| step_record: "sys_locals y h = Some s \<Longrightarrow> lsg_iteration config h (s, sys_world y) = (Continue, s', w') \<Longrightarrow>
     system_step auth_config config y (y\<lparr>sys_world := w', sys_locals := (sys_locals y)(h \<mapsto> s')\<rparr>)"
| step_return: "sys_locals y h = Some s \<Longrightarrow> lsg_iteration config h (s, sys_world y) = (Return r, s', w') \<Longrightarrow>
     system_step auth_config config y
       (y\<lparr>sys_world := lsg_deferred h (s', w'), sys_locals := (sys_locals y)(h := None)\<rparr>)"
| step_auth: "auth_record auth_config record (auth_view (sys_world y) (sys_disk y) random c) = (r, a) \<Longrightarrow>
     system_step auth_config config y
       (y\<lparr>sys_world := (sys_world y)\<lparr>lw_accounts := aw_accounts a, lw_sessions := aw_sessions a\<rparr>, sys_disk := aw_disk a\<rparr>)"

text \<open>The system after \<open>n\<close> steps from new stores.\<close>

definition system_start :: "lobby_system \<Rightarrow> bool" where
  "system_start y \<longleftrightarrow>
     (\<exists>config d. NewAccountStore config d = (Inr (lw_accounts (sys_world y)), sys_disk y)) \<and>
     (\<exists>n m. NewLobbySessionStore n m = Inr (lw_sessions (sys_world y))) \<and>
     (\<exists>n m. NewMatchmakingStore n m = Inr (lw_matches (sys_world y))) \<and>
     lw_byAccount (sys_world y) = [] \<and> lw_nextID (sys_world y) = 0 \<and> sys_locals y = (\<lambda>h. None)"

inductive system_reaches ::
  "AuthHandlerConfig \<Rightarrow> LobbyHandlerConfig \<Rightarrow> lobby_system \<Rightarrow> nat \<Rightarrow> lobby_system \<Rightarrow> bool"
  for auth_config config where
  reach_start: "system_start y \<Longrightarrow> system_reaches auth_config config y 0 y"
| reach_step: "system_reaches auth_config config y0 n y \<Longrightarrow> system_step auth_config config y y' \<Longrightarrow>
     system_reaches auth_config config y0 (Suc n) y'"

section \<open>An iteration as a move\<close>

lemma lsg_iteration_move:
  assumes "lsg_iteration config h (s, w) = (out, s', w')" and "lsg_ok s"
  obtains body k w1 where "quiet w w1" "others h w w1" "lsg_move h body out (s\<lparr>lv_recordIndex := k\<rparr>, w1) (s', w')"
  using assms(1)
proof (rule lsg_iteration_cases)
  fix r assume o: "out = Return r" "s' = s" "quiet w w'" "others h w w'"
  show thesis
    by (rule that [of w' "[]" "lv_recordIndex s"]) (use o lsg_stay [of h "[]" out s w'] in simp_all)
next
  fix rec w1
  assume q: "quiet w w1" "others h w w1"
    and run: "lsg_record config h rec (s\<lparr>lv_recordIndex := lv_recordIndex s + 1\<rparr>, w1) = (out, s', w')"
  have "lsg_move h (Body rec) out (s\<lparr>lv_recordIndex := lv_recordIndex s + 1\<rparr>, w1) (s', w')"
    by (rule lsg_record_move [OF _ run]) (use assms(2) in \<open>simp add: lsg_ok_def\<close>)
  with q that show thesis by blast
qed

section \<open>Matches and their owners\<close>

abbreviation matches_of :: "lobby_world \<Rightarrow> (MatchmakingSessionID \<times> storedMatchmakingSession) set" where
  "matches_of w \<equiv> set (mms_byID (lw_matches w))"

lemma counted_step:
  assumes "match_counts.counted s"
  shows "match_counts.counted (mms_step op s)"
    and "(sid, v) \<in> set (mms_byID (mms_step op s)) \<Longrightarrow>
      (sm_owner v = match_actor op \<and> sm_owner v \<noteq> 0) \<or> (\<exists>v0. (sid, v0) \<in> set (mms_byID s) \<and> sm_owner v0 = sm_owner v)"
proof -
  have "match_counts.counted (mms_step op s) \<and> (\<forall>(sid, v)\<in>set (mms_byID (mms_step op s)).
      (sm_owner v = match_actor op \<and> sm_owner v \<noteq> 0) \<or> (\<exists>v0. (sid, v0) \<in> set (mms_byID s) \<and> sm_owner v0 = sm_owner v))"
  proof (rule mms_step_cases [of op s])
    fix sid info
    assume new: "map_of (mms_byID s) sid = None" and a: "match_actor op \<noteq> 0"
      and st: "mms_step op s = made_session (match_actor op) info sid s"
    let ?s = "s\<lparr>mms_nextOrder := mms_nextOrder s + 1\<rparr>"
    have "match_counts.counted ?s" using assms by (simp add: match_counts.counted_def)
    from match_counts.counted_put [OF this, of sid] new st a show ?thesis
      by (fastforce simp: made_session_def)
  next
    fix sid info and v :: storedMatchmakingSession
    let ?w = "v\<lparr>sm_info := info\<lparr>mi_SessionID := sid, mi_NumPlayers := mi_NumPlayers (sm_info v)\<rparr>\<rparr>"
    assume m: "map_of (mms_byID s) sid = Some v"
      and st: "mms_step op s = s\<lparr>mms_byID := AList.update sid ?w (mms_byID s)\<rparr>"
    have "match_counts.counted (mms_step op s)"
      using match_counts.counted_replace [OF assms m, of ?w "mms_step op s"] st by simp
    moreover have "(k, u) = (sid, ?w) \<or> (k, u) \<in> set (mms_byID s)" if "(k, u) \<in> set (mms_byID (mms_step op s))" for k u
      using that set_update_subset [of sid ?w "mms_byID s"] st by auto
    ultimately show ?thesis using map_of_SomeD [OF m] by fastforce
  next
    fix sid v
    assume m: "map_of (mms_byID s) sid = Some v" and st: "mms_step op s = mms_deleteLocked sid v s"
    with match_counts.counted_del [OF assms m] show ?thesis by (auto simp: delete_filter)
  next
    assume st: "mms_step op s = mms_DeleteOwner (match_actor op) s"
    with match_counts.counted_purge [OF assms] show ?thesis by (auto simp: mms_DeleteOwner_eq)
  qed (use assms in auto)
  then show "match_counts.counted (mms_step op s)"
    "(sid, v) \<in> set (mms_byID (mms_step op s)) \<Longrightarrow>
      (sm_owner v = match_actor op \<and> sm_owner v \<noteq> 0) \<or> (\<exists>v0. (sid, v0) \<in> set (mms_byID s) \<and> sm_owner v0 = sm_owner v)"
    by auto
qed

lemma counted_owner_ops:
  assumes "owner_ops cid ops" and "match_counts.counted s"
  shows "match_counts.counted (mms_run ops s) \<and> (\<forall>sid v. (sid, v) \<in> set (mms_byID (mms_run ops s)) \<longrightarrow>
      (sm_owner v = cid \<and> sm_owner v \<noteq> 0) \<or> (\<exists>v0. (sid, v0) \<in> set (mms_byID s) \<and> sm_owner v0 = sm_owner v))"
  using assms
proof (induction ops arbitrary: s)
  case (Cons op ops)
  have op: "match_actor op = cid" and ops: "owner_ops cid ops" using Cons.prems(1) by (simp_all add: owner_ops_def)
  have r: "mms_run (op # ops) s = mms_run ops (mms_step op s)" by (simp add: mms_run_def)
  from Cons.IH [OF ops counted_step(1) [OF Cons.prems(2)], of op] counted_step(2) [OF Cons.prems(2), of _ _ op] op
  show ?case unfolding r by metis
qed auto

section \<open>Connections, the table of active clients, and owners\<close>

definition confirmed_in :: "(nat \<Rightarrow> lsg_state option) \<Rightarrow> nat \<Rightarrow> bool" where
  "confirmed_in L h \<longleftrightarrow> (\<exists>s. L h = Some s \<and> lv_sessionConfirmed s)"

definition locals_inv :: "(nat \<Rightarrow> lsg_state option) \<Rightarrow> bool" where
  "locals_inv L \<longleftrightarrow> (\<forall>h s. L h = Some s \<longrightarrow> lsg_ok s \<and> (lv_authenticated s \<longrightarrow> lv_connectionID s \<noteq> 0))"

text \<open>The clients of the table are confirmed connections of the account they stand under; a confirmed
  connection that is not in the table has been closed.\<close>

definition table_inv :: "(nat \<Rightarrow> lsg_state option) \<Rightarrow> lobby_world \<Rightarrow> bool" where
  "table_inv L w \<longleftrightarrow>
     (\<forall>x h. map_of (lw_byAccount w) x = Some h \<longrightarrow> confirmed_in L h \<and> client_hash h w = x) \<and>
     (\<forall>h. confirmed_in L h \<longrightarrow> map_of (lw_byAccount w) (client_hash h w) = Some h \<or>
        cn_closed (lc_connection (lw_clients w h)))"

definition owners_inv :: "(nat \<Rightarrow> lsg_state option) \<Rightarrow> lobby_world \<Rightarrow> bool" where
  "owners_inv L w \<longleftrightarrow> match_counts.counted (lw_matches w) \<and>
     (\<forall>sid v. (sid, v) \<in> matches_of w \<longrightarrow> sm_owner v \<noteq> 0 \<and>
        (\<exists>h s. L h = Some s \<and> lv_sessionConfirmed s \<and> lv_connectionID s = sm_owner v))"

definition conn_inv :: "(nat \<Rightarrow> lsg_state option) \<Rightarrow> lobby_world \<Rightarrow> bool" where
  "conn_inv L w \<longleftrightarrow> locals_inv L \<and> table_inv L w \<and> owners_inv L w"

lemma confirmed_in_upd: "confirmed_in (L(h \<mapsto> s)) g \<longleftrightarrow> (if g = h then lv_sessionConfirmed s else confirmed_in L g)"
  by (simp add: confirmed_in_def)

text \<open>The invariant reads three of the local variables only.\<close>

lemma conn_inv_local:
  assumes "conn_inv L w" and "L h = Some s"
    and "lv_sessionConfirmed s' = lv_sessionConfirmed s" and "lv_authenticated s' = lv_authenticated s"
    and "lv_sessionConfirmed s \<or> lv_authenticated s \<Longrightarrow> lv_connectionID s' = lv_connectionID s"
  shows "conn_inv (L(h \<mapsto> s')) w"
proof -
  have c: "confirmed_in (L(h \<mapsto> s')) = confirmed_in L" using assms(2,3) by (auto simp: confirmed_in_def fun_eq_iff)
  have "locals_inv (L(h \<mapsto> s'))"
    using assms unfolding conn_inv_def locals_inv_def lsg_ok_def by (metis fun_upd_apply option.inject)
  moreover have "table_inv (L(h \<mapsto> s')) w" using assms(1) by (simp add: conn_inv_def table_inv_def c)
  moreover have "\<exists>g t. (L(h \<mapsto> s')) g = Some t \<and> lv_sessionConfirmed t \<and> lv_connectionID t = x"
    if "L g = Some t" "lv_sessionConfirmed t" "lv_connectionID t = x" for g t x
    using that assms(2,3,5) by (cases "g = h") auto
  then have "owners_inv (L(h \<mapsto> s')) w" using assms(1) unfolding conn_inv_def owners_inv_def by metis
  ultimately show ?thesis by (simp add: conn_inv_def)
qed

lemma table_inv_pruned:
  assumes "table_inv L w" and "same_clients w w'" and "table_pruned w w'"
  shows "table_inv L w'"
proof -
  have hash: "client_hash g w' = client_hash g w" for g by (rule same_clients_hash [OF assms(2)])
  have mono: "cn_closed (lc_connection (lw_clients w g)) \<Longrightarrow> cn_closed (lc_connection (lw_clients w' g))" for g
    using assms(2) by (simp add: same_clients_def same_identity_def)
  show ?thesis
    unfolding table_inv_def hash
  proof (intro conjI allI impI)
    fix x h assume "map_of (lw_byAccount w') x = Some h"
    then have "map_of (lw_byAccount w) x = Some h" using assms(3) unfolding table_pruned_def by (metis option.distinct(1))
    then show "confirmed_in L h" "client_hash h w = x" using assms(1) unfolding table_inv_def by blast+
  next
    fix h assume "confirmed_in L h"
    then have "map_of (lw_byAccount w) (client_hash h w) = Some h \<or> cn_closed (lc_connection (lw_clients w h))"
      using assms(1) unfolding table_inv_def by blast
    then show "map_of (lw_byAccount w') (client_hash h w) = Some h \<or> cn_closed (lc_connection (lw_clients w' h))"
      using mono assms(3) unfolding table_pruned_def by (metis option.inject)
  qed
qed

lemma conn_inv_quiet:
  assumes "conn_inv L w" and "quiet w w'"
  shows "conn_inv L w'"
  using assms table_inv_pruned [of L w w'] table_pruned_same quiet_fields [OF assms(2)]
  by (simp add: conn_inv_def owners_inv_def)

lemma conn_inv_sessions: "conn_inv L (w\<lparr>lw_sessions := x\<rparr>) = conn_inv L w"
  "conn_inv L (w\<lparr>lw_accounts := a\<rparr>) = conn_inv L w"
  by (simp_all add: conn_inv_def table_inv_def owners_inv_def client_hash_def)

lemma conn_inv_served:
  assumes i: "conn_inv L w" and s: "L h = Some s" "lv_sessionConfirmed s" and v: "served (lv_connectionID s) w w'"
  shows "conn_inv L w'"
proof -
  have "same_clients w w'" "table_pruned w w'" using v by (simp_all add: served_def)
  then have t: "table_inv L w'"
    using table_inv_pruned i unfolding conn_inv_def by blast
  obtain ops where o: "owner_ops (lv_connectionID s) ops" "lw_matches w' = mms_run ops (lw_matches w)"
    using v unfolding served_def by blast
  have "owners_inv L w'"
    using counted_owner_ops [OF o(1), of "lw_matches w"] i s unfolding owners_inv_def conn_inv_def o(2) by metis
  with i t show ?thesis by (simp add: conn_inv_def)
qed

lemma conn_inv_login:
  assumes i: "conn_inv L w" and s: "L h = Some s" "\<not> lv_authenticated s" and l: "logs_in h session token cid w w'"
    and s': "lv_sessionConfirmed s' = lv_sessionConfirmed s" "lv_connectionID s' = cid"
  shows "conn_inv (L(h \<mapsto> s')) w'"
proof -
  have nc: "\<not> lv_sessionConfirmed s" using i s unfolding conn_inv_def locals_inv_def lsg_ok_def by blast
  have c: "confirmed_in (L(h \<mapsto> s')) g \<longleftrightarrow> confirmed_in L g" "confirmed_in L g \<Longrightarrow> g \<noteq> h" for g
    using s nc s' by (auto simp: confirmed_in_def)
  have w': "lw_matches w' = lw_matches w" "lw_byAccount w' = lw_byAccount w" "\<And>g. g \<noteq> h \<Longrightarrow> lw_clients w' g = lw_clients w g"
    "cid \<noteq> 0" using l by (simp_all add: logs_in_def others_def split: if_splits)
  have hash: "g \<noteq> h \<Longrightarrow> client_hash g w' = client_hash g w" for g using w'(3) by (simp add: client_hash_def)
  have "locals_inv (L(h \<mapsto> s'))"
    using i s'  nc w'(4) unfolding conn_inv_def locals_inv_def lsg_ok_def by (metis fun_upd_apply option.inject)
  moreover have "table_inv (L(h \<mapsto> s')) w'"
    using i c hash w'(2,3) unfolding conn_inv_def table_inv_def by metis
  moreover have "owners_inv (L(h \<mapsto> s')) w'"
    using i nc s(1) unfolding conn_inv_def owners_inv_def w'(1) by (metis fun_upd_apply option.inject)
  ultimately show ?thesis by (simp add: conn_inv_def)
qed

lemma conn_inv_activate:
  assumes i: "conn_inv L w" and s: "L h = Some s" "lv_authenticated s" "\<not> lv_sessionConfirmed s"
    and s': "lv_sessionConfirmed s'" "lv_authenticated s'" "lv_connectionID s' = lv_connectionID s"
  shows "conn_inv (L(h \<mapsto> s')) (activate h w)"
proof -
  let ?L = "L(h \<mapsto> s')" and ?w = "activate h w"
  note a = activate_result [OF refl, where h = h and w = w]
  have hash: "client_hash g ?w = client_hash g w" for g by (rule same_clients_hash [OF a(5)])
  have mono: "cn_closed (lc_connection (lw_clients w g)) \<Longrightarrow> cn_closed (lc_connection (lw_clients ?w g))" for g
    using a(5) by (simp add: same_clients_def same_identity_def)
  have c: "confirmed_in ?L g \<longleftrightarrow> g = h \<or> confirmed_in L g" "\<not> confirmed_in L h" for g
    using s s' by (auto simp: confirmed_in_def)
  have t: "table_inv L w" using i by (simp add: conn_inv_def)
  have "locals_inv ?L"
    using i s s' unfolding conn_inv_def locals_inv_def lsg_ok_def by (metis fun_upd_apply option.inject)
  moreover have "table_inv ?L ?w"
    unfolding table_inv_def hash a(6) c(1)
  proof (intro conjI allI impI)
    fix x g assume m: "((map_of (lw_byAccount w))(client_hash h w \<mapsto> h)) x = Some g"
    show "g = h \<or> confirmed_in L g" "client_hash g w = x"
      using m t unfolding table_inv_def by (auto split: if_splits)
  next
    fix g assume g: "g = h \<or> confirmed_in L g"
    show "((map_of (lw_byAccount w))(client_hash h w \<mapsto> h)) (client_hash g w) = Some g \<or>
        cn_closed (lc_connection (lw_clients ?w g))"
    proof (cases "g = h")
      case False
      with g t have "map_of (lw_byAccount w) (client_hash g w) = Some g \<or> cn_closed (lc_connection (lw_clients w g))"
        unfolding table_inv_def by blast
      with mono a(7) [OF False] show ?thesis by auto
    qed simp
  qed
  moreover have "owners_inv ?L ?w"
    using i s s' unfolding conn_inv_def owners_inv_def a(3) by (metis fun_upd_apply option.inject)
  ultimately show ?thesis by (simp add: conn_inv_def)
qed

lemma conn_inv_move:
  assumes i: "conn_inv L w" and s: "L h = Some s" and m: "lsg_move h body out (s, w) (s', w')"
  shows "conn_inv (L(h \<mapsto> s')) w'"
  using m
proof (cases rule: lsg_move_cases)
  case (idle n)
  show ?thesis by (rule conn_inv_local [OF conn_inv_quiet [OF i idle(2)] s]) (simp_all add: idle(1))
next
  case (gone e)
  then obtain x w1 where "quiet w w1" "w' = w1\<lparr>lw_sessions := x\<rparr>" by (auto simp: session_gone_def)
  then have "conn_inv L w'" using conn_inv_quiet [OF i] by (simp add: conn_inv_sessions)
  with gone(2) s show ?thesis by (simp add: fun_upd_idem)
next
  case (login session token cid t)
  show ?thesis by (rule conn_inv_login [OF i s login(2,3)]) (simp_all add: login(4))
next
  case (login_failed e session token cid)
  show ?thesis by (rule conn_inv_login [OF i s login_failed(2,3)]) (simp_all add: login_failed(4))
next
  case (serve request tx)
  show ?thesis by (rule conn_inv_local [OF conn_inv_served [OF i s serve(2,4)] s]) (simp_all add: serve(5))
next
  case (confirm request w1 now session sessions tx)
  let ?w2 = "w1\<lparr>lw_sessions := sessions\<rparr>"
  have "conn_inv L ?w2" using conn_inv_quiet [OF i confirm(4)] by (simp add: conn_inv_sessions)
  then have a: "conn_inv (L(h \<mapsto> s')) (activate h ?w2)"
    using conn_inv_activate [where L = L and h = h and s = s and s' = s' and w = ?w2] s confirm(1,2,8) by simp
  show ?thesis
    by (rule conn_inv_served [OF a, of h s']) (use confirm(7,8) in simp_all)
qed

lemma conn_inv_return:
  assumes i: "conn_inv L w" and s: "L h = Some s"
  shows "conn_inv (L(h := None)) (lsg_deferred h (s, w))"
proof -
  let ?L = "L(h := None)" and ?w = "lsg_deferred h (s, w)"
  have c: "confirmed_in ?L g \<longleftrightarrow> g \<noteq> h \<and> confirmed_in L g" for g by (auto simp: confirmed_in_def)
  have cl: "lw_clients ?w = lw_clients w" by (simp add: lsg_deferred_def deactivate_def Let_def)
  have hash: "client_hash g ?w = client_hash g w" for g by (simp add: client_hash_def cl)
  have tab: "map_of (lw_byAccount ?w) x = (if map_of (lw_byAccount w) (client_hash h w) = Some h \<and> x = client_hash h w
      then None else map_of (lw_byAccount w) x)" for x
    by (simp add: lsg_deferred_def deactivate_def Let_def)
  have t: "table_inv L w" using i by (simp add: conn_inv_def)
  have gone: "map_of (lw_byAccount ?w) x \<noteq> Some h" for x
    using t unfolding tab table_inv_def by (metis option.distinct(1))
  have "locals_inv ?L" using i unfolding conn_inv_def locals_inv_def by (metis fun_upd_apply option.distinct(1))
  moreover have "table_inv ?L ?w"
    unfolding table_inv_def hash c cl
  proof (intro conjI allI impI)
    fix x g assume m: "map_of (lw_byAccount ?w) x = Some g"
    then have "map_of (lw_byAccount w) x = Some g" unfolding tab by (simp split: if_splits)
    with m gone t show "g \<noteq> h" "confirmed_in L g" "client_hash g w = x" unfolding table_inv_def by blast+
  next
    fix g assume g: "g \<noteq> h \<and> confirmed_in L g"
    with t have "map_of (lw_byAccount w) (client_hash g w) = Some g \<or> cn_closed (lc_connection (lw_clients w g))"
      unfolding table_inv_def by blast
    with g show "map_of (lw_byAccount ?w) (client_hash g w) = Some g \<or> cn_closed (lc_connection (lw_clients w g))"
      unfolding tab by auto
  qed
  moreover have "owners_inv ?L ?w"
  proof -
    have o: "owners_inv L w" using i by (simp add: conn_inv_def)
    have m: "lw_matches ?w = (if lv_connectionID s \<noteq> 0 then mms_DeleteOwner (lv_connectionID s) (lw_matches w) else lw_matches w)"
      by (simp add: lsg_deferred_def deactivate_def Let_def)
    have k: "match_counts.counted (lw_matches w)" using o by (simp add: owners_inv_def)
    have "match_counts.counted (lw_matches ?w)"
      using k match_counts.counted_purge(1) [OF k] by (simp add: m mms_DeleteOwner_eq)
    moreover have "(sid, v) \<in> matches_of w \<and> sm_owner v \<noteq> lv_connectionID s" if "(sid, v) \<in> matches_of ?w" for sid v
      using that o match_counts.counted_purge(2) [OF k]
      by (auto simp: m mms_DeleteOwner_eq owners_inv_def split: if_splits)
    ultimately show ?thesis
      using o s unfolding owners_inv_def by (metis fun_upd_apply option.inject)
  qed
  ultimately show ?thesis by (simp add: conn_inv_def)
qed

lemma lsg_deferred_fields [simp]:
  "lw_sessions (lsg_deferred h (s, w)) = lw_sessions w" "lw_accounts (lsg_deferred h (s, w)) = lw_accounts w"
  "lw_nextID (lsg_deferred h (s, w)) = lw_nextID w" "lw_clients (lsg_deferred h (s, w)) = lw_clients w"
  by (simp_all add: lsg_deferred_def deactivate_def Let_def)

lemma conn_inv_connect:
  assumes i: "conn_inv L w" and h: "L h = None"
  shows "conn_inv (L(h \<mapsto> lsg_start)) (lw_set_client h client w)"
proof -
  have c: "confirmed_in (L(h \<mapsto> lsg_start)) g \<longleftrightarrow> confirmed_in L g" "confirmed_in L g \<Longrightarrow> g \<noteq> h" for g
    using h by (auto simp: confirmed_in_def lsg_start_def)
  have hash: "g \<noteq> h \<Longrightarrow> client_hash g (lw_set_client h client w) = client_hash g w" for g
    by (simp add: client_hash_def)
  have "locals_inv (L(h \<mapsto> lsg_start))"
    using i by (auto simp: conn_inv_def locals_inv_def lsg_ok_def lsg_start_def)
  moreover have "table_inv (L(h \<mapsto> lsg_start)) (lw_set_client h client w)"
    using i c hash unfolding conn_inv_def table_inv_def lw_set_client_fields by (metis fun_upd_other)
  moreover have "owners_inv (L(h \<mapsto> lsg_start)) (lw_set_client h client w)"
    using i h unfolding conn_inv_def owners_inv_def lw_set_client_fields by (metis fun_upd_other option.distinct(1))
  ultimately show ?thesis by (simp add: conn_inv_def)
qed

lemma conn_inv_iteration:
  assumes i: "conn_inv L w" and s: "L h = Some s" and it: "lsg_iteration config h (s, w) = (out, s', w')"
  shows "conn_inv (L(h \<mapsto> s')) w'"
proof -
  have "lsg_ok s" using i s by (simp add: conn_inv_def locals_inv_def)
  with it obtain body k w1 where m: "quiet w w1" "lsg_move h body out (s\<lparr>lv_recordIndex := k\<rparr>, w1) (s', w')"
    by (rule lsg_iteration_move)
  have "conn_inv (L(h \<mapsto> s\<lparr>lv_recordIndex := k\<rparr>)) w1"
    by (rule conn_inv_local [OF conn_inv_quiet [OF i m(1)] s]) simp_all
  from conn_inv_move [OF this _ m(2)] show ?thesis by simp
qed

lemma conn_inv_step:
  assumes "system_step a config y y'" and "conn_inv (sys_locals y) (sys_world y)"
  shows "conn_inv (sys_locals y') (sys_world y')"
  using assms
proof (cases rule: system_step.cases)
  case (step_connect h c)
  with conn_inv_connect assms(2) show ?thesis by simp
next
  case (step_record h s s' w')
  with conn_inv_iteration assms(2) show ?thesis by simp
next
  case (step_return h s r s' w')
  from conn_inv_iteration [OF assms(2) step_return(2,3)]
  have "conn_inv ((sys_locals y)(h \<mapsto> s')) w'" .
  from conn_inv_return [OF this, of h s'] step_return(1) show ?thesis by simp
next
  case (step_auth rec random c r v)
  with assms(2) show ?thesis by (simp add: conn_inv_sessions)
qed

lemma NewMatchmakingStore_empty: "NewMatchmakingStore n m = Inr s \<Longrightarrow> mms_byID s = []"
  by (auto simp: NewMatchmakingStore_def Let_def split: if_splits)

lemma conn_inv_start: "system_start y \<Longrightarrow> conn_inv (sys_locals y) (sys_world y)"
proof -
  assume y: "system_start y"
  then obtain n m where new: "NewMatchmakingStore n m = Inr (lw_matches (sys_world y))"
    unfolding system_start_def by blast
  have "match_counts.counted (lw_matches (sys_world y))"
    using mms_inv_New [OF new] by (simp add: mms_inv_def)
  moreover have "mms_byID (lw_matches (sys_world y)) = []"
    by (rule NewMatchmakingStore_empty [OF new])
  ultimately have "match_counts.counted (lw_matches (sys_world y)) \<and> mms_byID (lw_matches (sys_world y)) = []" by simp
  with y show ?thesis
    by (simp add: system_start_def conn_inv_def locals_inv_def table_inv_def owners_inv_def confirmed_in_def)
qed

lemma conn_inv_reach: "system_reaches a config y0 n y \<Longrightarrow> conn_inv (sys_locals y) (sys_world y)"
  by (induction rule: system_reaches.induct) (auto intro: conn_inv_start conn_inv_step)

end
