(* ===== verification/Lobby_Identity.thy ===== *)
theory Lobby_Identity
  imports Lobby_System
begin

text \<open>
  Who the connections of the lobby server stand for. The tokens of the pending sessions are distinct,
  a connection that has logged in stands for the account of its session, no two connections have
  confirmed the same session, and the connection identifiers are distinct, as long as the counters of
  the program have not wrapped around.
\<close>

section \<open>What an authentication record does to the shared stores\<close>

lemma lss_run_Nil [simp]: "lss_run [] s = s"
  by (simp add: lss_run_def)

lemma lss_run_Cons [simp]: "lss_run (op # ops) s = lss_run ops (lss_step op s)"
  by (simp add: lss_run_def)

lemma lss_run_append: "lss_run (xs @ ys) s = lss_run ys (lss_run xs s)"
  by (simp add: lss_run_def)

lemma reserve_attempts_run:
  assumes "reserve_attempts n account key issued expires w = (r, w')"
  shows "\<exists>ops. length ops \<le> n \<and> aw_sessions w' = lss_run ops (aw_sessions w)"
  using assms
proof (induction n arbitrary: w)
  case 0
  then show ?case by (auto intro: exI [of _ "[]"])
next
  case (Suc n)
  obtain x w1 where rd: "read_random 4 w = (x, w1)" by (metis surj_pair)
  have w1: "aw_sessions w1 = aw_sessions w" by (rule read_random_result(3) [OF rd])
  show ?case
  proof (cases x)
    case (Inl e)
    with Suc.prems rd w1 show ?thesis by (auto intro: exI [of _ "[]"])
  next
    case (Inr bs)
    let ?op = "OpReserve (ticket_session account key expires (LE_Uint32 bs)) (cn_peer (aw_conn w1)) issued"
    obtain y s2 where rv: "lss_Reserve (ticket_session account key expires (LE_Uint32 bs)) (cn_peer (aw_conn w1)) issued
        (aw_sessions w1) = (y, s2)" by (metis surj_pair)
    let ?w2 = "w1\<lparr>aw_sessions := s2\<rparr>"
    have s2: "s2 = lss_step ?op (aw_sessions w)" using rv w1 by simp
    have "w' = ?w2 \<or> reserve_attempts n account key issued expires ?w2 = (r, w')"
      using Suc.prems rd Inr rv by (auto simp: Let_def split: sum.splits if_splits)
    then show ?thesis
    proof
      assume "w' = ?w2"
      with s2 show ?thesis by (intro exI [of _ "[?op]"]) simp
    next
      assume "reserve_attempts n account key issued expires ?w2 = (r, w')"
      from Suc.IH [OF this] obtain ops where "length ops \<le> n" "aw_sessions w' = lss_run ops s2" by auto
      with s2 show ?thesis by (intro exI [of _ "?op # ops"]) simp
    qed
  qed
qed

lemma handleAccountForMMP_run:
  assumes "handleAccountForMMP config body w = (r, w')"
  shows "\<exists>ops. length ops \<le> maxSeedAttempts + 1 \<and> aw_sessions w' = lss_run ops (aw_sessions w)"
proof -
  have same: ?thesis if "aw_sessions w' = aw_sessions w" using that by (intro exI [of _ "[]"]) simp
  show ?thesis
  proof (cases "\<exists>request account. ParseAccountForMMPBody body = Inr request \<and>
      LookupHash (amr_AccountHash request) (aw_accounts w) = Some account")
    case False
    with assms have "w' = w \<or> auth_writeFrame (marshalAccountForMMPErrorBody StatusBadAccount) w = (r, w')"
      by (auto simp: handleAccountForMMP_def split: sum.splits option.splits)
    then have "aw_sessions w' = aw_sessions w"
      using auth_writeFrame_result(1-3) [of _ w r w', OF _ auth_reply_status] by (auto simp: marshalAccountForMMPErrorBody_def)
    with same show ?thesis .
  next
    case True
    then obtain request account where req: "ParseAccountForMMPBody body = Inr request"
      "LookupHash (amr_AccountHash request) (aw_accounts w) = Some account" by blast
    obtain x w1 where rd: "read_random SessionKeySize w = (x, w1)" by (metis surj_pair)
    note w1 = read_random_result [OF rd]
    show ?thesis
    proof (cases x)
      case (Inl e)
      with assms req rd w1 same show ?thesis by (auto simp: handleAccountForMMP_def)
    next
      case x: (Inr key)
      obtain issued w2 where nw: "on_conn config_Now w1 = (issued, w2)" by (metis surj_pair)
      let ?exp = "issued + ahc_SessionLife config"
      obtain y w3 where ra: "reserve_attempts maxSeedAttempts account key issued ?exp w2 = (y, w3)" by (metis surj_pair)
      from reserve_attempts_run [OF ra] obtain ops where ops: "length ops \<le> maxSeedAttempts"
        "aw_sessions w3 = lss_run ops (aw_sessions w)"
        using on_conn_Now [OF nw] w1 by auto
      have "aw_sessions w' = aw_sessions w3 \<or> (\<exists>seed token. aw_sessions w' = lss_Revoke seed token (aw_sessions w3))"
      proof (cases y)
        case (Inl e)
        with assms req rd x nw ra show ?thesis by (auto simp: handleAccountForMMP_def Let_def)
      next
        case y: (Inr st)
        obtain seed token where st: "st = (seed, token)" by (metis surj_pair)
        show ?thesis
        proof (cases "marshalAccountForMMPSuccessBody account seed key issued ?exp")
          case (Inl e)
          with assms req rd x nw ra y st have "w' = revoke_session seed token w3"
            by (auto simp: handleAccountForMMP_def Let_def)
          then have "aw_sessions w' = lss_Revoke seed token (aw_sessions w3)" by (simp add: revoke_session_def)
          then show ?thesis by blast
        next
          case reply: (Inr reply)
          obtain z w4 where wr: "auth_writeFrame reply w3 = (z, w4)" by (metis surj_pair)
          have "length key = SessionKeySize" using w1(5) x by simp
          note sent = auth_writeFrame_result [OF wr auth_reply_success [OF this reply]]
          have "w' = w4 \<or> w' = revoke_session seed token w4"
            using assms req rd x nw ra y st reply wr by (auto simp: handleAccountForMMP_def Let_def split: sum.splits)
          then have "aw_sessions w' = aw_sessions w3 \<or> aw_sessions w' = lss_Revoke seed token (aw_sessions w3)"
            using sent(3) by (auto simp: revoke_session_def)
          then show ?thesis by blast
        qed
      qed
      then show ?thesis
      proof (elim disjE exE)
        assume "aw_sessions w' = aw_sessions w3"
        with ops show ?thesis by (intro exI [of _ ops]) simp
      next
        fix seed token assume "aw_sessions w' = lss_Revoke seed token (aw_sessions w3)"
        with ops show ?thesis by (intro exI [of _ "ops @ [OpRevoke seed token]"]) (simp add: lss_run_append)
      qed
    qed
  qed
qed

text \<open>A record of an authentication connection is at most one registration and a few operations on the
  pending sessions.\<close>

lemma auth_record_runs:
  assumes i: "lss_inv (aw_sessions w)" and h: "auth_record config rec w = (r, w')"
  shows "(\<exists>ops. length ops \<le> maxSeedAttempts + 1 \<and> aw_sessions w' = lss_run ops (aw_sessions w)) \<and>
    (\<exists>ops. length ops \<le> 1 \<and> list_all acs_op_ok ops \<and>
       (aw_accounts w', aw_disk w') = acs_run ops (aw_accounts w, aw_disk w))"
proof -
  have id: "\<exists>ops. length ops \<le> 1 \<and> list_all acs_op_ok ops \<and> (a, d) = acs_run ops (a, d)" for a d
    by (intro exI [of _ "[]"]) (simp add: acs_run_def)
  have id': "\<exists>ops. length ops \<le> maxSeedAttempts + 1 \<and> s = lss_run ops s" for s
    by (intro exI [of _ "[]"]) simp
  consider (wr) "auth_writeFrame [] w = (r, w')" | (create) "handleCreateAccount (Body rec) w = (r, w')"
    | (mmp) "handleAccountForMMP config (Body rec) w = (r, w')" | (stay) "w' = w"
    using h by (auto simp: auth_record_def Let_def split: TransportRecordKind.splits if_splits)
  then show ?thesis
  proof cases
    case wr
    from auth_writeFrame_result [OF wr auth_reply_empty] id id' show ?thesis by simp
  next
    case create
    from handleCreateAccount_result [OF create] id' show ?thesis by simp
  next
    case mmp
    have "aw_accounts w' = aw_accounts w \<and> aw_disk w' = aw_disk w"
      using handleAccountForMMP_result [OF i mmp] by simp
    with handleAccountForMMP_run [OF mmp] id show ?thesis by simp
  next
    case stay
    with id id' show ?thesis by simp
  qed
qed

section \<open>Tokens\<close>

text \<open>The tokens of the pending sessions are distinct and none is greater than the last one given out.\<close>

definition tokens_inv :: "LobbySessionStore \<Rightarrow> bool" where
  "tokens_inv s \<longleftrightarrow> lss_inv s \<and>
     (\<forall>k p. (k, p) \<in> set (lss_bySeed s) \<longrightarrow> unat (pend_token p) \<le> unat (lss_nextToken s)) \<and>
     (\<forall>k p k' p'. (k, p) \<in> set (lss_bySeed s) \<longrightarrow> (k', p') \<in> set (lss_bySeed s) \<longrightarrow>
        pend_token p = pend_token p' \<longrightarrow> k = k' \<and> p = p')"

text \<open>What \<open>n\<close> operations do to them: a session that was not pending has a token that was not given out.\<close>

definition session_growth :: "nat \<Rightarrow> LobbySessionStore \<Rightarrow> LobbySessionStore \<Rightarrow> bool" where
  "session_growth n s s' \<longleftrightarrow> tokens_inv s' \<and> unat (lss_nextToken s) \<le> unat (lss_nextToken s') \<and>
     unat (lss_nextToken s') \<le> unat (lss_nextToken s) + n \<and>
     (\<forall>k p. (k, p) \<in> set (lss_bySeed s') \<longrightarrow> (k, p) \<in> set (lss_bySeed s) \<or>
        unat (lss_nextToken s) < unat (pend_token p))"

lemma tokens_inv_New: "NewLobbySessionStore n m = Inr s \<Longrightarrow> tokens_inv s \<and> lss_nextToken s = 0"
  using lss_inv_New [of n m s] by (auto simp: NewLobbySessionStore_def Let_def tokens_inv_def split: if_splits)

lemma NewLobbySessionStore_empty: "NewLobbySessionStore n m = Inr s \<Longrightarrow> lss_bySeed s = []"
  by (auto simp: NewLobbySessionStore_def Let_def split: if_splits)

lemma session_growth_step:
  assumes i: "tokens_inv s" and n: "unat (lss_nextToken s) + 1 < 2 ^ 64"
  shows "session_growth 1 s (lss_step op s)"
proof -
  let ?s = "lss_step op s"
  have l: "lss_inv s" using i by (simp add: tokens_inv_def)
  have t: "unat (next_token (lss_nextToken s)) = unat (lss_nextToken s) + 1" by (rule unat_next_token [OF n])
  have mono: "unat (lss_nextToken s) \<le> unat (lss_nextToken ?s)" "unat (lss_nextToken ?s) \<le> unat (lss_nextToken s) + 1"
    using lss_step_token [of op s] t by auto
  have new: "unat (pend_token p) = unat (lss_nextToken s) + 1 \<and> unat (lss_nextToken ?s) = unat (lss_nextToken s) + 1"
    if "(k, p) \<in> set (lss_bySeed ?s)" "(k, p) \<notin> set (lss_bySeed s)" for k p
    using lss_step_fresh_token [OF that l] t by simp
  have l': "lss_inv ?s" by (rule lss_inv_step [OF l])
  then have "distinct (map fst (lss_bySeed ?s))" by (simp add: lss_inv_def lobby_counts.counted_def)
  then have unique: "(k, p) \<in> set (lss_bySeed ?s) \<Longrightarrow> (k, p') \<in> set (lss_bySeed ?s) \<Longrightarrow> p = p'" for k p p'
    by (rule eq_key_imp_eq_value)
  have seed: "k = k'" if "(k, p) \<in> set (lss_bySeed ?s)" "(k, p) \<notin> set (lss_bySeed s)"
    "(k', p') \<in> set (lss_bySeed ?s)" "(k', p') \<notin> set (lss_bySeed s)" for k p k' p'
    using lss_step_entry [OF l that(1)] lss_step_entry [OF l that(3)] that(2,4)
    by (metis lobby_op.inject(1))
  have old: "unat (pend_token p) \<le> unat (lss_nextToken s)" if "(k, p) \<in> set (lss_bySeed s)" for k p
    using i that unfolding tokens_inv_def by blast
  have "k = k' \<and> p = p'" if "(k, p) \<in> set (lss_bySeed ?s)" "(k', p') \<in> set (lss_bySeed ?s)" "pend_token p = pend_token p'" for k p k' p'
  proof (cases "(k, p) \<in> set (lss_bySeed s)")
    case True
    show ?thesis
    proof (cases "(k', p') \<in> set (lss_bySeed s)")
      case True
      with \<open>(k, p) \<in> set (lss_bySeed s)\<close> i that(3) show ?thesis unfolding tokens_inv_def by blast
    next
      case False
      with new [OF that(2)] old [OF True] that(3) show ?thesis by simp
    qed
  next
    case False
    show ?thesis
    proof (cases "(k', p') \<in> set (lss_bySeed s)")
      case True
      with new [OF that(1) False] old [OF True] that(3) show ?thesis by simp
    next
      case f: False
      with seed [OF that(1) False that(2) f] unique that(1,2) show ?thesis by blast
    qed
  qed
  moreover have "unat (pend_token p) \<le> unat (lss_nextToken ?s)" if "(k, p) \<in> set (lss_bySeed ?s)" for k p
    using new [OF that] old mono(1) by (metis le_trans le_refl)
  ultimately have "tokens_inv ?s" using l' unfolding tokens_inv_def by blast
  with mono new show ?thesis unfolding session_growth_def by (metis less_add_one)
qed

lemma session_growth_run:
  "tokens_inv s \<Longrightarrow> unat (lss_nextToken s) + length ops < 2 ^ 64 \<Longrightarrow> session_growth (length ops) s (lss_run ops s)"
proof (induction ops arbitrary: s)
  case Nil
  then show ?case by (simp add: session_growth_def)
next
  case (Cons op ops)
  let ?s = "lss_step op s"
  have one: "session_growth 1 s ?s" by (rule session_growth_step) (use Cons.prems in simp_all)
  have two: "session_growth (length ops) ?s (lss_run ops ?s)"
    by (rule Cons.IH) (use one Cons.prems in \<open>simp_all add: session_growth_def\<close>)
  show ?case
    using one two unfolding session_growth_def lss_run_Cons by (fastforce intro: le_less_trans)
qed

lemma session_growth_mono: "session_growth n s t \<Longrightarrow> n \<le> m \<Longrightarrow> session_growth m s t"
  by (auto simp: session_growth_def)

section \<open>Identities\<close>

text \<open>A connection that has logged in stands for the account of its session, and the session can only
  be pending while the connection has not confirmed it.\<close>

definition ident_ok :: "lsg_state \<Rightarrow> lobbyClient \<Rightarrow> AccountStore \<Rightarrow> LobbySessionStore \<Rightarrow> bool" where
  "ident_ok s c accounts sessions \<longleftrightarrow>
     LookupUserID (ls_UserID (lv_lobbySession s)) accounts = Some (lc_account c) \<and>
     acc_AccountHash (lc_account c) = ls_AccountHash (lv_lobbySession s) \<and>
     lc_sessionKey c = ls_SessionKey (lv_lobbySession s) \<and> length (lc_sessionKey c) = SessionKeySize \<and>
     unat (lv_sessionToken s) \<le> unat (lss_nextToken sessions) \<and>
     (\<forall>k p. (k, p) \<in> set (lss_bySeed sessions) \<longrightarrow> pend_token p = lv_sessionToken s \<longrightarrow>
        pend_session p = lv_lobbySession s \<and> \<not> lv_sessionConfirmed s)"

definition stores_inv :: "lobby_world \<Rightarrow> bool" where
  "stores_inv w \<longleftrightarrow> acs_inv (lw_accounts w) \<and> tokens_inv (lw_sessions w) \<and>
     sessions_ok (lw_accounts w) (lw_sessions w)"

definition proof_inv :: "(nat \<Rightarrow> lsg_state option) \<Rightarrow> lobby_world \<Rightarrow> bool" where
  "proof_inv L w \<longleftrightarrow> stores_inv w \<and>
     (\<forall>h s. L h = Some s \<longrightarrow> (lv_sessionConfirmed s \<longrightarrow> lv_authenticated s) \<and>
        (lv_authenticated s \<longrightarrow> ident_ok s (lw_clients w h) (lw_accounts w) (lw_sessions w))) \<and>
     (\<forall>g h s t. L g = Some s \<longrightarrow> L h = Some t \<longrightarrow> lv_sessionConfirmed s \<longrightarrow> lv_sessionConfirmed t \<longrightarrow>
        lv_sessionToken s = lv_sessionToken t \<longrightarrow> g = h)"

lemma ident_ok_later:
  assumes "ident_ok s c accounts sessions" and "same_identity c c'"
    and "acs_extends accounts accounts'" "acs_inv accounts" "acs_inv accounts'" "session_growth n sessions sessions'"
  shows "ident_ok s c' accounts' sessions'"
proof -
  have "pend_session p = lv_lobbySession s \<and> \<not> lv_sessionConfirmed s"
    if "(k, p) \<in> set (lss_bySeed sessions')" "pend_token p = lv_sessionToken s" for k p
    using assms(1,6) that unfolding ident_ok_def session_growth_def by (metis linorder_not_le)
  with assms(1,2,6) acs_extends_lookup(3) [OF assms(3-5)] show ?thesis
    by (auto simp: ident_ok_def session_growth_def same_identity_def)
qed

lemma session_growth_refl: "tokens_inv s \<Longrightarrow> session_growth n s s"
  by (simp add: session_growth_def)

text \<open>Changes of the shared state that keep the identities.\<close>

lemma proof_inv_world:
  assumes i: "proof_inv L w" and st: "stores_inv w'" and a: "acs_extends (lw_accounts w) (lw_accounts w')"
    and g: "session_growth n (lw_sessions w) (lw_sessions w')"
    and c: "\<And>h s. L h = Some s \<Longrightarrow> same_identity (lw_clients w h) (lw_clients w' h)"
  shows "proof_inv L w'"
proof -
  have "acs_inv (lw_accounts w)" "acs_inv (lw_accounts w')" using i st by (simp_all add: proof_inv_def stores_inv_def)
  then have "ident_ok s (lw_clients w' h) (lw_accounts w') (lw_sessions w')"
    if "L h = Some s" "lv_authenticated s" for h s
    using ident_ok_later [OF _ c [OF that(1)] a _ _ g] i that unfolding proof_inv_def by blast
  with i st show ?thesis unfolding proof_inv_def by blast
qed

lemma proof_inv_same:
  assumes "proof_inv L w" and "lw_accounts w' = lw_accounts w" "lw_sessions w' = lw_sessions w" "same_clients w w'"
  shows "proof_inv L w'"
  using assms(1)
proof (rule proof_inv_world)
  show "stores_inv w'" using assms by (simp add: proof_inv_def stores_inv_def)
  show "acs_extends (lw_accounts w) (lw_accounts w')" using assms(2) by simp
  show "session_growth 0 (lw_sessions w) (lw_sessions w')"
    using assms(1,3) by (auto simp: proof_inv_def stores_inv_def intro: session_growth_refl)
  show "same_identity (lw_clients w h) (lw_clients w' h)" for h using assms(4) by (simp add: same_clients_def)
qed

lemma proof_inv_upd:
  assumes i: "proof_inv L w"
    and a: "lv_authenticated s' \<Longrightarrow> ident_ok s' (lw_clients w h) (lw_accounts w) (lw_sessions w)"
    and c: "lv_sessionConfirmed s' \<Longrightarrow> lv_authenticated s'"
    and u: "\<And>g t. lv_sessionConfirmed s' \<Longrightarrow> g \<noteq> h \<Longrightarrow> L g = Some t \<Longrightarrow> lv_sessionConfirmed t \<Longrightarrow>
      lv_sessionToken t \<noteq> lv_sessionToken s'"
  shows "proof_inv (L(h \<mapsto> s')) w"
  unfolding proof_inv_def
proof (intro conjI allI impI)
  show "stores_inv w" using i by (simp add: proof_inv_def)
next
  fix k t assume k: "(L(h \<mapsto> s')) k = Some t"
  show "lv_authenticated t" if "lv_sessionConfirmed t"
    using i c k that unfolding proof_inv_def by (cases "k = h") auto
  show "ident_ok t (lw_clients w k) (lw_accounts w) (lw_sessions w)" if "lv_authenticated t"
    using i a k that unfolding proof_inv_def by (cases "k = h") auto
next
  fix g k t v
  assume "(L(h \<mapsto> s')) g = Some t" "(L(h \<mapsto> s')) k = Some v" "lv_sessionConfirmed t" "lv_sessionConfirmed v"
    "lv_sessionToken t = lv_sessionToken v"
  then show "g = k"
    using i u [of g t] u [of k v] unfolding proof_inv_def by (cases "g = h"; cases "k = h") auto
qed

lemma proof_inv_local:
  assumes "proof_inv L w" and "L h = Some s"
    and "lv_sessionConfirmed s' = lv_sessionConfirmed s" "lv_authenticated s' = lv_authenticated s"
    "lv_lobbySession s' = lv_lobbySession s" "lv_sessionToken s' = lv_sessionToken s"
  shows "proof_inv (L(h \<mapsto> s')) w"
proof (rule proof_inv_upd [OF assms(1)])
  have "ident_ok s' c a x = ident_ok s c a x" for c a x using assms(3-6) by (simp add: ident_ok_def)
  then show "lv_authenticated s' \<Longrightarrow> ident_ok s' (lw_clients w h) (lw_accounts w) (lw_sessions w)"
    "lv_sessionConfirmed s' \<Longrightarrow> lv_authenticated s'"
    using assms unfolding proof_inv_def by simp_all
  show "lv_sessionToken t \<noteq> lv_sessionToken s'"
    if "lv_sessionConfirmed s'" "g \<noteq> h" "L g = Some t" "lv_sessionConfirmed t" for g t
    using that assms unfolding proof_inv_def by metis
qed

lemma session_op_growth:
  assumes "stores_inv w" and "unat (lss_nextToken (lw_sessions w)) + 1 < 2 ^ 64" and "\<forall>x y z. op \<noteq> OpReserve x y z"
    and "lw_accounts w' = lw_accounts w" "lw_sessions w' = lss_step op (lw_sessions w)"
  shows "session_growth 1 (lw_sessions w) (lw_sessions w')" and "stores_inv w'"
proof -
  have t: "tokens_inv (lw_sessions w)" using assms(1) by (simp add: stores_inv_def)
  show g: "session_growth 1 (lw_sessions w) (lw_sessions w')"
    unfolding assms(5) by (rule session_growth_step [OF t assms(2)])
  have "set (lss_bySeed (lw_sessions w')) \<subseteq> set (lss_bySeed (lw_sessions w))"
    using lss_deleting_steps [of op "lw_sessions w"] assms(3,5) by (auto simp: delete_filter)
  then have "sessions_ok (lw_accounts w) (lw_sessions w')" using assms(1) sessions_ok_less by (auto simp: stores_inv_def)
  with g assms(1,4) show "stores_inv w'" by (simp add: stores_inv_def session_growth_def)
qed

lemma sessions_ok_entry:
  assumes "sessions_ok a s" and "(k, p) \<in> set (lss_bySeed s)"
  shows "ls_TicketSeed (pend_session p) = k" "length (ls_SessionKey (pend_session p)) = SessionKeySize"
    "ls_TitleID (pend_session p) = BOZTitleID"
  using assms unfolding sessions_ok_def by auto

lemma proof_inv_served:
  assumes "proof_inv L w" and "served cid w w'"
  shows "proof_inv L w'"
  using proof_inv_same [OF assms(1)] assms(2) by (simp add: served_def)

text \<open>A login, which may not have been answered.\<close>

lemma logs_in_ident:
  assumes i: "proof_inv L w" and l: "logs_in h session token cid w w'" and s: "\<not> lv_sessionConfirmed s"
    "lv_lobbySession s = session" "lv_sessionToken s = token"
  shows "ident_ok s (lw_clients w' h) (lw_accounts w') (lw_sessions w')"
proof -
  have st: "stores_inv w" using i by (simp add: proof_inv_def)
  from l obtain seed p where "map_of (lss_bySeed (lw_sessions w)) seed = Some p" "session = pend_session p"
    "token = pend_token p" unfolding logs_in_def by blast
  then have p: "(seed, p) \<in> set (lss_bySeed (lw_sessions w))" "session = pend_session p" "token = pend_token p"
    by (auto dest: map_of_SomeD)
  have w': "lw_accounts w' = lw_accounts w" "lw_sessions w' = lw_sessions w" using l by (simp_all add: logs_in_def)
  have "\<forall>k q. (k, q) \<in> set (lss_bySeed (lw_sessions w)) \<longrightarrow> pend_token q = token \<longrightarrow> pend_session q = session"
    using st p unfolding stores_inv_def tokens_inv_def by metis
  moreover have "unat token \<le> unat (lss_nextToken (lw_sessions w))"
    using st p unfolding stores_inv_def tokens_inv_def by blast
  moreover have "length (ls_SessionKey session) = SessionKeySize"
    using st p sessions_ok_entry(2) by (auto simp: stores_inv_def)
  ultimately show ?thesis
    using l s w' by (simp add: ident_ok_def logs_in_def)
qed

lemma proof_inv_connect:
  assumes "proof_inv L w" and "L h = None"
  shows "proof_inv L (lw_set_client h client w)"
proof -
  have "lw_clients (lw_set_client h client w) g = lw_clients w g" if "L g = Some s" for g s
    using that assms(2) by auto
  with assms(1) show ?thesis unfolding proof_inv_def stores_inv_def lw_set_client_fields by metis
qed

lemma logs_in_world:
  assumes i: "proof_inv L w" and l: "logs_in h session token cid w w'" and s: "L h = Some s" "\<not> lv_authenticated s"
  shows "proof_inv L w'"
proof -
  have w': "lw_accounts w' = lw_accounts w" "lw_sessions w' = lw_sessions w" "\<And>g. g \<noteq> h \<Longrightarrow> lw_clients w' g = lw_clients w g"
    using l by (simp_all add: logs_in_def others_def)
  have "ident_ok t (lw_clients w' g) (lw_accounts w') (lw_sessions w')" if "L g = Some t" "lv_authenticated t" for g t
  proof -
    have "g \<noteq> h" using that s by auto
    with i that w' show ?thesis unfolding proof_inv_def by metis
  qed
  with i w'(1,2) show ?thesis unfolding proof_inv_def stores_inv_def by simp
qed

text \<open>The confirmation of a session.\<close>

lemma proof_inv_consumed:
  assumes i: "proof_inv L w" and n: "unat (lss_nextToken (lw_sessions w)) + 1 < 2 ^ 64"
    and s: "L h = Some s" "lv_authenticated s"
    and c: "lss_Consume (ls_TicketSeed (lv_lobbySession s)) (lv_sessionToken s) peer now (lw_sessions w) = (Some session, sessions)"
  shows "session = lv_lobbySession s"
    and "proof_inv (L(h \<mapsto> s\<lparr>lv_sessionConfirmed := True\<rparr>)) (w\<lparr>lw_sessions := sessions\<rparr>)"
proof -
  let ?w = "w\<lparr>lw_sessions := sessions\<rparr>" and ?s = "s\<lparr>lv_sessionConfirmed := True\<rparr>"
  let ?op = "OpConsume (ls_TicketSeed (lv_lobbySession s)) (lv_sessionToken s) peer now"
  have st: "stores_inv w" using i by (simp add: proof_inv_def)
  have id: "ident_ok s (lw_clients w h) (lw_accounts w) (lw_sessions w)" using i s by (simp add: proof_inv_def)
  obtain p where p: "map_of (lss_bySeed (lw_sessions w)) (ls_TicketSeed (lv_lobbySession s)) = Some p"
    "pend_session p = session" "pend_token p = lv_sessionToken s"
    "sessions = lss_deleteLocked (ls_TicketSeed (lv_lobbySession s)) p (lw_sessions w)"
    by (rule lss_Consume_Some [OF c])
  have mem: "(ls_TicketSeed (lv_lobbySession s), p) \<in> set (lss_bySeed (lw_sessions w))" by (rule map_of_SomeD [OF p(1)])
  show session: "session = lv_lobbySession s" using id mem p unfolding ident_ok_def by blast
  have step: "lw_sessions ?w = lss_step ?op (lw_sessions w)" using c by simp
  have new: "session_growth 1 (lw_sessions w) (lw_sessions ?w)" "stores_inv ?w"
    using session_op_growth [OF st n _ _ step] by simp_all
  have w: "proof_inv L ?w"
    by (rule proof_inv_world [OF i new(2) _ new(1)]) simp_all
  then have id': "ident_ok s (lw_clients ?w h) (lw_accounts ?w) (lw_sessions ?w)" using s by (simp add: proof_inv_def)
  have gone: "pend_token q \<noteq> lv_sessionToken s" if "(k, q) \<in> set (lss_bySeed (lw_sessions ?w))" for k q
  proof
    assume "pend_token q = lv_sessionToken s"
    moreover have "(k, q) \<in> set (lss_bySeed (lw_sessions w))" "k \<noteq> ls_TicketSeed (lv_lobbySession s)"
      using that p(4) by (auto simp: delete_filter)
    ultimately show False using st mem p(3) unfolding stores_inv_def tokens_inv_def by metis
  qed
  show "proof_inv (L(h \<mapsto> ?s)) ?w"
  proof (rule proof_inv_upd [OF w])
    show "ident_ok ?s (lw_clients ?w h) (lw_accounts ?w) (lw_sessions ?w)"
      using id' gone by (auto simp: ident_ok_def)
    show "lv_authenticated ?s" using s by simp
    fix g t assume g: "g \<noteq> h" "L g = Some t" "lv_sessionConfirmed t"
    then have "ident_ok t (lw_clients w g) (lw_accounts w) (lw_sessions w)" using i unfolding proof_inv_def by blast
    with mem p(3) g(3) show "lv_sessionToken t \<noteq> lv_sessionToken ?s" unfolding ident_ok_def by auto
  qed
qed

lemma proof_inv_move:
  assumes i: "proof_inv L w" and n: "unat (lss_nextToken (lw_sessions w)) + 1 < 2 ^ 64"
    and s: "L h = Some s" and m: "lsg_move h body out (s, w) (s', w')"
  shows "proof_inv (L(h \<mapsto> s')) w'"
  using m
proof (cases rule: lsg_move_cases)
  case (idle k)
  have "proof_inv L w'" by (rule proof_inv_same [OF i]) (use quiet_fields [OF idle(2)] in simp_all)
  from proof_inv_local [OF this s] idle(1) show ?thesis by simp
next
  case (gone e)
  then obtain op w1 where op: "quiet w w1" "\<forall>x y z. op \<noteq> OpReserve x y z" "w' = w1\<lparr>lw_sessions := lss_step op (lw_sessions w)\<rparr>"
    unfolding session_gone_def by blast
  note q = quiet_fields [OF op(1)]
  have new: "session_growth 1 (lw_sessions w) (lw_sessions w')" "stores_inv w'"
    using session_op_growth [OF _ n op(2), of w'] i op(3) q by (simp_all add: proof_inv_def)
  have "proof_inv L w'"
    by (rule proof_inv_world [OF i new(2) _ new(1)]) (use op(3) q in \<open>simp_all add: same_clients_def\<close>)
  with gone(2) s show ?thesis by (simp add: fun_upd_idem)
next
  case (login session token cid t)
  have ns: "\<not> lv_sessionConfirmed s" using i s login(2) unfolding proof_inv_def by blast
  have id: "ident_ok s' (lw_clients w' h) (lw_accounts w') (lw_sessions w')"
    by (rule logs_in_ident [OF i login(3)]) (use ns login(4) in simp_all)
  show ?thesis
    by (rule proof_inv_upd [OF logs_in_world [OF i login(3) s login(2)]]) (use ns login(4) id in simp_all)
next
  case (login_failed e session token cid)
  show ?thesis
    by (rule proof_inv_local [OF logs_in_world [OF i login_failed(3) s login_failed(2)] s]) (simp_all add: login_failed(4))
next
  case (serve request tx)
  show ?thesis by (rule proof_inv_local [OF proof_inv_served [OF i serve(4)] s]) (simp_all add: serve(5))
next
  case (confirm request w1 now session sessions tx)
  note q = quiet_fields [OF confirm(4)]
  let ?L = "L(h \<mapsto> s\<lparr>lv_sessionConfirmed := True\<rparr>)" and ?w2 = "w1\<lparr>lw_sessions := sessions\<rparr>"
  have i1: "proof_inv L w1" by (rule proof_inv_same [OF i]) (use q in simp_all)
  have "lss_Consume (ls_TicketSeed (lv_lobbySession s)) (lv_sessionToken s) (cn_peer (lc_connection (lw_clients w h)))
       now (lw_sessions w1) = (Some session, sessions)" "unat (lss_nextToken (lw_sessions w1)) + 1 < 2 ^ 64"
    using confirm(6) n q by simp_all
  note c = proof_inv_consumed [OF i1 this(2) s confirm(1) this(1)]
  have "proof_inv ?L (activate h ?w2)"
    by (rule proof_inv_same [OF c(2)]) (use activate_result [OF refl, where h = h and w = ?w2] in simp_all)
  then have "proof_inv ?L w'" by (rule proof_inv_served [OF _ confirm(7)])
  from proof_inv_local [OF this, of h "s\<lparr>lv_sessionConfirmed := True\<rparr>" s'] confirm(8) c(1) show ?thesis by simp
qed

section \<open>Connection identifiers\<close>

definition ids_inv :: "(nat \<Rightarrow> lsg_state option) \<Rightarrow> lobby_world \<Rightarrow> bool" where
  "ids_inv L w \<longleftrightarrow>
     (\<forall>h s. L h = Some s \<longrightarrow> unat (lv_connectionID s) \<le> unat (lw_nextID w)) \<and>
     (\<forall>g h s t. L g = Some s \<longrightarrow> L h = Some t \<longrightarrow> lv_connectionID s = lv_connectionID t \<longrightarrow>
        lv_connectionID s \<noteq> 0 \<longrightarrow> g = h)"

lemma ids_inv_cong: "lw_nextID w' = lw_nextID w \<Longrightarrow> ids_inv L w' = ids_inv L w"
  by (simp add: ids_inv_def)

lemma ids_inv_keep:
  assumes "ids_inv L w" and "lw_nextID w' = lw_nextID w" and "L h = Some s" "lv_connectionID s' = lv_connectionID s"
  shows "ids_inv (L(h \<mapsto> s')) w'"
  using assms unfolding ids_inv_def by (simp split: if_splits) metis

lemma ids_inv_fresh:
  assumes i: "ids_inv L w" and n: "unat (lw_nextID w) + 1 < 2 ^ 64"
    and w': "lw_nextID w' = lw_nextID w + 1" and s': "lv_connectionID s' = lw_nextID w + 1"
  shows "ids_inv (L(h \<mapsto> s')) w'"
proof -
  have u: "unat (lw_nextID w + 1) = unat (lw_nextID w) + 1"
    using iffD1 [OF unat_add_lem, of "lw_nextID w" 1] n by simp
  have "unat (lv_connectionID t) < unat (lv_connectionID s')" if "L g = Some t" for g t
  proof -
    have "unat (lv_connectionID t) \<le> unat (lw_nextID w)" using i that unfolding ids_inv_def by blast
    then show ?thesis using u s' by simp
  qed
  then have "lv_connectionID t \<noteq> lv_connectionID s'" "unat (lv_connectionID t) \<le> unat (lw_nextID w')" if "L g = Some t" for g t
    using that w' s' by (metis less_irrefl, metis less_imp_le)
  with i w' s' show ?thesis unfolding ids_inv_def fun_upd_apply by (metis option.inject order_refl)
qed

lemma lsg_move_ids:
  assumes i: "ids_inv L w" and n: "unat (lw_nextID w) + 1 < 2 ^ 64"
    and s: "L h = Some s" and m: "lsg_move h body out (s, w) (s', w')"
  shows "ids_inv (L(h \<mapsto> s')) w' \<and> unat (lw_nextID w') \<le> unat (lw_nextID w) + 1"
proof -
  have u: "unat (lw_nextID w + 1) = unat (lw_nextID w) + 1"
    using iffD1 [OF unat_add_lem, of "lw_nextID w" 1] n by simp
  then have nz: "lw_nextID w + 1 \<noteq> 0" by auto
  have keep: "?thesis" if "lw_nextID w' = lw_nextID w" "lv_connectionID s' = lv_connectionID s"
    using ids_inv_keep [OF i _ s] that by simp
  have fresh: "?thesis" if "logs_in h session token cid w w'" "lv_connectionID s' = cid" for session token cid
  proof -
    have "lw_nextID w' = lw_nextID w + 1" "lv_connectionID s' = lw_nextID w + 1"
      using that nz by (simp_all add: logs_in_def)
    with ids_inv_fresh [OF i n] u show ?thesis by simp
  qed
  from m show ?thesis
  proof (cases rule: lsg_move_cases)
    case (idle k)
    with keep quiet_fields [OF idle(2)] show ?thesis by simp
  next
    case (gone e)
    then have "lw_nextID w' = lw_nextID w" using quiet_fields(4) by (auto simp: session_gone_def)
    with keep gone(2) show ?thesis by simp
  next
    case (login session token cid t)
    with fresh [OF login(3)] show ?thesis by simp
  next
    case (login_failed e session token cid)
    with fresh [OF login_failed(3)] show ?thesis by simp
  next
    case (serve request tx)
    then have "lw_nextID w' = lw_nextID w" by (simp add: served_def)
    with keep serve(5) show ?thesis by simp
  next
    case (confirm request w1 now session sessions tx)
    have "lw_nextID w' = lw_nextID (activate h (w1\<lparr>lw_sessions := sessions\<rparr>))" using confirm(7) by (simp add: served_def)
    also have "\<dots> = lw_nextID w"
      using activate_result(4) [OF refl, where h = h and w = "w1\<lparr>lw_sessions := sessions\<rparr>"] quiet_fields(4) [OF confirm(4)] by simp
    finally show ?thesis using keep confirm(8) by simp
  qed
qed

section \<open>The invariant of the system\<close>

definition system_inv :: "lobby_system \<Rightarrow> bool" where
  "system_inv y \<longleftrightarrow> conn_inv (sys_locals y) (sys_world y) \<and> proof_inv (sys_locals y) (sys_world y) \<and>
     ids_inv (sys_locals y) (sys_world y)"

text \<open>How far the counters of the program are from wrapping around: a step takes at most one account
  number, one connection number and 17 session tokens.\<close>

definition numbers_left :: "nat \<Rightarrow> lobby_world \<Rightarrow> bool" where
  "numbers_left n w \<longleftrightarrow> unat (acs_nextUserID (lw_accounts w)) + n < 2 ^ 64 \<and>
     unat (lw_nextID w) + n < 2 ^ 64 \<and> unat (lss_nextToken (lw_sessions w)) + 17 * n < 2 ^ 64"

lemma lsg_move_numbers:
  assumes i: "proof_inv L w" and n: "unat (lss_nextToken (lw_sessions w)) + 1 < 2 ^ 64"
    and m: "lsg_move h body out (s, w) (s', w')"
  shows "lw_accounts w' = lw_accounts w" "unat (lss_nextToken (lw_sessions w')) \<le> unat (lss_nextToken (lw_sessions w)) + 1"
proof -
  have t: "tokens_inv (lw_sessions w)" using i by (simp add: proof_inv_def stores_inv_def)
  have step: "unat (lss_nextToken (lss_step op (lw_sessions w))) \<le> unat (lss_nextToken (lw_sessions w)) + 1" for op
    using session_growth_step [OF t n, of op] by (simp add: session_growth_def)
  from m have "lw_accounts w' = lw_accounts w \<and>
      unat (lss_nextToken (lw_sessions w')) \<le> unat (lss_nextToken (lw_sessions w)) + 1"
  proof (cases rule: lsg_move_cases)
    case (idle k)
    with quiet_fields [OF idle(2)] show ?thesis by simp
  next
    case (gone e)
    with step quiet_fields(1) show ?thesis by (auto simp: session_gone_def)
  next
    case (confirm request w1 now session sessions tx)
    note q = quiet_fields [OF confirm(4)]
    note a = activate_result [OF refl, where h = h and w = "w1\<lparr>lw_sessions := sessions\<rparr>"]
    have "unat (lss_nextToken sessions) \<le> unat (lss_nextToken (lw_sessions w)) + 1"
      using step [of "OpConsume (ls_TicketSeed (lv_lobbySession s)) (lv_sessionToken s)
        (cn_peer (lc_connection (lw_clients w h))) now"] confirm(6) by simp
    moreover have "lw_accounts w' = lw_accounts w" "lw_sessions w' = sessions"
      using confirm(7) a(1,2) q(1) by (simp_all add: served_def)
    ultimately show ?thesis by simp
  qed (simp_all add: logs_in_def served_def)
  then show "lw_accounts w' = lw_accounts w"
    "unat (lss_nextToken (lw_sessions w')) \<le> unat (lss_nextToken (lw_sessions w)) + 1" by simp_all
qed

lemma fewer_connections:
  shows "proof_inv L w \<Longrightarrow> proof_inv (L(h := None)) w" and "ids_inv L w \<Longrightarrow> ids_inv (L(h := None)) w"
proof -
  have s: "(L(h := None)) g = Some s \<Longrightarrow> L g = Some s" for g s by (simp split: if_splits)
  show "proof_inv L w \<Longrightarrow> proof_inv (L(h := None)) w"
    unfolding proof_inv_def using s by (elim conjE, intro conjI allI impI) blast+
  show "ids_inv L w \<Longrightarrow> ids_inv (L(h := None)) w"
    unfolding ids_inv_def using s by (elim conjE, intro conjI allI impI) blast+
qed

lemma numbers_left_less: "numbers_left n w \<Longrightarrow> m \<le> n \<Longrightarrow> numbers_left m w"
  by (simp add: numbers_left_def)

lemma system_inv_iteration:
  assumes i: "system_inv y" and n: "numbers_left (Suc n) (sys_world y)" and s: "sys_locals y h = Some s"
    and it: "lsg_iteration config h (s, sys_world y) = (out, s', w')"
  shows "conn_inv ((sys_locals y)(h \<mapsto> s')) w' \<and> proof_inv ((sys_locals y)(h \<mapsto> s')) w' \<and>
    ids_inv ((sys_locals y)(h \<mapsto> s')) w' \<and> numbers_left n w'"
proof -
  let ?L = "sys_locals y" and ?w = "sys_world y"
  have "lsg_ok s" using i s by (simp add: system_inv_def conn_inv_def locals_inv_def)
  with it obtain body k w1 where m: "quiet ?w w1" "lsg_move h body out (s\<lparr>lv_recordIndex := k\<rparr>, w1) (s', w')"
    by (rule lsg_iteration_move)
  note q = quiet_fields [OF m(1)]
  let ?s = "s\<lparr>lv_recordIndex := k\<rparr>"
  have left: "numbers_left (Suc n) w1" using n q by (simp add: numbers_left_def)
  then have b: "unat (lss_nextToken (lw_sessions w1)) + 1 < 2 ^ 64" "unat (lw_nextID w1) + 1 < 2 ^ 64"
    by (simp_all add: numbers_left_def)
  have p0: "proof_inv ?L w1" by (rule proof_inv_same [of ?L ?w]) (use i q in \<open>simp_all add: system_inv_def\<close>)
  have p1: "proof_inv (?L(h \<mapsto> ?s)) w1" by (rule proof_inv_local [OF p0 s]) simp_all
  have i1: "ids_inv (?L(h \<mapsto> ?s)) w1"
    using ids_inv_keep [where L = ?L and w = ?w and w' = w1 and h = h and s = s and s' = ?s] i q(4) s
    by (simp add: system_inv_def)
  have "proof_inv (?L(h \<mapsto> s')) w'" using proof_inv_move [OF p1 b(1) _ m(2)] by simp
  moreover have "ids_inv (?L(h \<mapsto> s')) w' \<and> unat (lw_nextID w') \<le> unat (lw_nextID w1) + 1"
    using lsg_move_ids [OF i1 b(2) _ m(2)] by simp
  moreover have "conn_inv (?L(h \<mapsto> s')) w'" using conn_inv_iteration [where L = ?L and w = ?w, OF _ s it] i by (simp add: system_inv_def)
  ultimately show ?thesis
    using lsg_move_numbers [OF p1 b(1) m(2)] left by (simp add: numbers_left_def)
qed

lemma system_inv_auth:
  assumes i: "system_inv y" and n: "numbers_left (Suc n) (sys_world y)"
    and r: "auth_record a rec (auth_view (sys_world y) (sys_disk y) random c) = (r, v)"
    and w': "w' = (sys_world y)\<lparr>lw_accounts := aw_accounts v, lw_sessions := aw_sessions v\<rparr>"
  shows "proof_inv (sys_locals y) w' \<and> numbers_left n w'"
proof -
  let ?w = "sys_world y"
  have st: "stores_inv ?w" using i by (simp add: system_inv_def proof_inv_def)
  have "auth_inv (auth_view ?w (sys_disk y) random c)" "lss_inv (lw_sessions ?w)" "tokens_inv (lw_sessions ?w)"
    using st by (simp_all add: auth_inv_def auth_view_def stores_inv_def tokens_inv_def)
  note inv = this
  have b: "unat (acs_nextUserID (lw_accounts ?w)) + 1 < 2 ^ 64" "unat (lss_nextToken (lw_sessions ?w)) + 17 * Suc n < 2 ^ 64"
    using n by (simp_all add: numbers_left_def)
  have acc: "auth_inv v" "unat (acs_nextUserID (aw_accounts v)) \<le> unat (acs_nextUserID (lw_accounts ?w)) + 1"
    "acs_extends (lw_accounts ?w) (aw_accounts v)"
    using auth_record_result [OF inv(1) _ r] b(1) by (simp_all add: auth_view_def)
  obtain ops where ops: "length ops \<le> maxSeedAttempts + 1" "aw_sessions v = lss_run ops (lw_sessions ?w)"
    using auth_record_runs [OF _ r] inv(2) by (auto simp: auth_view_def)
  have len: "length ops \<le> 17" using ops(1) by (simp add: maxSeedAttempts_def)
  have g: "session_growth (length ops) (lw_sessions ?w) (lw_sessions w')"
    unfolding w' using session_growth_run [OF inv(3), of ops] b(2) len ops(2) by simp
  have "stores_inv w'" using acc(1) g by (simp add: w' stores_inv_def auth_inv_def session_growth_def)
  then have "proof_inv (sys_locals y) w'"
    using proof_inv_world [OF _ _ _ g, of "sys_locals y"] i acc(3) by (simp add: w' system_inv_def)
  moreover have "unat (lss_nextToken (lw_sessions w')) \<le> unat (lss_nextToken (lw_sessions ?w)) + 17"
    using g len by (simp add: session_growth_def)
  ultimately show ?thesis using n acc(2) by (simp add: numbers_left_def w')
qed

lemma system_inv_step:
  assumes st: "system_step a config y y'" and i: "system_inv y" and n: "numbers_left (Suc n) (sys_world y)"
  shows "system_inv y' \<and> numbers_left n (sys_world y')"
proof -
  have c: "conn_inv (sys_locals y') (sys_world y')"
    by (rule conn_inv_step [OF st]) (use i in \<open>simp add: system_inv_def\<close>)
  from st have "proof_inv (sys_locals y') (sys_world y') \<and> ids_inv (sys_locals y') (sys_world y') \<and>
      numbers_left n (sys_world y')"
  proof (cases rule: system_step.cases)
    case (step_connect h c)
    have "proof_inv (sys_locals y) (sys_world y')"
      using proof_inv_connect [of "sys_locals y" "sys_world y" h "new_client c"] i step_connect
      by (simp add: system_inv_def)
    then have "proof_inv (sys_locals y') (sys_world y')"
      using proof_inv_upd [where L = "sys_locals y" and w = "sys_world y'" and h = h and s' = lsg_start] step_connect(1)
      by (simp add: lsg_start_def)
    moreover have "ids_inv (sys_locals y') (sys_world y')"
      using i step_connect by (auto simp: system_inv_def ids_inv_def lsg_start_def)
    ultimately show ?thesis using n step_connect(1) by (simp add: numbers_left_def)
  next
    case (step_record h s s' w')
    with system_inv_iteration [OF i n step_record(2,3)] show ?thesis by simp
  next
    case (step_return h s r s' w')
    note k = system_inv_iteration [OF i n step_return(2,3)]
    have "proof_inv ((sys_locals y)(h := None)) w' \<and> ids_inv ((sys_locals y)(h := None)) w'"
      using fewer_connections(1) [where L = "(sys_locals y)(h \<mapsto> s')" and h = h and w = w']
        fewer_connections(2) [where L = "(sys_locals y)(h \<mapsto> s')" and h = h and w = w'] k by simp
    then have "proof_inv ((sys_locals y)(h := None)) (lsg_deferred h (s', w')) \<and>
        ids_inv ((sys_locals y)(h := None)) (lsg_deferred h (s', w'))"
      using proof_inv_same [where w = w' and w' = "lsg_deferred h (s', w')" and L = "(sys_locals y)(h := None)"]
        ids_inv_cong [where w = w' and w' = "lsg_deferred h (s', w')" and L = "(sys_locals y)(h := None)"]
      by (simp add: same_clients_def)
    with k step_return(1) show ?thesis by (simp add: numbers_left_def)
  next
    case (step_auth rec random c r v)
    have "ids_inv (sys_locals y') (sys_world y')" using i step_auth(1) by (simp add: system_inv_def ids_inv_def)
    with system_inv_auth [OF i n step_auth(2) refl] step_auth(1) show ?thesis by simp
  qed
  with c show ?thesis by (simp add: system_inv_def)
qed

lemma system_inv_start:
  assumes y: "system_start y"
  shows "system_inv y"
proof -
  from y obtain config d where "NewAccountStore config d = (Inr (lw_accounts (sys_world y)), sys_disk y)"
    unfolding system_start_def by blast
  then have acc: "acs_inv (lw_accounts (sys_world y))" using NewAccountStore_inv by blast
  from y obtain n m where new: "NewLobbySessionStore n m = Inr (lw_sessions (sys_world y))"
    unfolding system_start_def by blast
  then have "lss_bySeed (lw_sessions (sys_world y)) = []"
    by (rule NewLobbySessionStore_empty)
  then have "sessions_ok (lw_accounts (sys_world y)) (lw_sessions (sys_world y))" by (simp add: sessions_ok_def)
  then have "stores_inv (sys_world y)" using acc tokens_inv_New [OF new] by (simp add: stores_inv_def)
  moreover have "sys_locals y = (\<lambda>h. None)" using y by (simp add: system_start_def)
  ultimately show ?thesis using conn_inv_start [OF y] by (simp add: system_inv_def proof_inv_def ids_inv_def)
qed

text \<open>The numbers a run of \<open>n\<close> steps can use.\<close>

definition enough_numbers :: "lobby_system \<Rightarrow> nat \<Rightarrow> bool" where
  "enough_numbers y n \<longleftrightarrow> unat (acs_nextUserID (lw_accounts (sys_world y))) + 17 * n < 2 ^ 64"

lemma system_reaches_start: "system_reaches a config y0 n y \<Longrightarrow> system_start y0"
  by (induction rule: system_reaches.induct)

lemma system_inv_reach:
  assumes "system_reaches a config y0 n y" and "enough_numbers y0 (n + m)"
  shows "system_inv y \<and> numbers_left m (sys_world y)"
  using assms
proof (induction arbitrary: m rule: system_reaches.induct)
  case (reach_start y)
  from reach_start(1) obtain k l where "NewLobbySessionStore k l = Inr (lw_sessions (sys_world y))"
    unfolding system_start_def by blast
  from tokens_inv_New [OF this] reach_start
  have "numbers_left m (sys_world y)"
    by (simp add: numbers_left_def enough_numbers_def system_start_def)
  with system_inv_start [OF reach_start(1)] show ?case by simp
next
  case (reach_step y0 n y y')
  have "system_inv y \<and> numbers_left (Suc m) (sys_world y)"
    by (rule reach_step.IH) (use reach_step.prems in simp)
  then show ?case using system_inv_step [OF reach_step.hyps(2), of m] by blast
qed

end
