(* ===== verification/Lobby_Journey.thy ===== *)
theory Lobby_Journey
  imports Lobby_Identity
begin

text \<open>
  A client and the two servers: it registers an account, asks for a ticket, connects to the lobby, logs
  in with the ticket, proves its session key and lists a match. The operations of the servers are
  evaluated on the messages of any client that follows the protocol; the properties of the reachable
  states hold along such a run.
\<close>

section \<open>The authentication connection\<close>

definition frame_record :: "bytes \<Rightarrow> TransportRecord" where
  "frame_record body = \<lparr>Kind = RecordKindFrame, Body = body, AvailableBuffer = 0\<rparr>"

lemma frame_record_fields [simp]: "Kind (frame_record body) = RecordKindFrame" "Body (frame_record body) = body"
  by (simp_all add: frame_record_def)

text \<open>A connection to the authentication server on which nothing fails, at time 0.\<close>

definition auth_conn :: "net_addr \<Rightarrow> conn" where
  "auth_conn peer = \<lparr>cn_in = \<lparr>st_bytes = [], st_end = StreamEOF\<rparr>, cn_out = \<lparr>w_script = [], w_out = []\<rparr>,
     cn_peer = peer, cn_clock = [], cn_now = [0], cn_ctx = [], cn_deadlines = [], cn_read_by = 0, cn_closed = False\<rparr>"

text \<open>The first account of a new store, and the store that has it.\<close>

definition first_account :: "CreateAccountRequest \<Rightarrow> Account" where
  "first_account request = new_account (car_Username request) (car_PasswordHash request) example_store"

definition first_store :: "gostring \<Rightarrow> CreateAccountRequest \<Rightarrow> AccountStore" where
  "first_store source request = acs_enter (first_account request) source True example_store"

lemma first_account_fields [simp]:
  "acc_UserID (first_account request) = 1" "acc_Username (first_account request) = car_Username request"
  "acc_PasswordHash (first_account request) = car_PasswordHash request"
  "acc_AccountHash (first_account request) = BOZAccountHash (car_Username request)"
  by (simp_all add: first_account_def new_account_def example_store_def empty_store_def)

lemma first_store_lookups:
  "Lookup (car_Username request) (first_store source request) = Some (first_account request)"
  "LookupHash (BOZAccountHash (car_Username request)) (first_store source request) = Some (first_account request)"
  "LookupUserID 1 (first_store source request) = Some (first_account request)"
  by (simp_all add: first_store_def Lookup_def LookupHash_def LookupUserID_def acs_enter_eq acs_index_def example_store_def
      empty_store_def)

text \<open>The registration.\<close>

lemma journey_created:
  assumes w: "aw_accounts w = example_store" "aw_conn w = auth_conn peer"
    and src: "accountSourceIdentity peer = Inr source" and parse: "ParseCreateAccountBody create = Inr request"
  shows "\<exists>v. auth_record example_auth_config (frame_record create) w = (Inr (), v) \<and>
    aw_accounts v = first_store source request \<and> aw_disk v = aw_disk w \<and> aw_sessions v = aw_sessions w \<and>
    aw_output v = frame_bytes (MarshalCreateAccountReplyBody StatusNoError)"
proof -
  have reg: "RegisterFromPeer (car_Username request) (car_PasswordHash request) (cn_peer (aw_conn w)) (aw_accounts w, aw_disk w) =
      ((first_account request, True, None), (first_store source request, aw_disk w))"
    using w by (simp add: RegisterFromPeer_def src auth_conn_def register_def example_store_def
      empty_store_def first_account_def first_store_def Let_def)
  let ?w = "w\<lparr>aw_accounts := first_store source request\<rparr>"
  obtain v where v: "auth_writeFrame (MarshalCreateAccountReplyBody StatusNoError) ?w = (Inr (), v)"
    using auth_reply_sent [OF auth_reply_status, of ?w] w(2)
    by (auto simp: MarshalCreateAccountReplyBody_def auth_conn_def)
  have "handleCreateAccount create w = (Inr (), v)"
    using parse reg v by (simp add: handleCreateAccount_def Let_def)
  moreover have "2 \<le> length create \<and> create ! 1 = MessageCreateAccountRequest"
    using parse by (auto simp: ParseCreateAccountBody_eq MessageCreateAccountRequest_def)
  ultimately have "auth_record example_auth_config (frame_record create) w = (Inr (), v)"
    by (simp add: auth_record_def Let_def)
  then show ?thesis
    using auth_writeFrame_result(1-3,7) [OF v [unfolded MarshalCreateAccountReplyBody_def] auth_reply_status] w(2)
    by (simp add: auth_conn_def MarshalCreateAccountReplyBody_def)
qed

text \<open>The ticket.\<close>

definition no_sessions :: LobbySessionStore where
  "no_sessions = \<lparr>lss_maxSessions = 4096, lss_maxSessionsPerAccount = 4, lss_bySeed = [], lss_sessionsByAccount = [],
     lss_nextToken = 0\<rparr>"

lemma no_sessions: "NewLobbySessionStore 0 0 = Inr no_sessions" "lss_inv no_sessions"
proof -
  show "NewLobbySessionStore 0 0 = Inr no_sessions"
    by (simp add: NewLobbySessionStore_def no_sessions_def Let_def DefaultMaxLobbySessions_def DefaultMaxLobbySessionsPerAccount_def)
  then show "lss_inv no_sessions" by (rule lss_inv_New)
qed

lemma journey_ticket:
  assumes w: "aw_accounts w = first_store source request" "aw_sessions w = no_sessions" "aw_conn w = auth_conn peer"
      "st_bytes (aw_random w) = random"
    and n: "length random = 28" and peer: "lobbyPeerIdentity peer = Inr pid"
    and name: "valid_username (car_Username request)" "length (car_PasswordHash request) = 24"
    and ask: "ParseAccountForMMPBody ask = Inr wanted" "amr_AccountHash wanted = BOZAccountHash (car_Username request)"
  shows "\<exists>v p reply. auth_record example_auth_config (frame_record ask) w = (Inr (), v) \<and>
    aw_accounts v = aw_accounts w \<and> aw_disk v = aw_disk w \<and>
    map_of (lss_bySeed (aw_sessions v)) (LE_Uint32 (drop 24 random)) = Some p \<and>
    pend_session p = ticket_session (first_account request) (take 24 random) Hour (LE_Uint32 (drop 24 random)) \<and>
    pend_peer p = pid \<and>
    marshalAccountForMMPSuccessBody (first_account request) (LE_Uint32 (drop 24 random)) (take 24 random) 0 Hour = Inr reply \<and>
    aw_output v = frame_bytes reply"
proof -
  have li: "lss_inv (aw_sessions w)" by (simp add: w(2) no_sessions(2))
  have found: "LookupHash (amr_AccountHash wanted) (aw_accounts w) = Some (first_account request)"
    by (simp add: w(1) ask(2) first_store_lookups)
  have ok: "account_ok (first_account request)" using name by (simp add: account_ok_def)
  have life: "0 < ahc_SessionLife example_auth_config" "0 \<le> time_Unix 0"
    "time_Unix (0 + ahc_SessionLife example_auth_config) \<le> int MaxUint32" "0 + ahc_SessionLife example_auth_config = Hour"
    using example_conditions(6-8) by (simp_all add: example_auth_config_def)
  have seed: "take 4 (drop 24 random) = drop 24 random" using n by simp
  have room: "session_room (lss_purgeExpiredLocked 0 (aw_sessions w)) (acc_UserID (first_account request))
      (LE_Uint32 (take 4 (drop 24 (st_bytes (aw_random w)))))"
    by (simp add: w(2) session_room_def lss_purgeExpiredLocked_def no_sessions_def)
  have conn: "28 \<le> length (st_bytes (aw_random w))" "cn_now (aw_conn w) = [0]" "lobbyPeerIdentity (cn_peer (aw_conn w)) = Inr pid"
    "cn_deadlines (aw_conn w) = []" "w_script (cn_out (aw_conn w)) = []" "\<not> cn_closed (aw_conn w)"
    using w(3,4) n peer by (simp_all add: auth_conn_def)
  from ticket_served [OF li ask(1) found ok conn(1,2) life(1-3) conn(3) room conn(4-6)]
  obtain v p reply where v: "handleAccountForMMP example_auth_config ask w = (Inr (), v)"
    "map_of (lss_bySeed (aw_sessions v)) (LE_Uint32 (drop 24 random)) = Some p"
    "pend_session p = ticket_session (first_account request) (take 24 random) Hour (LE_Uint32 (drop 24 random))" "pend_peer p = pid"
    "marshalAccountForMMPSuccessBody (first_account request) (LE_Uint32 (drop 24 random)) (take 24 random) 0 Hour = Inr reply"
    "aw_output v = aw_output w @ frame_bytes reply"
    unfolding w(4) seed life(4) by (elim exE conjE)
  have "2 \<le> length ask \<and> ask ! 1 = MessageAccountForMMPRequest"
    using ask(1) by (auto simp: ParseAccountForMMPBody_eq MessageAccountForMMPRequest_def)
  then have "auth_record example_auth_config (frame_record ask) w = (Inr (), v)"
    using v(1) by (simp add: auth_record_def Let_def MessageCreateAccountRequest_def MessageAccountForMMPRequest_def)
  moreover have "aw_accounts v = aw_accounts w" "aw_disk v = aw_disk w" using handleAccountForMMP_result [OF li v(1)] by simp_all
  moreover have "aw_output v = frame_bytes reply" using v(6) w(3) by (simp add: auth_conn_def)
  ultimately show ?thesis using v(2-5) by blast
qed

section \<open>The lobby connection\<close>

text \<open>A connection on which nothing fails and whose clocks stand at 0.\<close>

definition journey_conn :: "net_addr \<Rightarrow> bytes \<Rightarrow> bytes \<Rightarrow> int \<Rightarrow> conn" where
  "journey_conn peer bs out deadline = \<lparr>cn_in = \<lparr>st_bytes = bs, st_end = StreamEOF\<rparr>, cn_out = \<lparr>w_script = [], w_out = out\<rparr>,
     cn_peer = peer, cn_clock = [], cn_now = [], cn_ctx = [], cn_deadlines = [], cn_read_by = deadline,
     cn_closed = False\<rparr>"

lemma journey_ops:
  "ctx_done (journey_conn peer bs out d) = (False, journey_conn peer bs out d)"
  "time_Now (journey_conn peer bs out d) = (0, journey_conn peer bs out d)"
  "config_Now (journey_conn peer bs out d) = (0, journey_conn peer bs out d)"
  "SetReadDeadline t (journey_conn peer bs out d) = (Inr (), journey_conn peer bs out t)"
  "checkFrameBody body = None \<Longrightarrow>
     conn_writeFrame body (journey_conn peer bs out d) = (Inr (), journey_conn peer bs (out @ frame_bytes body) d)"
  "cn_peer (journey_conn peer bs out d) = peer" "cn_closed (journey_conn peer bs out d) = False"
  "record_ok DefaultMaxFrameBody rec \<Longrightarrow>
     conn_ReadRecord DefaultMaxFrameBody (journey_conn peer (record_bytes rec @ bs) out d) = (Inr rec, journey_conn peer bs out d)"
proof -
  assume r: "record_ok DefaultMaxFrameBody rec"
  have "ReadTransportRecord DefaultMaxFrameBody \<lparr>st_bytes = record_bytes rec @ bs, st_end = StreamEOF\<rparr> =
      (Inr rec, \<lparr>st_bytes = bs, st_end = StreamEOF\<rparr>)"
    by (rule iffD2 [OF ReadTransportRecord_eq]) (simp add: r)
  then show "conn_ReadRecord DefaultMaxFrameBody (journey_conn peer (record_bytes rec @ bs) out d) = (Inr rec, journey_conn peer bs out d)"
    by (simp add: conn_ReadRecord_def journey_conn_def)
qed (auto simp: journey_conn_def ctx_done_def time_Now_def config_Now_def SetReadDeadline_def set_deadline_def
    conn_writeFrame_def WriteFrame_def writeAll_done frame_bytes_def)

lemma on_client_eq:
  "f (lc_connection (lw_clients w h)) = (a, c) \<Longrightarrow>
   on_client h f w = (a, w\<lparr>lw_clients := (lw_clients w)(h := (lw_clients w h)\<lparr>lc_connection := c\<rparr>)\<rparr>)"
  by (simp add: on_client_def lw_set_client_def)

definition at_conn :: "conn \<Rightarrow> lobby_world \<Rightarrow> lobby_world" where
  "at_conn c w = w\<lparr>lw_clients := (lw_clients w)(0 := (lw_clients w 0)\<lparr>lc_connection := c\<rparr>)\<rparr>"

lemma at_conn_at_conn [simp]: "at_conn c (at_conn c' w) = at_conn c w"
  by (simp add: at_conn_def)

lemma at_conn_fields [simp]:
  "lw_accounts (at_conn c w) = lw_accounts w" "lw_sessions (at_conn c w) = lw_sessions w"
  "lw_matches (at_conn c w) = lw_matches w" "lw_byAccount (at_conn c w) = lw_byAccount w"
  "lw_nextID (at_conn c w) = lw_nextID w" "lw_random (at_conn c w) = lw_random w"
  "lc_connection (lw_clients (at_conn c w) 0) = c" "lc_account (lw_clients (at_conn c w) h) = lc_account (lw_clients w h)"
  "lc_sessionKey (lw_clients (at_conn c w) h) = lc_sessionKey (lw_clients w h)"
  by (simp_all add: at_conn_def)

lemma on_client_at: "f (lc_connection (lw_clients w 0)) = (a, c) \<Longrightarrow> on_client 0 f w = (a, at_conn c w)"
  by (simp add: on_client_eq at_conn_def)

lemma on_client_again: "f c = (a, c') \<Longrightarrow> on_client 0 f (at_conn c w) = (a, at_conn c' w)"
  using on_client_at [of f "at_conn c w"] by simp

lemma journey_iteration:
  assumes "lc_connection (lw_clients w 0) = journey_conn peer (record_bytes rec @ rest) out d"
    and "record_ok DefaultMaxFrameBody rec"
  shows "lsg_iteration example_lobby_config 0 (s, w) = lsg_record example_lobby_config 0 rec
    (s\<lparr>lv_recordIndex := lv_recordIndex s + 1\<rparr>, at_conn (journey_conn peer rest out (read_deadline example_lobby_config s 0)) w)"
proof -
  let ?c = "journey_conn peer (record_bytes rec @ rest) out" and ?t = "read_deadline example_lobby_config s 0"
  have "on_client 0 ctx_done w = (False, at_conn (?c d) w)" "on_client 0 time_Now (at_conn (?c d) w) = (0, at_conn (?c d) w)"
    "on_client 0 (SetReadDeadline ?t) (at_conn (?c d) w) = (Inr (), at_conn (?c ?t) w)"
    "on_client 0 (conn_ReadRecord DefaultMaxFrameBody) (at_conn (?c ?t) w) = (Inr rec, at_conn (journey_conn peer rest out ?t) w)"
    by (rule on_client_at, simp add: assms journey_ops) (rule on_client_again, simp add: assms journey_ops)+
  moreover have "lhc_MaxRecords example_lobby_config = 0" by (simp add: example_lobby_config_def)
  ultimately show ?thesis by (simp add: lsg_iteration_def)
qed

text \<open>The login.\<close>

lemma journey_login:
  assumes c: "lc_connection (lw_clients w 0) = journey_conn peer rest out d"
    and b: "ParseLSGLoginBody body = Inr login" "lobby_allZero (lsg_AuthBlob login)"
    and p: "map_of (lss_bySeed (lw_sessions w)) (lsg_TicketSeed login) = Some p" "lobbyPeerIdentity peer = Inr (pend_peer p)"
      "0 < ls_ExpiresAt (pend_session p)" "ls_TitleID (pend_session p) = BOZTitleID"
    and a: "LookupUserID (ls_UserID (pend_session p)) (lw_accounts w) = Some account"
      "acc_AccountHash account = ls_AccountHash (pend_session p)"
    and n: "lw_nextID w = 0"
  shows "\<exists>t. lsg_login example_lobby_config 0 body (s, w) = (Continue,
    s\<lparr>lv_connectionID := 1, lv_lobbySession := pend_session p, lv_sessionToken := pend_token p,
      lv_authenticated := True, lv_proofDeadline := t\<rparr>,
    at_conn (journey_conn peer rest (out @ frame_bytes (connection_id_body 1)) d)
      (w\<lparr>lw_nextID := 1, lw_clients := (lw_clients w)(0 := (lw_clients w 0)
        \<lparr>lc_account := account, lc_sessionKey := ls_SessionKey (pend_session p)\<rparr>)\<rparr>))"
proof -
  have title: "lsg_TitleID login = BOZTitleID" using b(1) by (simp add: ParseLSGLoginBody_eq)
  have now: "on_client 0 config_Now w = (0, at_conn (journey_conn peer rest out d) w)"
    using on_client_at [of config_Now w] c by (simp add: journey_ops)
  have look: "lss_Lookup (lsg_TicketSeed login) peer 0 (lw_sessions w) = (Some (pend_session p, pend_token p), lw_sessions w)"
    using p by (simp add: lss_Lookup_def lss_expired_def)
  let ?w1 = "at_conn (journey_conn peer rest out d) w"
  let ?w2 = "lw_set_client 0 ((lw_clients ?w1 0)\<lparr>lc_account := account, lc_sessionKey := ls_SessionKey (pend_session p)\<rparr>) ?w1"
  have id: "new_connectionID ?w2 = (1, ?w2\<lparr>lw_nextID := 1\<rparr>)"
    using n by (simp add: new_connectionID_def nextID_Add_def)
  let ?w3 = "?w2\<lparr>lw_nextID := 1\<rparr>"
  have "checkFrameBody (connection_id_body 1) = None"
    by (simp add: checkFrameBody_None connection_id_body_def Let_def copy_at_def)
  then have wr: "writeConnectionID 0 1 ?w3 = (Inr (), at_conn (journey_conn peer rest (out @ frame_bytes (connection_id_body 1)) d) ?w3)"
    unfolding writeConnectionID_def client_writeFrame_def
    by (intro on_client_at) (simp add: journey_ops lw_set_client_def)
  let ?w4 = "at_conn (journey_conn peer rest (out @ frame_bytes (connection_id_body 1)) d) ?w3"
  have t: "on_client 0 time_Now ?w4 = (0, ?w4)"
    using on_client_at [of time_Now ?w4] by (simp add: journey_ops)
  have sess: "?w1\<lparr>lw_sessions := lw_sessions w\<rparr> = ?w1" by (simp add: at_conn_def)
  show ?thesis
    using p(4) a title
    by (intro exI) (simp add: lsg_login_def b now look journey_ops sess id wr t Let_def del: at_conn_at_conn,
      simp add: at_conn_def lw_set_client_def)
qed

text \<open>A sealed request that lists a match, and what is stored: the request's data under the name of the account.\<close>

definition listed_info :: "MatchmakingRequest \<Rightarrow> gostring \<Rightarrow> MatchmakingInfo" where
  "listed_info m name = (mr_Info m)\<lparr>mi_Attributes := (mi_Attributes (mr_Info m))\<lparr>AppStringAt130 := name\<rparr>\<rparr>"

definition match_answer :: "u64 \<Rightarrow> MatchmakingSessionID \<Rightarrow> bytes" where
  "match_answer tx sid = marshalClearTaskReplyBody (bw_Bytes (bw_append (enc_blob True sid)
     (bw_WriteRaw (marshalTaskReply tx MatchmakingTaskCreate statusNoError 1 1) (NewByteWriter True))))"

lemma sealed_payload_length:
  assumes "decryptRequestBody body key = Inr er"
  shows "length (er_Payload er) \<le> length body"
proof -
  let ?p = "TruncatedHMACSHA1 key (er_Payload er) @ [er_Service er] @ er_Payload er"
  obtain c where c: "body = [1] @ LE_PutUint32 (er_Seed er) @ c" "Encrypt3DESCBC key (DeriveIV (er_Seed er)) ?p = Inr c"
    using assms unfolding decryptRequestBody_eq sealed_request_def by blast
  have "length c = length ?p" by (rule length_Encrypt3DESCBC [OF _ c(2)]) simp
  with c(1) show ?thesis by simp
qed

lemma listed_info_valid:
  assumes "parseMatchmakingRequest payload seed = Inr m" "mr_Task m = MatchmakingTaskCreate" "length payload \<le> MaxUint32"
    and "mi_MaxPlayers (mr_Info m) \<noteq> 0" and "valid_username name" "length name \<le> 31"
  shows "validStoredMatchmakingInfo (listed_info m name)"
proof -
  have "matchmaking_request_ok m" using assms(1) by (simp add: parseMatchmakingRequest_eq [OF assms(3)])
  then have "request_info_ok (mr_Info m)" using assms(2) by (auto simp: matchmaking_request_ok_def Let_def)
  moreover have "0 \<notin> set name" using assms(5) by (auto simp: valid_username_def printable_def list_all_iff)
  ultimately show ?thesis
    using assms(4,6) by (simp add: validStored_attributes attributes_ok_def listed_info_def request_info_ok_def)
qed

lemma journey_match:
  assumes m: "NewMatchmakingStore 0 0 = Inr (lw_matches w)" and r: "lw_random w = \<lparr>st_bytes = sid, st_end = StreamEOF\<rparr>"
    and sid: "length sid = 8" "\<not> lobby_allZero sid"
    and valid: "validStoredMatchmakingInfo info" and task: "mr_Task request = MatchmakingTaskCreate" "mr_Info request = info"
  shows "handleMatchmaking 1 tx request w = (Inr (match_answer tx sid),
      w\<lparr>lw_matches := made_session 1 info sid (lw_matches w), lw_random := \<lparr>st_bytes = [], st_end = StreamEOF\<rparr>\<rparr>)"
    and "checkFrameBody (match_answer tx sid) = None"
proof -
  let ?s0 = "lw_matches w"
  have f: "mms_maxSessionsPerOwner ?s0 = 4" "mms_maxSessions ?s0 = 4096" "mms_byID ?s0 = []" "mms_sessionsByOwner ?s0 = []"
    using m by (auto simp: NewMatchmakingStore_def DefaultMaxMatchmakingSessions_def DefaultMaxMatchmakingSessionsPerOwner_def
      dest: sym)
  have rd: "ReadFull 8 \<lparr>st_bytes = sid, st_end = StreamEOF\<rparr> = (Inr sid, \<lparr>st_bytes = [], st_end = StreamEOF\<rparr>)"
    using sid(1) by (simp add: ReadFull_def)
  have "create_attempts (Suc k) 1 info (?s0, \<lparr>st_bytes = sid, st_end = StreamEOF\<rparr>) =
      (Inr (info\<lparr>mi_SessionID := sid, mi_NumPlayers := 1\<rparr>),
       (made_session 1 info sid ?s0, \<lparr>st_bytes = [], st_end = StreamEOF\<rparr>))" for k
    using sid(2) f unfolding create_attempts.simps matchmakingSessionIDSize_def rd
    by (simp add: made_session_def Let_def)
  from this [of 15] have cr: "mms_Create 1 info (?s0, Some (lw_random w)) =
      (Inr (info\<lparr>mi_SessionID := sid, mi_NumPlayers := 1\<rparr>),
       (made_session 1 info sid ?s0, Some \<lparr>st_bytes = [], st_end = StreamEOF\<rparr>))"
    using f valid r by (simp add: mms_Create_def maxSessionIDAttempts_def)
  have wr: "writeMatchmakingSessionID sid (bw_WriteRaw (marshalTaskReply tx MatchmakingTaskCreate statusNoError 1 1)
      (NewByteWriter True)) = (Inr (), bw_append (enc_blob True sid) (bw_WriteRaw (marshalTaskReply tx MatchmakingTaskCreate statusNoError 1 1)
      (NewByteWriter True)))"
    using sid(1) by (simp add: writeMatchmakingSessionID_def bw_WriteBlob_eq bw_WriteRaw_def NewByteWriter_def bw_append_def)
  show "handleMatchmaking 1 tx request w = (Inr (match_answer tx sid),
      w\<lparr>lw_matches := made_session 1 info sid (lw_matches w), lw_random := \<lparr>st_bytes = [], st_end = StreamEOF\<rparr>\<rparr>)"
    using cr wr task by (simp add: handleMatchmaking_def Let_def match_answer_def)
  show "checkFrameBody (match_answer tx sid) = None"
    unfolding match_answer_def
    by (rule clear_body_sendable)
      (simp add: sid(1) bw_WriteRaw_def bw_Bytes_def NewByteWriter_def bw_append_def length_enc length_marshalTaskReply)
qed

text \<open>The proof of the key and the service of the request it seals.\<close>

lemma journey_served:
  assumes c: "lc_connection (lw_clients w 0) = journey_conn peer (record_bytes (frame_record sealed)) out d"
    and rec: "record_ok DefaultMaxFrameBody (frame_record sealed)"
    and body: "decryptRequestBody sealed (ls_SessionKey (pend_session p)) = Inr er" "er_Service er = MatchmakingServiceID"
      "parseMatchmakingRequest (er_Payload er) (er_Seed er) = Inr m" "mr_Task m = MatchmakingTaskCreate"
    and s: "lv_authenticated s" "\<not> lv_sessionConfirmed s" "lv_connectionID s = 1" "lv_lobbySession s = pend_session p"
      "lv_sessionToken s = pend_token p"
    and p: "map_of (lss_bySeed (lw_sessions w)) (ls_TicketSeed (pend_session p)) = Some p"
      "lobbyPeerIdentity peer = Inr (pend_peer p)" "0 < ls_ExpiresAt (pend_session p)"
    and name: "acc_Username (lc_account (lw_clients w 0)) = name" "length name \<le> 31"
      "validStoredMatchmakingInfo (listed_info m name)"
    and w: "lw_byAccount w = []" "NewMatchmakingStore 0 0 = Inr (lw_matches w)"
      "lw_random w = \<lparr>st_bytes = sid, st_end = StreamEOF\<rparr>"
    and sid: "length sid = 8" "\<not> lobby_allZero sid"
  shows "\<exists>s' w'. lsg_iteration example_lobby_config 0 (s, w) = (Continue, s', w') \<and> lv_authenticated s' \<and>
    lv_sessionConfirmed s' \<and> lv_connectionID s' = 1 \<and>
    lc_connection (lw_clients w' 0) =
      journey_conn peer [] (out @ frame_bytes (match_answer (lv_transactionID s) sid)) (read_deadline example_lobby_config s 0) \<and>
    lw_byAccount w' = [(client_hash 0 w, 0)] \<and> lc_account (lw_clients w' 0) = lc_account (lw_clients w 0) \<and>
    lw_sessions w' = lss_deleteLocked (ls_TicketSeed (pend_session p)) p (lw_sessions w) \<and>
    lw_matches w' = made_session 1 (listed_info m name) sid (lw_matches w)"
proof -
  let ?t = "read_deadline example_lobby_config s 0"
  let ?s = "s\<lparr>lv_recordIndex := lv_recordIndex s + 1\<rparr>" and ?w = "at_conn (journey_conn peer [] out ?t) w"
  have it: "lsg_iteration example_lobby_config 0 (s, w) = lsg_request 0 sealed (?s, ?w)"
    using journey_iteration [of w peer "frame_record sealed" "[]" out d s] c rec s(1) by (simp add: lsg_record_def)
  have now: "on_client 0 config_Now ?w = (0, ?w)" by (rule on_client_again) (simp add: journey_ops)
  let ?sessions = "lss_deleteLocked (ls_TicketSeed (pend_session p)) p (lw_sessions w)"
  have con: "lss_Consume (ls_TicketSeed (pend_session p)) (pend_token p) peer 0 (lw_sessions w) =
      (Some (pend_session p), ?sessions)"
    using p by (simp add: lss_Consume_def lss_expired_def)
  let ?w1 = "?w\<lparr>lw_sessions := ?sessions, lw_byAccount := [(client_hash 0 w, 0)]\<rparr>"
  have "activate 0 (?w\<lparr>lw_sessions := ?sessions\<rparr>) = ?w1"
    using w(1) by (simp add: activate_def client_hash_def Let_def)
  then have cf: "lsg_confirm 0 (?s, ?w) = (True, ?s\<lparr>lv_lobbySession := pend_session p, lv_sessionConfirmed := True\<rparr>, ?w1)"
    using s con now by (simp add: lsg_confirm_def Let_def journey_ops)
  let ?s2 = "?s\<lparr>lv_lobbySession := pend_session p, lv_sessionConfirmed := True\<rparr>"
  let ?m = "m\<lparr>mr_Info := listed_info m name\<rparr>"
  have bind: "bindMatchmakingIdentity m name = Inr ?m"
    using body(4) name(2) by (simp add: bindMatchmakingIdentity_def listed_info_def maxMatchmakingTextBytes_def)
  let ?w2 = "?w1\<lparr>lw_matches := made_session 1 (listed_info m name) sid (lw_matches w),
       lw_random := \<lparr>st_bytes = [], st_end = StreamEOF\<rparr>\<rparr>"
  let ?reply = "match_answer (lv_transactionID s) sid"
  have reply: "handleMatchmaking 1 (lv_transactionID s) ?m ?w1 = (Inr ?reply, ?w2)" "checkFrameBody ?reply = None"
    using journey_match [of ?w1 sid "listed_info m name" ?m] w(2,3) sid name(3) body(4) by simp_all
  have sr: "service_reply 0 er ?s2 ?w1 = (Inr ?reply, ?w2)"
    using body(2,3) bind reply(1) name(1) s(3) by (simp add: service_reply_def EventLogServiceID_def MatchmakingServiceID_def)
  have wr: "client_writeFrame 0 ?reply ?w2 = (Inr (), at_conn (journey_conn peer [] (out @ frame_bytes ?reply) ?t) ?w2)"
    unfolding client_writeFrame_def by (rule on_client_at) (simp add: journey_ops reply(2))
  have "lsg_request 0 sealed (?s, ?w) = (Continue, ?s2\<lparr>lv_transactionID := lv_transactionID s + 1\<rparr>,
      at_conn (journey_conn peer [] (out @ frame_bytes ?reply) ?t) ?w2)"
    using body(1) s(4) cf sr wr by (simp add: lsg_request_def lsg_service_def)
  with it s(1,3) show ?thesis by simp
qed

section \<open>The steps of the run\<close>

text \<open>The servers when they start, with \<open>sid\<close> as the randomness of the match identifiers.\<close>

definition fresh_system :: "bytes \<Rightarrow> lobby_system" where
  "fresh_system sid = \<lparr>sys_world = \<lparr>lw_accounts = example_store, lw_sessions = no_sessions,
       lw_matches = \<lparr>mms_maxSessions = 4096, mms_maxSessionsPerOwner = 4, mms_nextOrder = 0, mms_byID = [],
         mms_sessionsByOwner = []\<rparr>,
       lw_byAccount = [], lw_nextID = 0, lw_random = \<lparr>st_bytes = sid, st_end = StreamEOF\<rparr>,
       lw_clients = (\<lambda>h. new_client (example_connection []))\<rparr>,
     sys_disk = empty_disk, sys_locals = (\<lambda>h. None)\<rparr>"

lemma fresh_matches: "NewMatchmakingStore 0 0 = Inr (lw_matches (sys_world (fresh_system sid)))"
  by (simp add: NewMatchmakingStore_def fresh_system_def Let_def DefaultMaxMatchmakingSessions_def
    DefaultMaxMatchmakingSessionsPerOwner_def)

lemma fresh_start: "system_start (fresh_system sid)" "enough_numbers (fresh_system sid) 10"
proof -
  have "NewLobbySessionStore 0 0 = Inr (lw_sessions (sys_world (fresh_system sid)))"
    by (simp add: no_sessions(1) fresh_system_def)
  moreover note fresh_matches
  moreover have "NewAccountStore \<lparr>acfg_MaxAccounts = 0, acfg_MaxAccountsPerSource = 0, acfg_StateFile = []\<rparr> empty_disk =
      (Inr (lw_accounts (sys_world (fresh_system sid))), sys_disk (fresh_system sid))"
    by (simp add: example_new fresh_system_def)
  ultimately show "system_start (fresh_system sid)"
    unfolding system_start_def by (intro conjI exI) (assumption | simp add: fresh_system_def)+
  show "enough_numbers (fresh_system sid) 10"
    by (simp add: enough_numbers_def fresh_system_def example_store_def empty_store_def no_sessions_def)
qed

text \<open>The authentication server handles a record on the connection \<open>c\<close>, with \<open>random\<close> as its randomness: its
  result, what it sends and the system after it.\<close>

definition auth_step :: "TransportRecord \<Rightarrow> bytes \<Rightarrow> conn \<Rightarrow> lobby_system \<Rightarrow> (go_error + unit) \<times> bytes \<times> lobby_system" where
  "auth_step rec random c y =
     (case auth_record example_auth_config rec
             (auth_view (sys_world y) (sys_disk y) \<lparr>st_bytes = random, st_end = StreamEOF\<rparr> c) of
        (r, a) \<Rightarrow> (r, aw_output a,
          y\<lparr>sys_world := (sys_world y)\<lparr>lw_accounts := aw_accounts a, lw_sessions := aw_sessions a\<rparr>, sys_disk := aw_disk a\<rparr>))"

text \<open>A connection to the lobby server, its next record, and what it has been sent.\<close>

definition lobby_connect :: "conn \<Rightarrow> lobby_system \<Rightarrow> lobby_system" where
  "lobby_connect c y =
     y\<lparr>sys_world := lw_set_client 0 (new_client c) (sys_world y), sys_locals := (sys_locals y)(0 \<mapsto> lsg_start)\<rparr>"

definition lobby_step :: "lobby_system \<Rightarrow> lsg_outcome \<times> lobby_system" where
  "lobby_step y =
     (case lsg_iteration example_lobby_config 0 (the (sys_locals y 0), sys_world y) of
        (out, s, w) \<Rightarrow> (out, y\<lparr>sys_world := w, sys_locals := (sys_locals y)(0 \<mapsto> s)\<rparr>))"

definition lobby_output :: "lobby_system \<Rightarrow> bytes" where
  "lobby_output y = w_out (cn_out (lc_connection (lw_clients (sys_world y) 0)))"

text \<open>They are steps of the system.\<close>

lemma auth_step_system: "auth_step rec random c y = (r, out, y') \<Longrightarrow> system_step example_auth_config example_lobby_config y y'"
  by (auto simp: auth_step_def split: prod.splits intro: step_auth)

lemma lobby_connect_system:
  "sys_locals y 0 = None \<Longrightarrow> system_step example_auth_config example_lobby_config y (lobby_connect c y)"
  unfolding lobby_connect_def by (rule step_connect)

lemma lobby_step_system:
  "lobby_step y = (Continue, y') \<Longrightarrow> sys_locals y 0 = Some s \<Longrightarrow> system_step example_auth_config example_lobby_config y y'"
  by (auto simp: lobby_step_def split: prod.splits intro: step_record)

lemma registration_step:
  assumes "accountSourceIdentity peer = Inr source" and "ParseCreateAccountBody create = Inr request"
  shows "auth_step (frame_record create) random (auth_conn peer) (fresh_system sid) =
    (Inr (), frame_bytes (MarshalCreateAccountReplyBody StatusNoError),
     (fresh_system sid)\<lparr>sys_world := (sys_world (fresh_system sid))\<lparr>lw_accounts := first_store source request\<rparr>\<rparr>)"
proof -
  let ?w = "auth_view (sys_world (fresh_system sid)) (sys_disk (fresh_system sid)) \<lparr>st_bytes = random, st_end = StreamEOF\<rparr> (auth_conn peer)"
  have w: "aw_accounts ?w = example_store" "aw_conn ?w = auth_conn peer" by (simp_all add: auth_view_def fresh_system_def)
  from journey_created [OF w assms] obtain v where "auth_record example_auth_config (frame_record create) ?w = (Inr (), v)"
    "aw_accounts v = first_store source request" "aw_disk v = aw_disk ?w" "aw_sessions v = aw_sessions ?w"
    "aw_output v = frame_bytes (MarshalCreateAccountReplyBody StatusNoError)"
    by (elim exE conjE)
  then show ?thesis by (simp add: auth_step_def) (simp add: auth_view_def)
qed

lemma ticket_step:
  assumes y: "lw_accounts (sys_world y) = first_store source request" "lw_sessions (sys_world y) = no_sessions"
    and n: "length random = 28" and peer: "lobbyPeerIdentity peer = Inr pid"
    and name: "valid_username (car_Username request)" "length (car_PasswordHash request) = 24"
    and ask: "ParseAccountForMMPBody ask = Inr wanted" "amr_AccountHash wanted = BOZAccountHash (car_Username request)"
  shows "\<exists>reply sessions p. auth_step (frame_record ask) random (auth_conn peer) y =
      (Inr (), frame_bytes reply, y\<lparr>sys_world := (sys_world y)\<lparr>lw_sessions := sessions\<rparr>\<rparr>) \<and>
    marshalAccountForMMPSuccessBody (first_account request) (LE_Uint32 (drop 24 random)) (take 24 random) 0 Hour = Inr reply \<and>
    map_of (lss_bySeed sessions) (LE_Uint32 (drop 24 random)) = Some p \<and>
    pend_session p = ticket_session (first_account request) (take 24 random) Hour (LE_Uint32 (drop 24 random)) \<and>
    pend_peer p = pid"
proof -
  let ?w = "auth_view (sys_world y) (sys_disk y) \<lparr>st_bytes = random, st_end = StreamEOF\<rparr> (auth_conn peer)"
  have w: "aw_accounts ?w = first_store source request" "aw_sessions ?w = no_sessions" "aw_conn ?w = auth_conn peer"
    "st_bytes (aw_random ?w) = random"
    using y by (simp_all add: auth_view_def)
  from journey_ticket [OF w n peer name ask] obtain v p reply where
    v: "auth_record example_auth_config (frame_record ask) ?w = (Inr (), v)" "aw_accounts v = aw_accounts ?w"
      "aw_disk v = aw_disk ?w" "aw_output v = frame_bytes reply"
    and r: "map_of (lss_bySeed (aw_sessions v)) (LE_Uint32 (drop 24 random)) = Some p"
      "pend_session p = ticket_session (first_account request) (take 24 random) Hour (LE_Uint32 (drop 24 random))" "pend_peer p = pid"
      "marshalAccountForMMPSuccessBody (first_account request) (LE_Uint32 (drop 24 random)) (take 24 random) 0 Hour = Inr reply"
    by (elim exE conjE)
  have "auth_step (frame_record ask) random (auth_conn peer) y =
      (Inr (), frame_bytes reply, y\<lparr>sys_world := (sys_world y)\<lparr>lw_sessions := aw_sessions v\<rparr>\<rparr>)"
    using v by (simp add: auth_step_def) (simp add: auth_view_def)
  with r show ?thesis by blast
qed

text \<open>The login and the sealed request, on a system where nobody has connected to the lobby yet.\<close>

definition lobby_conn :: "net_addr \<Rightarrow> bytes \<Rightarrow> bytes \<Rightarrow> conn" where
  "lobby_conn peer login sealed = journey_conn peer (record_bytes (frame_record login) @ record_bytes (frame_record sealed)) [] 0"

lemma login_step:
  assumes y: "lw_nextID (sys_world y) = 0" "map_of (lss_bySeed (lw_sessions (sys_world y))) (lsg_TicketSeed l) = Some p"
    and peer: "lobbyPeerIdentity peer = Inr (pend_peer p)"
    and p: "0 < ls_ExpiresAt (pend_session p)" "ls_TitleID (pend_session p) = BOZTitleID"
    and a: "LookupUserID (ls_UserID (pend_session p)) (lw_accounts (sys_world y)) = Some account"
      "acc_AccountHash account = ls_AccountHash (pend_session p)"
    and login: "ParseLSGLoginBody login = Inr l" "lobby_allZero (lsg_AuthBlob l)"
      "record_ok DefaultMaxFrameBody (frame_record login)"
  shows "\<exists>t d w. lobby_step (lobby_connect (lobby_conn peer login sealed) y) = (Continue,
      y\<lparr>sys_world := w, sys_locals := (sys_locals y)(0 \<mapsto> lsg_start\<lparr>lv_recordIndex := 1, lv_connectionID := 1,
        lv_lobbySession := pend_session p, lv_sessionToken := pend_token p, lv_authenticated := True, lv_proofDeadline := t\<rparr>)\<rparr>) \<and>
    lc_connection (lw_clients w 0) = journey_conn peer (record_bytes (frame_record sealed)) (frame_bytes (connection_id_body 1)) d \<and>
    lc_account (lw_clients w 0) = account \<and> lw_sessions w = lw_sessions (sys_world y) \<and>
    lw_matches w = lw_matches (sys_world y) \<and> lw_byAccount w = lw_byAccount (sys_world y) \<and>
    lw_random w = lw_random (sys_world y)"
proof -
  let ?y = "lobby_connect (lobby_conn peer login sealed) y" and ?rest = "record_bytes (frame_record sealed)"
  let ?d = "read_deadline example_lobby_config lsg_start 0"
  let ?w = "at_conn (journey_conn peer ?rest [] ?d) (sys_world ?y)"
  have l0: "lv_recordIndex lsg_start = 0" "\<not> lv_authenticated lsg_start" by (simp_all add: lsg_start_def)
  have it: "lsg_iteration example_lobby_config 0 (lsg_start, sys_world ?y) =
      lsg_login example_lobby_config 0 login (lsg_start\<lparr>lv_recordIndex := 1\<rparr>, ?w)"
    using journey_iteration [of "sys_world ?y" peer "frame_record login" ?rest "[]" 0 lsg_start] login(3) l0
    by (simp add: lobby_connect_def lobby_conn_def new_client_def lw_set_client_def lsg_record_def)
  have w: "lw_sessions ?w = lw_sessions (sys_world y)" "lw_accounts ?w = lw_accounts (sys_world y)" "lw_nextID ?w = 0"
    "lw_matches ?w = lw_matches (sys_world y)" "lw_byAccount ?w = lw_byAccount (sys_world y)"
    "lw_random ?w = lw_random (sys_world y)"
    using y(1) by (simp_all add: lobby_connect_def lw_set_client_def)
  let ?v = "at_conn (journey_conn peer ?rest ([] @ frame_bytes (connection_id_body 1)) ?d)
        (?w\<lparr>lw_nextID := 1, lw_clients := (lw_clients ?w)(0 := (lw_clients ?w 0)
          \<lparr>lc_account := account, lc_sessionKey := ls_SessionKey (pend_session p)\<rparr>)\<rparr>)"
  from journey_login [OF at_conn_fields(7) login(1,2) _ peer p _ a(2) w(3), of "lsg_start\<lparr>lv_recordIndex := 1\<rparr>"] y(2) a(1)
  obtain t where t: "lsg_login example_lobby_config 0 login (lsg_start\<lparr>lv_recordIndex := 1\<rparr>, ?w) = (Continue,
      lsg_start\<lparr>lv_recordIndex := 1, lv_connectionID := 1, lv_lobbySession := pend_session p,
        lv_sessionToken := pend_token p, lv_authenticated := True, lv_proofDeadline := t\<rparr>, ?v)"
    unfolding w by (elim exE meta_impE)
  have loc: "sys_locals ?y = (sys_locals y)(0 \<mapsto> lsg_start)" by (simp add: lobby_connect_def)
  have "lobby_step ?y = (Continue, ?y\<lparr>sys_world := ?v, sys_locals := (sys_locals ?y)(0 \<mapsto> lsg_start\<lparr>lv_recordIndex := 1,
      lv_connectionID := 1, lv_lobbySession := pend_session p, lv_sessionToken := pend_token p, lv_authenticated := True,
      lv_proofDeadline := t\<rparr>)\<rparr>)"
    by (simp add: lobby_step_def it t loc del: One_nat_def)
  then have "lobby_step ?y = (Continue, y\<lparr>sys_world := ?v, sys_locals := (sys_locals y)(0 \<mapsto> lsg_start\<lparr>lv_recordIndex := 1,
      lv_connectionID := 1, lv_lobbySession := pend_session p, lv_sessionToken := pend_token p, lv_authenticated := True,
      lv_proofDeadline := t\<rparr>)\<rparr>)"
    by (simp add: loc) (simp add: lobby_connect_def)
  moreover have "lc_connection (lw_clients ?v 0) = journey_conn peer ?rest (frame_bytes (connection_id_body 1)) ?d"
    "lc_account (lw_clients ?v 0) = account" "lw_sessions ?v = lw_sessions (sys_world y)"
    "lw_matches ?v = lw_matches (sys_world y)" "lw_byAccount ?v = lw_byAccount (sys_world y)"
    "lw_random ?v = lw_random (sys_world y)"
    using w by simp_all
  ultimately show ?thesis by (intro exI conjI)
qed

lemma request_step:
  assumes local: "sys_locals y 0 = Some s"
    and c: "lc_connection (lw_clients (sys_world y) 0) = journey_conn peer (record_bytes (frame_record sealed)) out d"
    and sealed: "decryptRequestBody sealed (ls_SessionKey (pend_session p)) = Inr er" "er_Service er = MatchmakingServiceID"
      "parseMatchmakingRequest (er_Payload er) (er_Seed er) = Inr m" "mr_Task m = MatchmakingTaskCreate"
      "mi_MaxPlayers (mr_Info m) \<noteq> 0" "record_ok DefaultMaxFrameBody (frame_record sealed)"
    and s: "lv_authenticated s" "\<not> lv_sessionConfirmed s" "lv_connectionID s = 1" "lv_lobbySession s = pend_session p"
      "lv_sessionToken s = pend_token p" "lv_transactionID s = 0"
    and p: "map_of (lss_bySeed (lw_sessions (sys_world y))) (ls_TicketSeed (pend_session p)) = Some p"
      "lobbyPeerIdentity peer = Inr (pend_peer p)" "0 < ls_ExpiresAt (pend_session p)"
    and name: "acc_Username (lc_account (lw_clients (sys_world y) 0)) = name" "valid_username name" "length name \<le> 31"
    and w: "lw_byAccount (sys_world y) = []" "NewMatchmakingStore 0 0 = Inr (lw_matches (sys_world y))"
      "lw_random (sys_world y) = \<lparr>st_bytes = sid, st_end = StreamEOF\<rparr>"
    and sid: "length sid = 8" "\<not> lobby_allZero sid"
  shows "\<exists>y' s'. lobby_step y = (Continue, y') \<and> lobby_output y' = out @ frame_bytes (match_answer 0 sid) \<and>
    sys_locals y' 0 = Some s' \<and> lv_authenticated s' \<and> lv_sessionConfirmed s' \<and> lv_connectionID s' = 1 \<and>
    lookup (client_hash 0 (sys_world y)) (sys_world y') = Some 0 \<and>
    map_of (lss_bySeed (lw_sessions (sys_world y'))) (ls_TicketSeed (pend_session p)) = None \<and>
    mms_byID (lw_matches (sys_world y')) =
      [(sid, \<lparr>sm_info = (listed_info m name)\<lparr>mi_SessionID := sid, mi_NumPlayers := 1\<rparr>, sm_owner = 1, sm_order = 1\<rparr>)] \<and>
    \<not> cn_closed (lc_connection (lw_clients (sys_world y') 0))"
proof -
  have "length (er_Payload er) \<le> MaxUint32"
    using sealed_payload_length [OF sealed(1)] sealed(6) by (simp add: record_ok_def frame_record_def DefaultMaxFrameBody_def)
  note valid = listed_info_valid [OF sealed(3,4) this sealed(5) name(2,3)]
  from journey_served [OF c sealed(6,1-4) s(1-5) p name(1,3) valid w sid]
  obtain s' w' where it: "lsg_iteration example_lobby_config 0 (s, sys_world y) = (Continue, s', w')"
    and s': "lv_authenticated s'" "lv_sessionConfirmed s'" "lv_connectionID s' = 1"
    and w': "lc_connection (lw_clients w' 0) = journey_conn peer [] (out @ frame_bytes (match_answer 0 sid)) (read_deadline example_lobby_config s 0)"
      "lw_byAccount w' = [(client_hash 0 (sys_world y), 0)]"
      "lw_sessions w' = lss_deleteLocked (ls_TicketSeed (pend_session p)) p (lw_sessions (sys_world y))"
      "lw_matches w' = made_session 1 (listed_info m name) sid (lw_matches (sys_world y))"
    unfolding s(6) by (elim exE conjE)
  let ?y = "y\<lparr>sys_world := w', sys_locals := (sys_locals y)(0 \<mapsto> s')\<rparr>"
  have "mms_byID (lw_matches (sys_world y)) = []" "mms_nextOrder (lw_matches (sys_world y)) = 0"
    using w(2) by (auto simp: NewMatchmakingStore_def Let_def DefaultMaxMatchmakingSessions_def
      DefaultMaxMatchmakingSessionsPerOwner_def dest: sym)
  then have "mms_byID (lw_matches w') =
      [(sid, \<lparr>sm_info = (listed_info m name)\<lparr>mi_SessionID := sid, mi_NumPlayers := 1\<rparr>, sm_owner = 1, sm_order = 1\<rparr>)]"
    by (simp add: w'(4) made_session_def mms_insert_def)
  moreover have "map_of (lss_bySeed (lw_sessions w')) (ls_TicketSeed (pend_session p)) = None"
    by (simp add: w'(3) lss_deleteLocked_def Let_def delete_conv)
  moreover have "w_out (cn_out (lc_connection (lw_clients w' 0))) = out @ frame_bytes (match_answer 0 sid)"
    "\<not> cn_closed (lc_connection (lw_clients w' 0))"
    unfolding w'(1) by (simp_all add: journey_conn_def)
  moreover have "lookup (client_hash 0 (sys_world y)) w' = Some 0" by (simp add: lookup_def w'(2))
  ultimately show ?thesis
    using it s' local by (intro exI [of _ ?y] exI [of _ s']) (simp add: lobby_step_def lobby_output_def)
qed

text \<open>The messages of a client that follows the protocol, one after the other.\<close>

lemma ticket_session_fields [simp]:
  "ls_TicketSeed (ticket_session account key expires seed) = seed" "ls_SessionKey (ticket_session account key expires seed) = key"
  "ls_UserID (ticket_session account key expires seed) = acc_UserID account"
  "ls_AccountHash (ticket_session account key expires seed) = acc_AccountHash account"
  "ls_TitleID (ticket_session account key expires seed) = BOZTitleID"
  "ls_ExpiresAt (ticket_session account key expires seed) = expires"
  by (simp_all add: ticket_session_def)

lemma run_reaches:
  assumes "system_start y0" and "auth_step r1 random1 c1 y0 = (e1, o1, y1)" and "auth_step r2 random2 c2 y1 = (e2, o2, y2)"
    and "sys_locals y2 0 = None" and "lobby_step (lobby_connect c y2) = (Continue, y3)" and "lobby_step y3 = (Continue, y4)"
    and "sys_locals y3 0 = Some s"
  shows "system_reaches example_auth_config example_lobby_config y0 5 y4"
proof -
  have l: "sys_locals (lobby_connect c y2) 0 = Some lsg_start" by (simp add: lobby_connect_def)
  have "system_reaches example_auth_config example_lobby_config y0 (Suc (Suc (Suc (Suc (Suc 0))))) y4"
    by (rule reach_step [OF reach_step [OF reach_step [OF reach_step [OF reach_step [OF reach_start [OF assms(1)]
      auth_step_system [OF assms(2)]] auth_step_system [OF assms(3)]] lobby_connect_system [OF assms(4)]]
      lobby_step_system [OF assms(5) l]] lobby_step_system [OF assms(6,7)]])
  then show ?thesis by (simp add: eval_nat_numeral)
qed

lemma client_run:
  assumes peer: "lobbyPeerIdentity peer = Inr pid" "accountSourceIdentity peer = Inr source"
    and create: "ParseCreateAccountBody create = Inr request" "length (car_Username request) \<le> 31"
    and ask: "ParseAccountForMMPBody ask = Inr wanted" "amr_AccountHash wanted = BOZAccountHash (car_Username request)"
    and random: "length random = 28"
    and login: "ParseLSGLoginBody login = Inr l" "lsg_TicketSeed l = LE_Uint32 (drop 24 random)" "lobby_allZero (lsg_AuthBlob l)"
      "record_ok DefaultMaxFrameBody (frame_record login)"
    and sealed: "decryptRequestBody sealed (take 24 random) = Inr er" "er_Service er = MatchmakingServiceID"
      "parseMatchmakingRequest (er_Payload er) (er_Seed er) = Inr m" "mr_Task m = MatchmakingTaskCreate"
      "mi_MaxPlayers (mr_Info m) \<noteq> 0" "record_ok DefaultMaxFrameBody (frame_record sealed)"
    and sid: "length sid = 8" "\<not> lobby_allZero sid"
  shows "\<exists>y1 reply y2 y3 y4 s.
    auth_step (frame_record create) [] (auth_conn peer) (fresh_system sid) =
      (Inr (), frame_bytes (MarshalCreateAccountReplyBody StatusNoError), y1) \<and>
    Lookup (car_Username request) (lw_accounts (sys_world y1)) = Some (first_account request) \<and>
    auth_step (frame_record ask) random (auth_conn peer) y1 = (Inr (), frame_bytes reply, y2) \<and>
    marshalAccountForMMPSuccessBody (first_account request) (LE_Uint32 (drop 24 random)) (take 24 random) 0 Hour = Inr reply \<and>
    lobby_step (lobby_connect (lobby_conn peer login sealed) y2) = (Continue, y3) \<and>
    lobby_output y3 = frame_bytes (connection_id_body 1) \<and>
    lobby_step y3 = (Continue, y4) \<and>
    lobby_output y4 = frame_bytes (connection_id_body 1) @ frame_bytes (match_answer 0 sid) \<and>
    sys_locals y4 0 = Some s \<and> lv_authenticated s \<and> lv_sessionConfirmed s \<and> lv_connectionID s = 1 \<and>
    lookup (BOZAccountHash (car_Username request)) (sys_world y4) = Some 0 \<and>
    map_of (lss_bySeed (lw_sessions (sys_world y4))) (LE_Uint32 (drop 24 random)) = None \<and>
    mms_byID (lw_matches (sys_world y4)) =
      [(sid, \<lparr>sm_info = (listed_info m (car_Username request))\<lparr>mi_SessionID := sid, mi_NumPlayers := 1\<rparr>, sm_owner = 1, sm_order = 1\<rparr>)] \<and>
    system_reaches example_auth_config example_lobby_config (fresh_system sid) 5 y4 \<and>
    \<not> cn_closed (lc_connection (lw_clients (sys_world y4) 0))"
proof -
  let ?seed = "LE_Uint32 (drop 24 random)" and ?account = "first_account request"
  let ?y1 = "(fresh_system sid)\<lparr>sys_world := (sys_world (fresh_system sid))\<lparr>lw_accounts := first_store source request\<rparr>\<rparr>"
  have name: "valid_username (car_Username request)" "length (car_PasswordHash request) = 24"
    using create(1) by (simp_all add: ParseCreateAccountBody_eq)
  note 1 = registration_step [OF peer(2) create(1), of "[]" sid]
  have f1: "lw_accounts (sys_world ?y1) = first_store source request" "lw_sessions (sys_world ?y1) = no_sessions"
    by (simp_all add: fresh_system_def)
  from ticket_step [OF f1 random peer(1) name ask] obtain reply sessions p where
    2: "auth_step (frame_record ask) random (auth_conn peer) ?y1 =
      (Inr (), frame_bytes reply, ?y1\<lparr>sys_world := (sys_world ?y1)\<lparr>lw_sessions := sessions\<rparr>\<rparr>)"
    and reply: "marshalAccountForMMPSuccessBody ?account ?seed (take 24 random) 0 Hour = Inr reply"
    and p: "map_of (lss_bySeed sessions) ?seed = Some p"
      "pend_session p = ticket_session ?account (take 24 random) Hour ?seed" "pend_peer p = pid"
    by (elim exE conjE)
  let ?y2 = "?y1\<lparr>sys_world := (sys_world ?y1)\<lparr>lw_sessions := sessions\<rparr>\<rparr>"
  have f2: "lw_nextID (sys_world ?y2) = 0" "lw_sessions (sys_world ?y2) = sessions"
    "lw_accounts (sys_world ?y2) = first_store source request" "lw_byAccount (sys_world ?y2) = []"
    "lw_matches (sys_world ?y2) = lw_matches (sys_world (fresh_system sid))"
    "lw_random (sys_world ?y2) = \<lparr>st_bytes = sid, st_end = StreamEOF\<rparr>" "sys_locals ?y2 0 = None"
    by (simp_all add: fresh_system_def)
  have pre: "map_of (lss_bySeed (lw_sessions (sys_world ?y2))) (lsg_TicketSeed l) = Some p" "lobbyPeerIdentity peer = Inr (pend_peer p)"
    "0 < ls_ExpiresAt (pend_session p)" "ls_TitleID (pend_session p) = BOZTitleID"
    "LookupUserID (ls_UserID (pend_session p)) (lw_accounts (sys_world ?y2)) = Some ?account"
    "acc_AccountHash ?account = ls_AccountHash (pend_session p)"
    unfolding f2(2,3) p(2,3) login(2) using p(1) peer(1)
    by (simp_all add: first_store_lookups Hour_def Minute_def Second_def)
  from login_step [OF f2(1) pre login(1,3,4), of sealed] obtain t d w where
    3: "lobby_step (lobby_connect (lobby_conn peer login sealed) ?y2) = (Continue,
      ?y2\<lparr>sys_world := w, sys_locals := (sys_locals ?y2)(0 \<mapsto> lsg_start\<lparr>lv_recordIndex := 1, lv_connectionID := 1,
        lv_lobbySession := pend_session p, lv_sessionToken := pend_token p, lv_authenticated := True, lv_proofDeadline := t\<rparr>)\<rparr>)"
      (is "_ = (Continue, ?y3)" is "_ = (Continue, ?z\<lparr>sys_world := _, sys_locals := ?L(0 \<mapsto> ?s3)\<rparr>)")
    and w: "lc_connection (lw_clients w 0) = journey_conn peer (record_bytes (frame_record sealed)) (frame_bytes (connection_id_body 1)) d"
      "lc_account (lw_clients w 0) = ?account" "lw_sessions w = sessions"
      "lw_matches w = lw_matches (sys_world (fresh_system sid))" "lw_byAccount w = []"
      "lw_random w = \<lparr>st_bytes = sid, st_end = StreamEOF\<rparr>"
    unfolding f2 by (elim exE conjE)
  have f3: "sys_locals ?y3 0 = Some ?s3" "sys_world ?y3 = w" by simp_all
  have s3: "lv_authenticated ?s3" "\<not> lv_sessionConfirmed ?s3" "lv_connectionID ?s3 = 1"
    "lv_lobbySession ?s3 = pend_session p" "lv_sessionToken ?s3 = pend_token p" "lv_transactionID ?s3 = 0"
    by (simp_all add: lsg_start_def)
  have p3: "decryptRequestBody sealed (ls_SessionKey (pend_session p)) = Inr er"
    "map_of (lss_bySeed (lw_sessions w)) (ls_TicketSeed (pend_session p)) = Some p"
    "acc_Username (lc_account (lw_clients w 0)) = car_Username request" "ls_TicketSeed (pend_session p) = ?seed"
    "client_hash 0 w = BOZAccountHash (car_Username request)" "NewMatchmakingStore 0 0 = Inr (lw_matches w)"
    using sealed(1) p(1,2) w(2-4) fresh_matches by (simp_all add: client_hash_def)
  have out: "lobby_output ?y3 = frame_bytes (connection_id_body 1)" by (simp add: lobby_output_def w(1) journey_conn_def)
  have found: "Lookup (car_Username request) (lw_accounts (sys_world ?y1)) = Some ?account" by (simp add: first_store_lookups)
  from request_step [OF f3(1), unfolded f3(2), OF w(1) p3(1) sealed(2-6) s3 p3(2) pre(2,3) p3(3) name(1) create(2) w(5) p3(6) w(6) sid]
  obtain y4 s' where 4: "lobby_step ?y3 = (Continue, y4)"
    and r: "lobby_output y4 = frame_bytes (connection_id_body 1) @ frame_bytes (match_answer 0 sid)"
      "sys_locals y4 0 = Some s'" "lv_authenticated s'" "lv_sessionConfirmed s'" "lv_connectionID s' = 1"
      "lookup (BOZAccountHash (car_Username request)) (sys_world y4) = Some 0"
      "map_of (lss_bySeed (lw_sessions (sys_world y4))) ?seed = None"
      "mms_byID (lw_matches (sys_world y4)) = [(sid, \<lparr>sm_info = (listed_info m (car_Username request))
        \<lparr>mi_SessionID := sid, mi_NumPlayers := 1\<rparr>, sm_owner = 1, sm_order = 1\<rparr>)]"
      "\<not> cn_closed (lc_connection (lw_clients (sys_world y4) 0))"
    unfolding p3(4,5) by (elim exE conjE)
  note run = run_reaches [OF fresh_start(1) 1 2 f2(7) 3 4 f3(1)]
  from 1 found 2 reply 3 out 4 r(1-8) run r(9) show ?thesis by (intro exI conjI)
qed

section \<open>An instance\<close>

text \<open>A request that registers an account.\<close>

lemma journey_create_body:
  "\<exists>body. ParseCreateAccountBody body = Inr \<lparr>car_IVSeed = 5, car_TitleID = BOZTitleID, car_LicenseHash = 0,
     car_Username = [97], car_PasswordHash = replicate 24 1\<rparr>"
proof -
  let ?req = "\<lparr>car_IVSeed = 5, car_TitleID = BOZTitleID, car_LicenseHash = 0,
     car_Username = [97], car_PasswordHash = replicate 24 1\<rparr> :: CreateAccountRequest"
  have len: "length (account_block ?req) = 96" by (simp add: account_block_def)
  then obtain block where b: "Encrypt3DESCBC createAccountKey (DeriveIV 5) (account_block ?req) = Inr block"
    by (simp add: Encrypt3DESCBC_eq length_createAccountKey)
  have "length block = 96" using length_Encrypt3DESCBC [OF _ b] len by simp
  then have "ParseCreateAccountBody ([0, 0] @ pack (create_bits 5 block)) = Inr ?req"
    using b unfolding ParseCreateAccountBody_eq
    by (intro conjI exI [of _ block]) (simp_all add: valid_username_def printable_def word_le_nat_alt)
  then show ?thesis by (rule exI)
qed

definition journey_account_request :: CreateAccountRequest where
  "journey_account_request = \<lparr>car_IVSeed = 5, car_TitleID = BOZTitleID, car_LicenseHash = 0,
     car_Username = [97], car_PasswordHash = replicate 24 1\<rparr>"

text \<open>The login.\<close>

definition login_body :: "u32 \<Rightarrow> bytes" where
  "login_body seed = [0, 0x07] @ pack (login_bits seed (replicate 128 0))"

lemma login_body:
  "ParseLSGLoginBody (login_body seed) = Inr \<lparr>lsg_TitleID = BOZTitleID, lsg_TicketSeed = seed, lsg_AuthBlob = replicate 128 0\<rparr>"
  "lobby_allZero (replicate 128 0)" "record_ok DefaultMaxFrameBody (frame_record (login_body seed))"
proof -
  show "ParseLSGLoginBody (login_body seed) = Inr \<lparr>lsg_TitleID = BOZTitleID, lsg_TicketSeed = seed, lsg_AuthBlob = replicate 128 0\<rparr>"
    by (rule iffD2 [OF ParseLSGLoginBody_eq]) (simp add: login_body_def)
  show "lobby_allZero (replicate 128 0)" by code_simp
  show "record_ok DefaultMaxFrameBody (frame_record (login_body seed))"
    by (simp add: record_ok_def frame_record_def login_body_def login_bits_def length_pack DefaultMaxFrameBody_def)
qed

text \<open>The request that lists a match, and its seal.\<close>

definition journey_request :: MatchmakingRequest where
  "journey_request = zero_request\<lparr>mr_Task := MatchmakingTaskCreate, mr_Info := zero_info\<lparr>mi_MaxPlayers := 18\<rparr>\<rparr>"

lemma fill_block: "\<exists>k \<le> 7. (n + k) mod 8 = (0 :: nat)"
proof -
  have "(n + (7 - (n + 7) mod 8)) mod 8 = 0" by presburger
  then show ?thesis by (intro exI [of _ "7 - (n + 7) mod 8"]) simp
qed

lemma encrypt_exists: "length key = 24 \<Longrightarrow> length p mod 8 = 0 \<Longrightarrow> \<exists>c. Encrypt3DESCBC key iv p = Inr c"
  by (simp add: Encrypt3DESCBC_eq)

lemma journey_sealed:
  assumes "length key = 24"
  shows "\<exists>body payload. decryptRequestBody body key = Inr \<lparr>er_Seed = 5, er_Service = MatchmakingServiceID, er_Payload = payload\<rparr> \<and>
    parseMatchmakingRequest payload 5 = Inr journey_request \<and> record_ok DefaultMaxFrameBody (frame_record body)"
proof -
  let ?bytes = "matchmaking_bytes True journey_request"
  have len: "length ?bytes \<le> 200"
    by (simp add: matchmaking_bytes_def journey_request_def task_defs info_bytes_def attributes_bytes_def
      zero_info_def zero_attributes_def zero_request_def length_enc)
  obtain k :: nat where k: "k \<le> 7" "(length ?bytes + 6 + k) mod 8 = 0"
    using fill_block [of "length (matchmaking_bytes True journey_request) + 6"] by (elim exE conjE)
  let ?payload = "?bytes @ 0 # replicate k (ucast (5 :: u32))"
  have "matchmaking_request_ok journey_request"
    by (simp add: matchmaking_request_ok_def journey_request_def task_defs request_info_ok_def zero_info_def
      zero_request_def attributes_ok_def zero_attributes_def)
  then have parse: "parseMatchmakingRequest ?payload 5 = Inr journey_request"
    using k(1) len by (intro iffD2 [OF parseMatchmakingRequest_eq]) auto
  let ?plain = "TruncatedHMACSHA1 key ?payload @ [MatchmakingServiceID] @ ?payload"
  have pl: "length ?plain = length ?bytes + 6 + k" by simp
  have "length ?plain mod 8 = 0" unfolding pl by (rule k(2))
  from encrypt_exists [OF assms this, of "DeriveIV 5"]
  obtain c where c: "Encrypt3DESCBC key (DeriveIV 5) ?plain = Inr c" by (elim exE)
  let ?body = "[1] @ LE_PutUint32 5 @ c"
  have "decryptRequestBody ?body key = Inr \<lparr>er_Seed = 5, er_Service = MatchmakingServiceID, er_Payload = ?payload\<rparr>"
    unfolding decryptRequestBody_eq sealed_request_def using c by auto
  moreover have "length ?body = length ?bytes + 11 + k" using length_Encrypt3DESCBC [OF _ c] pl by simp
  moreover have "length ?body \<noteq> 200" using calculation(2) k(2) by presburger
  ultimately show ?thesis
    using parse len k(1) by (intro exI [of _ ?body] exI [of _ ?payload])
      (auto simp: record_ok_def frame_record_def DefaultMaxFrameBody_def)
qed

text \<open>The client of the instance meets the conditions.\<close>

lemma journey_conditions:
  "lobbyPeerIdentity (OtherAddr [1] [2]) = Inr [1, 58, 2]" "accountSourceIdentity (OtherAddr [1] [2]) = Inr [1, 58, 2]"
  "length (car_Username journey_account_request) \<le> 31"
  "ParseAccountForMMPBody ticket_request_bytes = Inr \<lparr>amr_IVSeed = 5, amr_TitleID = BOZTitleID, amr_AccountHash = BOZAccountHash [97]\<rparr>"
  "length (replicate 28 (7 :: byte)) = 28" "drop 24 (replicate 28 (7 :: byte)) = replicate 4 7"
  "take 24 (replicate 28 (7 :: byte)) = replicate 24 7"
  "mr_Task journey_request = MatchmakingTaskCreate" "mi_MaxPlayers (mr_Info journey_request) \<noteq> 0"
  "length (replicate 8 (1 :: byte)) = 8" "\<not> lobby_allZero (replicate 8 1)"
proof -
  have "SplitHostPort [2] = None" by code_simp
  then show "lobbyPeerIdentity (OtherAddr [1] [2]) = Inr [1, 58, 2]" "accountSourceIdentity (OtherAddr [1] [2]) = Inr [1, 58, 2]"
    by (simp_all add: lobbyPeerIdentity_def accountSourceIdentity_def Let_def)
  show "\<not> lobby_allZero (replicate 8 1)" by code_simp
qed (simp_all add: journey_account_request_def example_request journey_request_def)

definition journey_start :: lobby_system where
  "journey_start = fresh_system (replicate 8 1)"

lemma journey_start: "system_start journey_start" "enough_numbers journey_start 10"
  unfolding journey_start_def by (rule fresh_start)+

abbreviation journey_reaches :: "nat \<Rightarrow> lobby_system \<Rightarrow> bool" where
  "journey_reaches n y \<equiv> system_reaches example_auth_config example_lobby_config journey_start n y"

lemma table_inv_open: "table_inv L w \<Longrightarrow> confirmed_in L h \<Longrightarrow> \<not> cn_closed (lc_connection (lw_clients w h)) \<Longrightarrow>
   map_of (lw_byAccount w) (client_hash h w) = Some h"
  by (simp add: table_inv_def) blast

lemma reach_lsg_ok: "system_reaches a config y0 n y \<Longrightarrow> sys_locals y h = Some s \<Longrightarrow> lsg_ok s"
  using conn_inv_reach unfolding conn_inv_def locals_inv_def by blast

lemma journey_run:
  "\<exists>y s v. journey_reaches 5 y \<and> sys_locals y 0 = Some s \<and> lv_authenticated s \<and> lv_sessionConfirmed s \<and>
     lv_connectionID s = 1 \<and> \<not> cn_closed (lc_connection (lw_clients (sys_world y) 0)) \<and>
     (replicate 8 1, v) \<in> matches_of (sys_world y) \<and> sm_owner v = 1"
proof -
  obtain create where create: "ParseCreateAccountBody create = Inr journey_account_request"
    using journey_create_body unfolding journey_account_request_def by blast
  obtain sealed payload where sealed: "decryptRequestBody sealed (take 24 (replicate 28 7)) =
      Inr \<lparr>er_Seed = 5, er_Service = MatchmakingServiceID, er_Payload = payload\<rparr>"
    "parseMatchmakingRequest payload 5 = Inr journey_request" "record_ok DefaultMaxFrameBody (frame_record sealed)"
    using journey_sealed [of "replicate 24 7"] unfolding journey_conditions(7) by auto
  note j = journey_conditions
  obtain y s where y: "sys_locals y 0 = Some s" "lv_authenticated s" "lv_sessionConfirmed s" "lv_connectionID s = 1"
    "mms_byID (lw_matches (sys_world y)) = [(replicate 8 1, \<lparr>sm_info = (listed_info journey_request
       (car_Username journey_account_request))\<lparr>mi_SessionID := replicate 8 1, mi_NumPlayers := 1\<rparr>, sm_owner = 1, sm_order = 1\<rparr>)]"
    "journey_reaches 5 y" "\<not> cn_closed (lc_connection (lw_clients (sys_world y) 0))"
    using client_run [OF j(1,2) create j(3,4) _ j(5) login_body(1) _ _ login_body(3) sealed(1) _ _ j(8,9) sealed(3) j(10,11)]
      login_body(2) sealed(2)
    unfolding journey_start_def by (auto simp: journey_account_request_def)
  from y(5) obtain v where v: "mms_byID (lw_matches (sys_world y)) = [(replicate 8 1, v)]" "sm_owner v = 1" by simp
  from v(1) have "(replicate 8 1, v) \<in> matches_of (sys_world y)" by simp
  with y(1-4,6,7) v(2) show ?thesis by (intro exI conjI)
qed

section \<open>Properties\<close>

text \<open>C2: no orphan matches. In every state the servers can reach, however the records of their connections
  interleave, each listed match belongs to a lobby connection that is still being handled and has
  proved its session key; its owner is that connection's identifier, which is not 0.\<close>

theorem no_orphan_matches:
  assumes "system_reaches auth_config config y0 n y" and "(sid, v) \<in> set (mms_byID (lw_matches (sys_world y)))"
  shows "sm_owner v \<noteq> 0 \<and>
    (\<exists>h s. sys_locals y h = Some s \<and> lv_authenticated s \<and> lv_sessionConfirmed s \<and> lv_connectionID s = sm_owner v)"
proof -
  obtain h s where "sm_owner v \<noteq> 0" "sys_locals y h = Some s" "lv_sessionConfirmed s" "lv_connectionID s = sm_owner v"
    using conn_inv_reach [OF assms(1)] assms(2) unfolding conn_inv_def owners_inv_def by blast
  with reach_lsg_ok [OF assms(1)] show ?thesis unfolding lsg_ok_def by blast
qed

theorem no_orphan_matches_witness:
  "\<exists>y h s v. journey_reaches 5 y \<and> (replicate 8 1, v) \<in> matches_of (sys_world y) \<and>
     sys_locals y h = Some s \<and> lv_sessionConfirmed s \<and> lv_connectionID s = sm_owner v \<and> sm_owner v = 1"
proof -
  obtain y s v where y: "journey_reaches 5 y" "(replicate 8 1, v) \<in> matches_of (sys_world y)" "sm_owner v = 1"
    using journey_run by blast
  from no_orphan_matches [OF y(1,2)] obtain h t where
    "sys_locals y h = Some t \<and> lv_authenticated t \<and> lv_sessionConfirmed t \<and> lv_connectionID t = sm_owner v"
    by (elim exE conjE) (rule that, simp)
  with y show ?thesis by (intro exI [of _ y] exI [of _ h] exI [of _ t] exI [of _ v]) simp
qed

text \<open>C3: an account has at most one open connection: two lobby connections that have proved their keys for
  the same account and that the server has not closed are one, and it is the one to which messages
  for the account are delivered.\<close>

theorem one_connection_per_account:
  assumes "system_reaches auth_config config y0 n y"
    and "sys_locals y g = Some s" "lv_sessionConfirmed s" "\<not> cn_closed (lc_connection (lw_clients (sys_world y) g))"
    and "sys_locals y h = Some t" "lv_sessionConfirmed t" "\<not> cn_closed (lc_connection (lw_clients (sys_world y) h))"
    and "client_hash g (sys_world y) = client_hash h (sys_world y)"
  shows "g = h \<and> lookup (client_hash h (sys_world y)) (sys_world y) = Some h"
proof -
  have t: "table_inv (sys_locals y) (sys_world y)" using conn_inv_reach [OF assms(1)] by (simp add: conn_inv_def)
  have "lookup (client_hash k (sys_world y)) (sys_world y) = Some k"
    if "sys_locals y k = Some u" "lv_sessionConfirmed u" "\<not> cn_closed (lc_connection (lw_clients (sys_world y) k))" for k u
  proof -
    have "confirmed_in (sys_locals y) k" using that(1,2) by (simp add: confirmed_in_def)
    then show ?thesis unfolding lookup_def by (rule table_inv_open [OF t _ that(3)])
  qed
  note found = this [OF assms(2-4), unfolded assms(8)] this [OF assms(5-7)]
  then have "Some g = Some h" by (rule trans [OF sym])
  with found(2) show ?thesis by blast
qed

theorem one_connection_per_account_witness:
  "\<exists>y. journey_reaches 5 y \<and> lookup (client_hash 0 (sys_world y)) (sys_world y) = Some 0"
proof -
  obtain y s where y: "journey_reaches 5 y" "sys_locals y 0 = Some s" "lv_sessionConfirmed s"
    "\<not> cn_closed (lc_connection (lw_clients (sys_world y) 0))"
    using journey_run by blast
  from one_connection_per_account [OF y y(2-4) refl] y(1) show ?thesis by blast
qed

text \<open>C4: who a connection stands for. As long as the numbers of the program do not run out, a lobby
  connection that has logged in stands for a registered account, the one its session names, under the
  24-byte key of that session; and once it has confirmed the session, no pending session carries its
  token any more, so that the ticket cannot be used again.\<close>

theorem connection_identity:
  assumes "system_reaches auth_config config y0 n y" and "enough_numbers y0 n"
    and "sys_locals y h = Some s" and "lv_authenticated s"
  shows "LookupUserID (ls_UserID (lv_lobbySession s)) (lw_accounts (sys_world y)) = Some (lc_account (lw_clients (sys_world y) h)) \<and>
    client_hash h (sys_world y) = ls_AccountHash (lv_lobbySession s) \<and>
    lc_sessionKey (lw_clients (sys_world y) h) = ls_SessionKey (lv_lobbySession s) \<and>
    length (ls_SessionKey (lv_lobbySession s)) = 24 \<and>
    (lv_sessionConfirmed s \<longrightarrow> (\<forall>(seed, p)\<in>set (lss_bySeed (lw_sessions (sys_world y))). pend_token p \<noteq> lv_sessionToken s))"
proof -
  have "proof_inv (sys_locals y) (sys_world y)"
    using system_inv_reach [OF assms(1), of 0] assms(2) by (simp add: system_inv_def)
  then have "ident_ok s (lw_clients (sys_world y) h) (lw_accounts (sys_world y)) (lw_sessions (sys_world y))"
    using assms(3,4) unfolding proof_inv_def by blast
  then show ?thesis unfolding ident_ok_def client_hash_def SessionKeySize_def by auto
qed

theorem connection_identity_witness:
  "\<exists>y s. journey_reaches 5 y \<and> sys_locals y 0 = Some s \<and>
     LookupUserID (ls_UserID (lv_lobbySession s)) (lw_accounts (sys_world y)) = Some (lc_account (lw_clients (sys_world y) 0))"
proof -
  obtain y s where y: "journey_reaches 5 y" "sys_locals y 0 = Some s" "lv_authenticated s"
    using journey_run by blast
  have "enough_numbers journey_start 5" using journey_start(2) by (simp add: enough_numbers_def)
  from connection_identity [OF y(1) this y(2,3)] y show ?thesis by blast
qed

text \<open>C5: sessions and identifiers are not shared: as long as the numbers do not run out, no two lobby
  connections have confirmed sessions of the same token, and no two have been given the same
  connection identifier, so that the matches of one are never the matches of another.\<close>

theorem connections_are_distinct:
  assumes "system_reaches auth_config config y0 n y" and "enough_numbers y0 n"
    and "sys_locals y g = Some s" and "sys_locals y h = Some t"
    and "lv_sessionConfirmed s \<and> lv_sessionConfirmed t \<and> lv_sessionToken s = lv_sessionToken t \<or>
      lv_connectionID s = lv_connectionID t \<and> lv_connectionID s \<noteq> 0"
  shows "g = h"
proof -
  have "proof_inv (sys_locals y) (sys_world y)" "ids_inv (sys_locals y) (sys_world y)"
    using system_inv_reach [OF assms(1), of 0] assms(2) by (simp_all add: system_inv_def)
  with assms(3-5) show ?thesis unfolding proof_inv_def ids_inv_def by blast
qed

theorem connections_are_distinct_witness:
  "\<exists>y s. journey_reaches 5 y \<and> sys_locals y 0 = Some s \<and>
     (\<forall>h t. sys_locals y h = Some t \<longrightarrow> lv_connectionID t = 1 \<longrightarrow> h = 0)"
proof -
  obtain y s where y: "journey_reaches 5 y" "sys_locals y 0 = Some s" "lv_connectionID s = 1"
    using journey_run by blast
  have "enough_numbers journey_start 5" using journey_start(2) by (simp add: enough_numbers_def)
  from connections_are_distinct [OF y(1) this _ y(2)] y show ?thesis by (metis one_neq_zero)
qed

text \<open>C10: the servers do what they are for. Any client that follows the protocol gets from no account to
  a listed match with four messages, whatever its name (of up to 31 bytes), its password hash, its
  address and the randomness of the servers: new servers answer its registration with success and then
  know the account; its ticket request is answered with the ticket for the account, under the seed and
  the key drawn; its login with the ticket's seed is answered with its connection identifier; and its
  first request sealed under the ticket's key, one that lists a match, confirms the connection, makes it
  the one under which the account is found, spends the ticket, and is answered with the identifier of
  the match that is now listed under the client's name and owned by its connection. The connections do
  not fail and the clock stands still meanwhile.\<close>

theorem client_journey:
  assumes peer: "lobbyPeerIdentity peer = Inr pid" "accountSourceIdentity peer = Inr source"
    and create: "ParseCreateAccountBody create = Inr request" "length (car_Username request) \<le> 31"
    and ask: "ParseAccountForMMPBody ask = Inr wanted" "amr_AccountHash wanted = BOZAccountHash (car_Username request)"
    and random: "length random = 28"
    and login: "ParseLSGLoginBody login = Inr l" "lsg_TicketSeed l = LE_Uint32 (drop 24 random)" "lobby_allZero (lsg_AuthBlob l)"
      "record_ok DefaultMaxFrameBody (frame_record login)"
    and sealed: "decryptRequestBody sealed (take 24 random) = Inr er" "er_Service er = MatchmakingServiceID"
      "parseMatchmakingRequest (er_Payload er) (er_Seed er) = Inr m" "mr_Task m = MatchmakingTaskCreate"
      "mi_MaxPlayers (mr_Info m) \<noteq> 0" "record_ok DefaultMaxFrameBody (frame_record sealed)"
    and sid: "length sid = 8" "\<not> lobby_allZero sid"
  shows "\<exists>y1 reply y2 y3 y4 s.
    auth_step (frame_record create) [] (auth_conn peer) (fresh_system sid) =
      (Inr (), frame_bytes (MarshalCreateAccountReplyBody StatusNoError), y1) \<and>
    Lookup (car_Username request) (lw_accounts (sys_world y1)) = Some (first_account request) \<and>
    auth_step (frame_record ask) random (auth_conn peer) y1 = (Inr (), frame_bytes reply, y2) \<and>
    marshalAccountForMMPSuccessBody (first_account request) (LE_Uint32 (drop 24 random)) (take 24 random) 0 Hour = Inr reply \<and>
    lobby_step (lobby_connect (lobby_conn peer login sealed) y2) = (Continue, y3) \<and>
    lobby_output y3 = frame_bytes (connection_id_body 1) \<and>
    lobby_step y3 = (Continue, y4) \<and>
    lobby_output y4 = frame_bytes (connection_id_body 1) @ frame_bytes (match_answer 0 sid) \<and>
    sys_locals y4 0 = Some s \<and> lv_authenticated s \<and> lv_sessionConfirmed s \<and> lv_connectionID s = 1 \<and>
    lookup (BOZAccountHash (car_Username request)) (sys_world y4) = Some 0 \<and>
    map_of (lss_bySeed (lw_sessions (sys_world y4))) (LE_Uint32 (drop 24 random)) = None \<and>
    mms_byID (lw_matches (sys_world y4)) =
      [(sid, \<lparr>sm_info = (listed_info m (car_Username request))\<lparr>mi_SessionID := sid, mi_NumPlayers := 1\<rparr>, sm_owner = 1, sm_order = 1\<rparr>)]"
  using client_run [OF assms] by (elim exE conjE) (intro exI conjI)

theorem client_journey_witness:
  "\<exists>create sealed y1 y3 y4 reply y2. auth_step (frame_record create) [] (auth_conn (OtherAddr [1] [2])) (fresh_system (replicate 8 1)) =
      (Inr (), frame_bytes (MarshalCreateAccountReplyBody StatusNoError), y1) \<and>
    Lookup [97] (lw_accounts (sys_world y1)) = Some (first_account journey_account_request) \<and>
    auth_step (frame_record ticket_request_bytes) (replicate 28 7) (auth_conn (OtherAddr [1] [2])) y1 = (Inr (), frame_bytes reply, y2) \<and>
    lobby_step (lobby_connect (lobby_conn (OtherAddr [1] [2]) (login_body (LE_Uint32 (replicate 4 7))) sealed) y2) = (Continue, y3) \<and>
    lobby_step y3 = (Continue, y4) \<and> lookup (BOZAccountHash [97]) (sys_world y4) = Some 0 \<and>
    map fst (mms_byID (lw_matches (sys_world y4))) = [replicate 8 1]"
proof -
  obtain create where create: "ParseCreateAccountBody create = Inr journey_account_request"
    using journey_create_body unfolding journey_account_request_def by blast
  obtain sealed payload where sealed: "decryptRequestBody sealed (take 24 (replicate 28 7)) =
      Inr \<lparr>er_Seed = 5, er_Service = MatchmakingServiceID, er_Payload = payload\<rparr>"
    "parseMatchmakingRequest payload 5 = Inr journey_request" "record_ok DefaultMaxFrameBody (frame_record sealed)"
    using journey_sealed [of "replicate 24 7"] unfolding journey_conditions(7) by auto
  have name: "car_Username journey_account_request = [97]" by (simp add: journey_account_request_def)
  note j = journey_conditions
  from client_journey [OF j(1,2) create j(3,4) _ j(5) login_body(1) _ _ login_body(3) sealed(1) _ _ j(8,9) sealed(3) j(10,11)]
    login_body(2) sealed(2) name
  obtain y1 reply y2 y3 y4 where "auth_step (frame_record create) [] (auth_conn (OtherAddr [1] [2])) (fresh_system (replicate 8 1)) =
      (Inr (), frame_bytes (MarshalCreateAccountReplyBody StatusNoError), y1)"
    "Lookup [97] (lw_accounts (sys_world y1)) = Some (first_account journey_account_request)"
    "auth_step (frame_record ticket_request_bytes) (replicate 28 7) (auth_conn (OtherAddr [1] [2])) y1 = (Inr (), frame_bytes reply, y2)"
    "lobby_step (lobby_connect (lobby_conn (OtherAddr [1] [2]) (login_body (LE_Uint32 (replicate 4 7))) sealed) y2) = (Continue, y3)"
    "lobby_step y3 = (Continue, y4)" "lookup (BOZAccountHash [97]) (sys_world y4) = Some 0"
    "map fst (mms_byID (lw_matches (sys_world y4))) = [replicate 8 1]"
    unfolding j(6) by auto
  then show ?thesis by (intro exI conjI)
qed

end
