(* ===== verification/Stun.thy ===== *)
theory Stun
  imports Std_Net
begin

text \<open>
  Package \<^verbatim>\<open>internal/online/stun\<close>: the RFC 3489 binding request and response
  (\<^verbatim>\<open>binding.go\<close>) and the responder that answers one datagram (\<^verbatim>\<open>responder.go\<close>).
\<close>

definition HeaderSize :: nat where "HeaderSize = 20"
definition BindingRequestSize :: nat where "BindingRequestSize = 28"
definition BindingResponseSize :: nat where "BindingResponseSize = 56"
definition transactionIDSize :: nat where "transactionIDSize = 16"
definition addressValueSize :: nat where "addressValueSize = 8"
definition attributeHeaderSize :: nat where "attributeHeaderSize = 4"
definition bindingRequestType :: u16 where "bindingRequestType = 0x0001"
definition bindingResponseType :: u16 where "bindingResponseType = 0x0101"
definition mappedAddressAttribute :: u16 where "mappedAddressAttribute = 0x0001"
definition changeRequestAttribute :: u16 where "changeRequestAttribute = 0x0003"
definition sourceAddressAttribute :: u16 where "sourceAddressAttribute = 0x0004"
definition changedAddressAttribute :: u16 where "changedAddressAttribute = 0x0005"
definition changeIPFlag :: u32 where "changeIPFlag = 4"
definition changePortFlag :: u32 where "changePortFlag = 2"
definition changeFlagMask :: u32 where "changeFlagMask = changeIPFlag OR changePortFlag"
definition ipv4Family :: byte where "ipv4Family = 0x01"

lemmas stun_constants = HeaderSize_def BindingRequestSize_def BindingResponseSize_def
  transactionIDSize_def addressValueSize_def attributeHeaderSize_def bindingRequestType_def
  bindingResponseType_def mappedAddressAttribute_def changeRequestAttribute_def
  sourceAddressAttribute_def changedAddressAttribute_def changeIPFlag_def changePortFlag_def
  changeFlagMask_def ipv4Family_def

section \<open>Data\<close>

text \<open>A \<^verbatim>\<open>netip.AddrPort\<close>.\<close>

record AddrPort =
  ap_Addr :: netip_addr
  ap_Port :: u16

record BindingRequest =
  TransactionID :: bytes
  ChangeIP :: bool
  ChangePort :: bool

record BindingResponseEndpoints =
  MappedAddress :: AddrPort
  SourceAddress :: AddrPort
  ChangedAddress :: AddrPort

section \<open>binding.go\<close>

definition ParseBindingRequest :: "bytes \<Rightarrow> go_error + BindingRequest" where
  "ParseBindingRequest packet =
     (if length packet < HeaderSize then Inl (Context ''header'' (StunErr ErrMalformedRequest))
      else if BE_Uint16 (slice 0 2 packet) \<noteq> bindingRequestType
      then Inl (Context ''type'' (StunErr ErrUnsupportedMessageType))
      else let messageLength = unat (BE_Uint16 (slice 2 4 packet)) in
        if messageLength \<noteq> BindingRequestSize - HeaderSize
        then Inl (Context ''body length'' (StunErr ErrMalformedRequest))
        else if length packet \<noteq> HeaderSize + messageLength
        then Inl (Context ''datagram length'' (StunErr ErrMalformedRequest))
        else let attribute = drop HeaderSize packet in
          if BE_Uint16 (slice 0 2 attribute) \<noteq> changeRequestAttribute
          then Inl (Context ''attribute'' (StunErr ErrUnsupportedAttribute))
          else let attributeLength = unat (BE_Uint16 (slice 2 4 attribute)) in
            if attributeLength \<noteq> 4
            then Inl (Context ''CHANGE-REQUEST length'' (StunErr ErrMalformedRequest))
            else let flags = BE_Uint32 (slice attributeHeaderSize
                                          (attributeHeaderSize + attributeLength) attribute) in
              if flags AND NOT changeFlagMask \<noteq> 0
              then Inl (Context ''flags'' (StunErr ErrUnsupportedChangeRequest))
              else Inr \<lparr>TransactionID =
                          copy_at 0 (slice 4 HeaderSize packet) (replicate transactionIDSize 0),
                        ChangeIP = (flags AND changeIPFlag \<noteq> 0),
                        ChangePort = (flags AND changePortFlag \<noteq> 0)\<rparr>)"

definition validateEndpoint :: "string \<Rightarrow> AddrPort \<Rightarrow> go_error option" where
  "validateEndpoint role endpoint =
     (let a = ap_Addr endpoint in
      if \<not> addr_IsValid a \<or> ap_Port endpoint = 0 \<or> addr_IsUnspecified a
      then Some (Context role (StunErr ErrInvalidEndpoint))
      else if \<not> addr_Is4 a then Some (Context role (StunErr ErrIPv4Only))
      else if \<not> addr_IsGlobalUnicast a \<and> \<not> addr_IsLoopback a \<and> \<not> addr_IsLinkLocalUnicast a
      then Some (Context role (StunErr ErrInvalidEndpoint))
      else None)"

text \<open>\<^verbatim>\<open>As4\<close>, called on IPv4 addresses only.\<close>

fun As4 :: "netip_addr \<Rightarrow> bytes" where
  "As4 (Addr4 ip) = ip"
| "As4 _ = []"

definition putAddressAttribute :: "bytes \<Rightarrow> nat \<Rightarrow> u16 \<Rightarrow> AddrPort \<Rightarrow> bytes \<times> nat" where
  "putAddressAttribute packet offset attributeType endpoint =
     (let packet = copy_at offset (BE_PutUint16 attributeType) packet;
          packet = copy_at (offset + 2) (BE_PutUint16 (word_of_nat addressValueSize)) packet;
          packet = packet[offset + 4 := 0];
          packet = packet[offset + 5 := ipv4Family];
          packet = copy_at (offset + 6) (BE_PutUint16 (ap_Port endpoint)) packet;
          packet = copy_at (offset + 8) (As4 (ap_Addr endpoint)) packet
      in (packet, offset + attributeHeaderSize + addressValueSize))"

definition BuildBindingResponse ::
  "BindingRequest \<Rightarrow> BindingResponseEndpoints \<Rightarrow> go_error + bytes" where
  "BuildBindingResponse request endpoints =
     (case validateEndpoint ''mapped'' (MappedAddress endpoints) of
        Some e \<Rightarrow> Inl e
      | None \<Rightarrow> (case validateEndpoint ''source'' (SourceAddress endpoints) of
        Some e \<Rightarrow> Inl e
      | None \<Rightarrow> (case validateEndpoint ''changed'' (ChangedAddress endpoints) of
        Some e \<Rightarrow> Inl e
      | None \<Rightarrow>
          let response = replicate BindingResponseSize 0;
              response = copy_at 0 (BE_PutUint16 bindingResponseType) response;
              response = copy_at 2 (BE_PutUint16 (word_of_nat (BindingResponseSize - HeaderSize))) response;
              response = copy_at 4 (TransactionID request) response;
              (response, offset) =
                putAddressAttribute response HeaderSize mappedAddressAttribute (MappedAddress endpoints);
              (response, offset) =
                putAddressAttribute response offset sourceAddressAttribute (SourceAddress endpoints);
              (response, offset) =
                putAddressAttribute response offset changedAddressAttribute (ChangedAddress endpoints)
          in Inr response)))"

section \<open>responder.go\<close>

record ResponderConfig =
  cfg_SourceAddress :: AddrPort
  cfg_ChangedAddress :: AddrPort

text \<open>The peer of a datagram: a \<^verbatim>\<open>*net.UDPAddr\<close> with its IP slice and port, or something else.\<close>

datatype udp_peer = UDPAddr bytes int | NotUDPAddr

text \<open>A \<^verbatim>\<open>net.PacketConn\<close>: the outcomes of the coming \<^verbatim>\<open>WriteTo\<close> calls (a call succeeds when none is
  left) and the datagrams handed to it.\<close>

record packet_conn =
  pc_script :: "(int \<times> go_error option) list"
  pc_sent :: "(bytes \<times> udp_peer) list"

definition WriteTo :: "bytes \<Rightarrow> udp_peer \<Rightarrow> packet_conn \<Rightarrow> (int \<times> go_error option) \<times> packet_conn" where
  "WriteTo data peer pc =
     (let pc' = pc\<lparr>pc_sent := pc_sent pc @ [(data, peer)]\<rparr>
      in case pc_script pc of
           [] \<Rightarrow> ((int (length data), None), pc')
         | outcome # script \<Rightarrow> (outcome, pc'\<lparr>pc_script := script\<rparr>))"

definition udpAddrPort :: "udp_peer \<Rightarrow> AddrPort option" where
  "udpAddrPort peer =
     (case peer of
        NotUDPAddr \<Rightarrow> None
      | UDPAddr ip port \<Rightarrow>
          if port < 1 \<or> port > 65535 then None
          else (case AddrFromSlice ip of
                  None \<Rightarrow> None
                | Some address \<Rightarrow>
                    let address = Unmap address
                    in if \<not> addr_Is4 address \<or> addr_IsUnspecified address then None
                       else Some \<lparr>ap_Addr = address, ap_Port = word_of_int port\<rparr>))"

definition NewResponder :: "ResponderConfig \<Rightarrow> go_error + ResponderConfig" where
  "NewResponder config =
     (case BuildBindingResponse
             \<lparr>TransactionID = replicate transactionIDSize 0, ChangeIP = False, ChangePort = False\<rparr>
             \<lparr>MappedAddress = \<lparr>ap_Addr = Addr4 [192, 0, 2, 1], ap_Port = 1\<rparr>,
              SourceAddress = cfg_SourceAddress config, ChangedAddress = cfg_ChangedAddress config\<rparr> of
        Inl e \<Rightarrow> Inl (Context ''configure STUN responder'' e)
      | Inr _ \<Rightarrow> Inr config)"

text \<open>\<open>connection = None\<close> is the nil connection. The result is the error and the connection.\<close>

definition HandleUDP ::
  "ResponderConfig \<Rightarrow> bool \<Rightarrow> udp_peer \<Rightarrow> bytes \<Rightarrow> packet_conn option \<Rightarrow> go_error option \<times> packet_conn option" where
  "HandleUDP config ctxDone peer payload connection =
     (case connection of
        None \<Rightarrow> (None, None)
      | Some pc \<Rightarrow>
          if ctxDone then (None, Some pc)
          else (case ParseBindingRequest payload of
                  Inl _ \<Rightarrow> (None, Some pc)
                | Inr request \<Rightarrow>
                    if ChangeIP request \<or> ChangePort request then (None, Some pc)
                    else (case udpAddrPort peer of
                            None \<Rightarrow> (None, Some pc)
                          | Some mappedAddress \<Rightarrow>
                              (case BuildBindingResponse request
                                      \<lparr>MappedAddress = mappedAddress,
                                       SourceAddress = cfg_SourceAddress config,
                                       ChangedAddress = cfg_ChangedAddress config\<rparr> of
                                 Inl e \<Rightarrow> (Some (Context ''build STUN response'' e), Some pc)
                               | Inr response \<Rightarrow>
                                   (case WriteTo response peer pc of
                                      ((written, Some e), pc') \<Rightarrow>
                                        (Some (Context ''write STUN response'' e), Some pc')
                                    | ((written, None), pc') \<Rightarrow>
                                        if written \<noteq> int (length response)
                                        then (Some (IoErr ErrShortWrite), Some pc')
                                        else (None, Some pc'))))))"

section \<open>What is accepted, and what is answered\<close>

text \<open>The two bits of a CHANGE-REQUEST.\<close>

definition change_flags :: "bool \<Rightarrow> bool \<Rightarrow> u32" where
  "change_flags ip port = (if ip then 4 else 0) OR (if port then 2 else 0)"

lemma bit_4_2: "bit (4 :: u32) i \<longleftrightarrow> i = 2" "bit (2 :: u32) i \<longleftrightarrow> i = 1"
  using bit_exp_iff [of 2 i, where 'a = u32] bit_exp_iff [of 1 i, where 'a = u32] by auto

lemma and_4_2: "(f :: u32) AND 4 = (if bit f 2 then 4 else 0)" "f AND 2 = (if bit f 1 then 2 else 0)"
  by (rule bit_word_eqI; auto simp: bit_and_iff bit_4_2 simp del: bit_numeral_word_iff)+

definition only_change_flags :: "u32 \<Rightarrow> bool" where
  "only_change_flags f \<longleftrightarrow> f = change_flags (bit f 2) (bit f 1)"

lemma change_flags_mask: "f AND NOT changeFlagMask = 0 \<longleftrightarrow> only_change_flags f"
  unfolding only_change_flags_def changeFlagMask_def changeIPFlag_def changePortFlag_def change_flags_def
proof
  assume l: "f AND NOT (4 OR 2) = 0"
  have "i = 1 \<or> i = 2" if "bit f i" for i
  proof (rule ccontr)
    assume "\<not> ?thesis"
    with that have "bit (f AND NOT (4 OR 2)) i"
      unfolding bit_and_iff bit_not_iff bit_or_iff bit_4_2 by (auto dest: bit_imp_le_length)
    with l show False by simp
  qed
  then show "f = (if bit f 2 then 4 else 0) OR (if bit f 1 then 2 else 0)"
    by (intro bit_word_eqI) (auto simp: bit_or_iff bit_4_2 simp del: bit_numeral_word_iff)
next
  assume r: "f = (if bit f 2 then 4 else 0) OR (if bit f 1 then 2 else 0)"
  show "f AND NOT (4 OR 2) = 0"
    by (subst r) auto
qed

lemma bit_change_flags: "bit (change_flags ip port) 2 = ip" "bit (change_flags ip port) 1 = port"
  by (auto simp: change_flags_def bit_or_iff bit_4_2 simp del: bit_numeral_word_iff)

text \<open>The 28 bytes of a request.\<close>

definition request_bytes :: "BindingRequest \<Rightarrow> bytes" where
  "request_bytes r = [0, 1, 0, 8] @ TransactionID r @ [0, 3, 0, 4] @
     be_bytes 4 (change_flags (ChangeIP r) (ChangePort r))"

lemma be16_consts: "be_bytes 2 (bindingRequestType :: u16) = [0, 1]" "be_bytes 2 (8 :: u16) = [0, 8]"
  "be_bytes 2 (changeRequestAttribute :: u16) = [0, 3]" "be_bytes 2 (4 :: u16) = [0, 4]"
  "be_bytes 2 (bindingResponseType :: u16) = [1, 1]" "be_bytes 2 (36 :: u16) = [0, 36]"
  by code_simp+

lemma split_request:
  assumes "length packet = 28"
  obtains a b tid c d f where "packet = a @ b @ tid @ c @ d @ f"
    "length a = 2" "length b = 2" "length tid = 16" "length c = 2" "length d = 2" "length f = 4"
proof -
  from assms have "length packet = 2 + (2 + (16 + (2 + (2 + 4))))" by simp
  then show thesis unfolding length_split using that by blast
qed

lemma unat_eq_numeral: "unat (w :: u16) = 8 \<longleftrightarrow> w = 8" "unat w = 4 \<longleftrightarrow> w = 4"
  by (auto simp: word_unat_eq_iff)

lemma ParseBindingRequest_pieces:
  assumes "length a = 2" "length b = 2" "length tid = 16" "length c = 2" "length d = 2" "length f = 4"
  shows "ParseBindingRequest (a @ b @ tid @ c @ d @ f) =
    (if a \<noteq> [0, 1] then Inl (Context ''type'' (StunErr ErrUnsupportedMessageType))
     else if b \<noteq> [0, 8] then Inl (Context ''body length'' (StunErr ErrMalformedRequest))
     else if c \<noteq> [0, 3] then Inl (Context ''attribute'' (StunErr ErrUnsupportedAttribute))
     else if d \<noteq> [0, 4] then Inl (Context ''CHANGE-REQUEST length'' (StunErr ErrMalformedRequest))
     else if \<not> only_change_flags (BE_Uint32 f)
     then Inl (Context ''flags'' (StunErr ErrUnsupportedChangeRequest))
     else Inr \<lparr>TransactionID = tid, ChangeIP = bit (BE_Uint32 f) 2, ChangePort = bit (BE_Uint32 f) 1\<rparr>)"
proof -
  let ?p = "a @ b @ tid @ c @ d @ f"
  note pieces = be_word_eq_iff [where n = 2 and 'a = 16, simplified]
  have words: "(BE_Uint16 a = bindingRequestType) = (a = [0, 1])"
    "(unat (BE_Uint16 b) = 28 - 20) = (b = [0, 8])"
    "(BE_Uint16 c = changeRequestAttribute) = (c = [0, 3])"
    "(unat (BE_Uint16 d) = 4) = (d = [0, 4])"
    using assms by (simp_all add: unat_eq_numeral pieces be16_consts)
  have len: "length ?p = 28" "copy_at 0 tid (replicate 16 0) = tid"
    using assms by (simp_all add: copy_at_def)
  have cut: "slice 0 2 ?p = a" "slice 2 4 ?p = b" "slice 4 20 ?p = tid" "drop 20 ?p = c @ d @ f"
    "slice 0 2 (c @ d @ f) = c" "slice 2 4 (c @ d @ f) = d" "slice 4 (4 + 4) (c @ d @ f) = f"
    using assms by (simp_all add: slice_def)
  have mid: ?thesis if "b \<noteq> [0, 8]"
    using that
    unfolding ParseBindingRequest_def Let_def HeaderSize_def BindingRequestSize_def len cut words
    by simp
  show ?thesis
  proof (cases "b = [0, 8]")
    case b: True
    then have eight: "unat (BE_Uint16 b) = 8" using words(2) by simp
    note defs = ParseBindingRequest_def Let_def change_flags_mask HeaderSize_def
      BindingRequestSize_def attributeHeaderSize_def transactionIDSize_def changeIPFlag_def
      changePortFlag_def and_4_2
    show ?thesis
    proof (cases "d = [0, 4]")
      case True
      then have four: "unat (BE_Uint16 d) = 4" using words(4) by simp
      show ?thesis
        unfolding defs cut len words eight four cut(7) using b True by simp
    next
      case False
      then show ?thesis
        unfolding defs cut len words eight using b by simp
    qed
  qed (rule mid)
qed

lemma ParseBindingRequest_length:
  assumes "length packet \<noteq> 28"
  shows "\<exists>e. ParseBindingRequest packet = Inl e"
  using assms by (auto simp: ParseBindingRequest_def Let_def HeaderSize_def BindingRequestSize_def)

lemma ParseBindingRequest_eq:
  "ParseBindingRequest packet = Inr r \<longleftrightarrow> length (TransactionID r) = 16 \<and> packet = request_bytes r"
proof
  assume ok: "ParseBindingRequest packet = Inr r"
  with ParseBindingRequest_length [of packet] have "length packet = 28" by auto
  then obtain a b tid c d f where p: "packet = a @ b @ tid @ c @ d @ f"
    and l: "length a = 2" "length b = 2" "length tid = 16" "length c = 2" "length d = 2" "length f = 4"
    by (rule split_request)
  have "be_bytes 4 (BE_Uint32 f) = f" using l by simp
  with ok l show "length (TransactionID r) = 16 \<and> packet = request_bytes r"
    unfolding p ParseBindingRequest_pieces [OF l]
    by (auto simp: request_bytes_def only_change_flags_def split: if_splits)
next
  assume r: "length (TransactionID r) = 16 \<and> packet = request_bytes r"
  then show "ParseBindingRequest packet = Inr r"
    using ParseBindingRequest_pieces [of "[0, 1]" "[0, 8]" "TransactionID r" "[0, 3]" "[0, 4]"
        "be_bytes 4 (change_flags (ChangeIP r) (ChangePort r))"]
    by (simp add: request_bytes_def bit_change_flags only_change_flags_def
        bit_change_flags [unfolded One_nat_def])
qed

text \<open>One address attribute, and the 56 bytes of a response.\<close>

definition attribute_bytes :: "byte \<Rightarrow> AddrPort \<Rightarrow> bytes" where
  "attribute_bytes t endpoint =
     [0, t, 0, 8, 0, 1] @ BE_PutUint16 (ap_Port endpoint) @ As4 (ap_Addr endpoint)"

definition response_bytes :: "bytes \<Rightarrow> BindingResponseEndpoints \<Rightarrow> bytes" where
  "response_bytes tid endpoints =
     [1, 1, 0, 36] @ tid @ attribute_bytes 1 (MappedAddress endpoints) @
     attribute_bytes 4 (SourceAddress endpoints) @ attribute_bytes 5 (ChangedAddress endpoints)"

text \<open>An endpoint a response may carry.\<close>

definition endpoint_ok :: "AddrPort \<Rightarrow> bool" where
  "endpoint_ok endpoint \<longleftrightarrow> validateEndpoint [] endpoint = None"

lemma validateEndpoint_None: "validateEndpoint role endpoint = None \<longleftrightarrow> endpoint_ok endpoint"
  by (simp add: endpoint_ok_def validateEndpoint_def Let_def)

lemma endpoint_ok_Is4: "endpoint_ok endpoint \<Longrightarrow> addr_Is4 (ap_Addr endpoint)"
  by (auto simp: endpoint_ok_def validateEndpoint_def Let_def split: if_splits)

lemma length_As4: "addr_wf a \<Longrightarrow> addr_Is4 a \<Longrightarrow> length (As4 a) = 4"
  by (cases a) auto

lemma putAddressAttribute_eq:
  assumes "length pre = offset" and "length (As4 (ap_Addr endpoint)) = 4" and "length gap = 12"
  shows "putAddressAttribute (pre @ gap @ post) offset t endpoint =
    (pre @ be_bytes 2 t @ [0, 8, 0, 1] @ BE_PutUint16 (ap_Port endpoint) @ As4 (ap_Addr endpoint) @ post,
     offset + 12)"
proof -
  from assms(3) have "length gap = 2 + (2 + (1 + (1 + (2 + 4))))" by simp
  then obtain g1 g2 g3 g4 g5 g6 where gap: "gap = g1 @ g2 @ [g3] @ [g4] @ g5 @ g6"
    and g: "length g1 = 2" "length g2 = 2" "length g5 = 2" "length g6 = 4"
    unfolding length_split by (auto simp: length_Suc_conv)
  let ?t = "be_bytes 2 t" and ?port = "BE_PutUint16 (ap_Port endpoint)"
  have 1: "copy_at offset ?t (pre @ gap @ post) = pre @ ?t @ g2 @ [g3] @ [g4] @ g5 @ g6 @ post"
    using copy_at_mid [of offset pre ?t g1] assms g by (simp add: gap)
  have 2: "copy_at (offset + 2) [0, 8] (pre @ ?t @ g2 @ [g3] @ [g4] @ g5 @ g6 @ post) =
      pre @ ?t @ [0, 8] @ [g3] @ [g4] @ g5 @ g6 @ post"
    using copy_at_mid [of "offset + 2" "pre @ ?t" "[0, 8]" g2] assms g by simp
  have 3: "(pre @ ?t @ [0, 8] @ [g3] @ [g4] @ g5 @ g6 @ post)[offset + 4 := 0, offset + 5 := 1] =
      pre @ ?t @ [0, 8, 0, 1] @ g5 @ g6 @ post"
    using list_update_mid [of "offset + 4" "pre @ ?t @ [0, 8]" g3 "g4 # g5 @ g6 @ post" 0]
      list_update_mid [of "offset + 5" "pre @ ?t @ [0, 8, 0]" g4 "g5 @ g6 @ post" 1] assms
    by simp
  have 4: "copy_at (offset + 6) ?port (pre @ ?t @ [0, 8, 0, 1] @ g5 @ g6 @ post) =
      pre @ ?t @ [0, 8, 0, 1] @ ?port @ g6 @ post"
    using copy_at_mid [of "offset + 6" "pre @ ?t @ [0, 8, 0, 1]" ?port g5] assms g by simp
  have 5: "copy_at (offset + 8) (As4 (ap_Addr endpoint)) (pre @ ?t @ [0, 8, 0, 1] @ ?port @ g6 @ post) =
      pre @ ?t @ [0, 8, 0, 1] @ ?port @ As4 (ap_Addr endpoint) @ post"
    using copy_at_mid [of "offset + 8" "pre @ ?t @ [0, 8, 0, 1] @ ?port" "As4 (ap_Addr endpoint)" g6] assms g
    by simp
  have "be_bytes 2 (word_of_nat addressValueSize :: u16) = [0, 8]"
    using be16_consts(2) by (simp add: addressValueSize_def)
  then show ?thesis
    unfolding putAddressAttribute_def Let_def ipv4Family_def 1
    by (simp only: 2 3 4 5) (simp add: attributeHeaderSize_def addressValueSize_def)
qed

lemma be16_attributes: "be_bytes 2 (mappedAddressAttribute :: u16) = [0, 1]"
  "be_bytes 2 (sourceAddressAttribute :: u16) = [0, 4]"
  "be_bytes 2 (changedAddressAttribute :: u16) = [0, 5]"
  by code_simp+

lemma BuildBindingResponse_eq:
  assumes "length (TransactionID request) = 16"
    and "addr_wf (ap_Addr (MappedAddress ep))" "addr_wf (ap_Addr (SourceAddress ep))"
    "addr_wf (ap_Addr (ChangedAddress ep))"
  shows "BuildBindingResponse request ep = Inr response \<longleftrightarrow>
    endpoint_ok (MappedAddress ep) \<and> endpoint_ok (SourceAddress ep) \<and> endpoint_ok (ChangedAddress ep) \<and>
    response = response_bytes (TransactionID request) ep"
proof (cases "endpoint_ok (MappedAddress ep) \<and> endpoint_ok (SourceAddress ep) \<and> endpoint_ok (ChangedAddress ep)")
  case False
  then show ?thesis
    by (auto simp: BuildBindingResponse_def validateEndpoint_None split: option.splits)
next
  case True
  let ?z = "\<lambda>n. replicate n (0 :: byte)" and ?tid = "TransactionID request"
  let ?h = "[1, 1, 0, 36] @ ?tid"
  have l: "length (As4 (ap_Addr (MappedAddress ep))) = 4" "length (As4 (ap_Addr (SourceAddress ep))) = 4"
    "length (As4 (ap_Addr (ChangedAddress ep))) = 4"
    using True assms endpoint_ok_Is4 length_As4 by blast+
  have z: "?z 56 = ?z 2 @ ?z 2 @ ?z 16 @ ?z 36" "?z 36 = ?z 12 @ ?z 24" "?z 24 = ?z 12 @ ?z 12"
    by (simp_all only: replicate_add [symmetric]) simp_all
  have c: "be_bytes 2 (word_of_nat (56 - 20) :: u16) = [0, 36]" using be16_consts(6) by simp
  have h1: "copy_at 0 [1, 1] (?z 56) = [1, 1] @ ?z 2 @ ?z 16 @ ?z 36"
    using copy_at_mid [of 0 "[]" "[1, 1]" "?z 2"] by (simp only: z(1)) simp
  have h2: "copy_at 2 [0, 36] ([1, 1] @ ?z 2 @ ?z 16 @ ?z 36) = [1, 1, 0, 36] @ ?z 16 @ ?z 36"
    using copy_at_mid [of 2 "[1, 1]" "[0, 36]" "?z 2"] by simp
  have h3: "copy_at 4 ?tid ([1, 1, 0, 36] @ ?z 16 @ ?z 36) = ?h @ ?z 36"
    using copy_at_mid [of 4 "[1, 1, 0, 36]" ?tid "?z 16"] assms(1) by simp
  have p1: "putAddressAttribute (?h @ ?z 36) 20 mappedAddressAttribute (MappedAddress ep) =
      ((?h @ attribute_bytes 1 (MappedAddress ep)) @ ?z 24, 32)"
    using putAddressAttribute_eq [of ?h 20 "MappedAddress ep" "?z 12" "?z 24"] l assms(1)
    by (simp add: z(2) be16_attributes attribute_bytes_def)
  have p2: "putAddressAttribute ((?h @ attribute_bytes 1 (MappedAddress ep)) @ ?z 24) 32
        sourceAddressAttribute (SourceAddress ep) =
      ((?h @ attribute_bytes 1 (MappedAddress ep) @ attribute_bytes 4 (SourceAddress ep)) @ ?z 12, 44)"
    using putAddressAttribute_eq [of "?h @ attribute_bytes 1 (MappedAddress ep)" 32 "SourceAddress ep" "?z 12" "?z 12"] l assms(1)
    by (simp add: z(3) be16_attributes attribute_bytes_def)
  have p3: "putAddressAttribute ((?h @ attribute_bytes 1 (MappedAddress ep) @ attribute_bytes 4 (SourceAddress ep)) @ ?z 12) 44
        changedAddressAttribute (ChangedAddress ep) = (response_bytes ?tid ep, 56)"
    using putAddressAttribute_eq [of "?h @ attribute_bytes 1 (MappedAddress ep) @ attribute_bytes 4 (SourceAddress ep)"
        44 "ChangedAddress ep" "?z 12" "[]"] l assms(1)
    by (simp add: be16_attributes attribute_bytes_def response_bytes_def)
  have "BuildBindingResponse request ep = Inr (response_bytes ?tid ep)"
    using True unfolding BuildBindingResponse_def Let_def BindingResponseSize_def HeaderSize_def
      be16_consts c h1 h2 h3 p1 p2 p3 prod.case
    by (simp add: validateEndpoint_None [THEN iffD2])
  with True show ?thesis by auto
qed

lemma udpAddrPort_Some:
  assumes "udpAddrPort peer = Some m"
  shows "addr_wf (ap_Addr m)" "addr_Is4 (ap_Addr m)" "\<not> addr_IsUnspecified (ap_Addr m)"
  using assms
  by (auto simp: udpAddrPort_def Let_def addr_wf_Unmap [OF addr_wf_AddrFromSlice]
      split: udp_peer.splits option.splits if_splits)

lemma NewResponder_ok:
  assumes "NewResponder config = Inr c" and "addr_wf (ap_Addr (cfg_SourceAddress config))"
    and "addr_wf (ap_Addr (cfg_ChangedAddress config))"
  shows "endpoint_ok (cfg_SourceAddress config) \<and> endpoint_ok (cfg_ChangedAddress config) \<and> c = config"
  using assms
  by (auto simp: NewResponder_def BuildBindingResponse_eq transactionIDSize_def split: sum.splits)

text \<open>The whole of \<^verbatim>\<open>HandleUDP\<close> for a configured responder and a datagram of a connection.\<close>

lemma HandleUDP_eq:
  assumes "NewResponder config = Inr config" and "addr_wf (ap_Addr (cfg_SourceAddress config))"
    and "addr_wf (ap_Addr (cfg_ChangedAddress config))"
    and "payload = request_bytes \<lparr>TransactionID = tid, ChangeIP = False, ChangePort = False\<rparr>"
    and "length tid = 16" and "udpAddrPort peer = Some m" and "endpoint_ok m"
  shows "HandleUDP config False peer payload (Some pc) =
    (let response = response_bytes tid \<lparr>MappedAddress = m, SourceAddress = cfg_SourceAddress config,
                                       ChangedAddress = cfg_ChangedAddress config\<rparr>;
         ((written, e), pc') = WriteTo response peer pc
     in (case e of Some e \<Rightarrow> Some (Context ''write STUN response'' e)
         | None \<Rightarrow> if written \<noteq> int (length response) then Some (IoErr ErrShortWrite) else None,
         Some pc'))"
proof -
  let ?r = "\<lparr>TransactionID = tid, ChangeIP = False, ChangePort = False\<rparr>"
  let ?ep = "\<lparr>MappedAddress = m, SourceAddress = cfg_SourceAddress config,
               ChangedAddress = cfg_ChangedAddress config\<rparr>"
  have "ParseBindingRequest payload = Inr ?r"
    using assms(4,5) by (simp add: ParseBindingRequest_eq)
  moreover have "BuildBindingResponse ?r ?ep = Inr (response_bytes tid ?ep)"
    using assms NewResponder_ok [OF assms(1-3)] udpAddrPort_Some [OF assms(6)]
    by (simp add: BuildBindingResponse_eq)
  ultimately show ?thesis
    using assms(6) by (simp add: HandleUDP_def split: option.splits prod.splits)
qed

lemma HandleUDP_silent:
  assumes "NewResponder config = Inr config" and "addr_wf (ap_Addr (cfg_SourceAddress config))"
    and "addr_wf (ap_Addr (cfg_ChangedAddress config))"
    and "HandleUDP config stopped peer payload (Some pc) = (err, Some pc')"
    and "\<not> (\<exists>tid m. \<not> stopped \<and> length tid = 16 \<and> udpAddrPort peer = Some m \<and> endpoint_ok m \<and>
           payload = request_bytes \<lparr>TransactionID = tid, ChangeIP = False, ChangePort = False\<rparr>)"
  shows "pc' = pc"
proof (cases "ParseBindingRequest payload")
  case (Inr r)
  then have r: "length (TransactionID r) = 16" "payload = request_bytes r"
    by (simp_all add: ParseBindingRequest_eq)
  show ?thesis
  proof (cases "stopped \<or> ChangeIP r \<or> ChangePort r \<or> udpAddrPort peer = None")
    case True
    with assms(4) Inr show ?thesis by (auto simp: HandleUDP_def split: if_splits)
  next
    case False
    then obtain m where m: "udpAddrPort peer = Some m" by auto
    let ?ep = "\<lparr>MappedAddress = m, SourceAddress = cfg_SourceAddress config,
               ChangedAddress = cfg_ChangedAddress config\<rparr>"
    have "\<not> endpoint_ok m"
    proof
      assume "endpoint_ok m"
      moreover have "r = \<lparr>TransactionID = TransactionID r, ChangeIP = False, ChangePort = False\<rparr>"
        using False by simp
      ultimately show False using assms(5) r m False by metis
    qed
    then obtain e where "BuildBindingResponse r ?ep = Inl e"
      using BuildBindingResponse_eq [of r ?ep] r(1) assms(2,3) udpAddrPort_Some [OF m]
      by (cases "BuildBindingResponse r ?ep") auto
    with assms(4) Inr False m show ?thesis by (simp add: HandleUDP_def)
  qed
qed (use assms(4) in \<open>auto simp: HandleUDP_def split: if_splits\<close>)

section \<open>Properties\<close>

text \<open>\<^verbatim>\<open>ParseBindingRequest\<close> accepts exactly the 28-byte binding requests with one
  CHANGE-REQUEST attribute, and returns the transaction ID and the two flags they carry.\<close>

theorem ParseBindingRequest_exact:
  "ParseBindingRequest packet = Inr r \<longleftrightarrow>
     length (TransactionID r) = 16 \<and>
     packet = [0, 1, 0, 8] @ TransactionID r @ [0, 3, 0, 4] @
       be_bytes 4 (((if ChangeIP r then 4 else 0) OR (if ChangePort r then 2 else 0)) :: u32)"
  using ParseBindingRequest_eq [of packet r] by (simp add: request_bytes_def change_flags_def)

text \<open>C25: a configured responder is not an open reflector. A datagram makes it send at most one
  datagram, only to the peer it came from, only for a plain binding request from a usable IPv4
  address, and then exactly the 56-byte response that carries the request's transaction ID, the
  peer's own address and port, and the configured addresses.\<close>

theorem HandleUDP_replies_to_sender_only:
  assumes "NewResponder config = Inr config" and "addr_wf (ap_Addr (cfg_SourceAddress config))"
    and "addr_wf (ap_Addr (cfg_ChangedAddress config))"
    and "HandleUDP config stopped peer payload (Some pc) = (err, Some pc')"
    and "pc_sent pc' \<noteq> pc_sent pc"
  shows "\<exists>tid m. \<not> stopped \<and> length tid = 16 \<and> udpAddrPort peer = Some m \<and> endpoint_ok m \<and>
    payload = request_bytes \<lparr>TransactionID = tid, ChangeIP = False, ChangePort = False\<rparr> \<and>
    pc_sent pc' = pc_sent pc @
      [(response_bytes tid \<lparr>MappedAddress = m, SourceAddress = cfg_SourceAddress config,
                            ChangedAddress = cfg_ChangedAddress config\<rparr>, peer)]"
proof -
  obtain tid m where c: "\<not> stopped" "length tid = 16" "udpAddrPort peer = Some m" "endpoint_ok m"
    "payload = request_bytes \<lparr>TransactionID = tid, ChangeIP = False, ChangePort = False\<rparr>"
    using HandleUDP_silent [OF assms(1-4)] assms(5) by blast
  with assms(4) HandleUDP_eq [OF assms(1-3) c(5,2,3,4), of pc] show ?thesis
    by (auto simp: WriteTo_def Let_def split: list.splits prod.splits)
qed

definition example_config :: ResponderConfig where
  "example_config =
     \<lparr>cfg_SourceAddress = \<lparr>ap_Addr = Addr4 [192, 0, 2, 10], ap_Port = 3478\<rparr>,
      cfg_ChangedAddress = \<lparr>ap_Addr = Addr4 [198, 51, 100, 20], ap_Port = 3479\<rparr>\<rparr>"

lemma replicate_4: "replicate 4 x = [x, x, x, x]"
  by (simp add: numeral_eq_Suc)

lemmas addr_predicates = addr_IsValid_def addr_IsUnspecified_def addr_IsGlobalUnicast_def
  addr_IsLoopback_def addr_IsMulticast_def addr_IsLinkLocalUnicast_def

lemma endpoint_ok_examples:
  "endpoint_ok \<lparr>ap_Addr = Addr4 [203, 0, 113, 9], ap_Port = 50117\<rparr>"
  "endpoint_ok \<lparr>ap_Addr = Addr4 [192, 0, 2, 1], ap_Port = 1\<rparr>"
  "endpoint_ok \<lparr>ap_Addr = Addr4 [192, 0, 2, 10], ap_Port = 3478\<rparr>"
  "endpoint_ok \<lparr>ap_Addr = Addr4 [198, 51, 100, 20], ap_Port = 3479\<rparr>"
  by (simp_all add: endpoint_ok_def validateEndpoint_def addr_predicates Let_def replicate_4)

lemma example_config_ok:
  "NewResponder example_config = Inr example_config"
  "udpAddrPort (UDPAddr [203, 0, 113, 9] 50117) = Some \<lparr>ap_Addr = Addr4 [203, 0, 113, 9], ap_Port = 50117\<rparr>"
proof -
  let ?ep = "\<lparr>MappedAddress = \<lparr>ap_Addr = Addr4 [192, 0, 2, 1], ap_Port = 1\<rparr>,
    SourceAddress = cfg_SourceAddress example_config, ChangedAddress = cfg_ChangedAddress example_config\<rparr>"
  let ?r = "\<lparr>TransactionID = replicate transactionIDSize 0, ChangeIP = False, ChangePort = False\<rparr>"
  have "BuildBindingResponse ?r ?ep = Inr (response_bytes (replicate transactionIDSize 0) ?ep)"
    by (simp add: BuildBindingResponse_eq endpoint_ok_examples example_config_def transactionIDSize_def)
  then show "NewResponder example_config = Inr example_config"
    by (simp add: NewResponder_def)
  show "udpAddrPort (UDPAddr [203, 0, 113, 9] 50117) = Some \<lparr>ap_Addr = Addr4 [203, 0, 113, 9], ap_Port = 50117\<rparr>"
    by (simp add: udpAddrPort_def AddrFromSlice_def addr_IsUnspecified_def replicate_4)
qed

theorem HandleUDP_replies_to_sender_only_witness:
  "\<exists>tid m. length tid = 16 \<and> udpAddrPort (UDPAddr [203, 0, 113, 9] 50117) = Some m \<and>
     pc_sent (the (snd (HandleUDP example_config False (UDPAddr [203, 0, 113, 9] 50117)
        (request_bytes \<lparr>TransactionID = replicate 16 7, ChangeIP = False, ChangePort = False\<rparr>)
        (Some \<lparr>pc_script = [], pc_sent = []\<rparr>)))) =
     [(response_bytes tid \<lparr>MappedAddress = m, SourceAddress = cfg_SourceAddress example_config,
                            ChangedAddress = cfg_ChangedAddress example_config\<rparr>,
       UDPAddr [203, 0, 113, 9] 50117)]"
proof -
  let ?p = "UDPAddr [203, 0, 113, 9] 50117"
  let ?x = "request_bytes \<lparr>TransactionID = replicate 16 7, ChangeIP = False, ChangePort = False\<rparr>"
  let ?pc = "\<lparr>pc_script = [], pc_sent = []\<rparr> :: packet_conn"
  have wf: "addr_wf (ap_Addr (cfg_SourceAddress example_config))" "addr_wf (ap_Addr (cfg_ChangedAddress example_config))"
    by (simp_all add: example_config_def)
  obtain err pc' where h: "HandleUDP example_config False ?p ?x (Some ?pc) = (err, Some pc')"
    and sent: "pc_sent pc' \<noteq> pc_sent ?pc"
    using HandleUDP_eq [OF example_config_ok(1) wf refl _ example_config_ok(2) endpoint_ok_examples(1), of "replicate 16 7" ?pc] endpoint_ok_examples(1)
    by (auto simp: WriteTo_def Let_def)
  show ?thesis
    using HandleUDP_replies_to_sender_only [OF example_config_ok(1) wf h sent] h by auto
qed

end

