(* ===== verification/Std_Main.thy ===== *)
theory Std_Main
  imports Stun
begin

text \<open>
  What \<^verbatim>\<open>main\<close> uses of the standard library: the parsing of string flags (\<^verbatim>\<open>flag.FlagSet.Parse\<close>),
  \<^verbatim>\<open>filepath.Join\<close> of a slash-separated system, and \<^verbatim>\<open>netip.ParseAddrPort\<close>.
\<close>

section \<open>Flags\<close>

definition ErrHelp :: go_error where "ErrHelp = Message ''flag: help requested''"

text \<open>The name of a flag and its value if it has one: an equals sign cannot be first.\<close>

definition split_flag :: "gostring \<Rightarrow> gostring \<times> gostring option" where
  "split_flag name =
     (let i = IndexByte (drop 1 name) 61
      in if i < 0 then (name, None) else (take (nat i + 1) name, Some (drop (nat i + 2) name)))"

text \<open>The flags with their values, all of them strings, and the arguments; the result is the values and
  the positional arguments.\<close>

fun flag_Parse :: "(gostring, gostring) gomap \<Rightarrow> gostring list \<Rightarrow>
    go_error + (gostring, gostring) gomap \<times> gostring list" where
  "flag_Parse flags [] = Inr (flags, [])"
| "flag_Parse flags (s # args) =
     (if length s < 2 \<or> s ! 0 \<noteq> 45 then Inr (flags, s # args)
      else if s = [45, 45] then Inr (flags, args)
      else let name = drop (if s ! 1 = 45 then 2 else 1) s in
        if name ! 0 = 45 \<or> name ! 0 = 61 then Inl (Message ''bad flag syntax'')
        else (case split_flag name of
                (name, value) \<Rightarrow>
                  if map_of flags name = None
                  then Inl (if name = ascii ''help'' \<or> name = ascii ''h'' then ErrHelp
                            else Message ''flag provided but not defined'')
                  else (case value of
                          Some v \<Rightarrow> flag_Parse (AList.update name v flags) args
                        | None \<Rightarrow>
                            (case args of
                               [] \<Rightarrow> Inl (Message ''flag needs an argument'')
                             | v # args \<Rightarrow> flag_Parse (AList.update name v flags) args))))"

section \<open>Paths\<close>

fun split_slash :: "gostring \<Rightarrow> gostring list" where
  "split_slash [] = [[]]"
| "split_slash (c # s) =
     (if c = 47 then [] # split_slash s
      else case split_slash s of [] \<Rightarrow> [[c]] | e # es \<Rightarrow> (c # e) # es)"

text \<open>The elements that are kept, the last one first.\<close>

fun clean_elements :: "bool \<Rightarrow> gostring list \<Rightarrow> gostring list \<Rightarrow> gostring list" where
  "clean_elements rooted [] kept = kept"
| "clean_elements rooted (e # es) kept =
     (if e = [] \<or> e = [46] then clean_elements rooted es kept
      else if e = [46, 46]
      then (if kept \<noteq> [] \<and> hd kept \<noteq> [46, 46] then clean_elements rooted es (tl kept)
            else if rooted then clean_elements rooted es kept
            else clean_elements rooted es (e # kept))
      else clean_elements rooted es (e # kept))"

fun join_slash :: "gostring list \<Rightarrow> gostring" where
  "join_slash [] = []"
| "join_slash [e] = e"
| "join_slash (e # es) = e @ [47] @ join_slash es"

definition filepath_Clean :: "gostring \<Rightarrow> gostring" where
  "filepath_Clean path =
     (if path = [] then [46]
      else let rooted = path ! 0 = 47; kept = rev (clean_elements rooted (split_slash path) [])
        in if rooted then [47] @ join_slash kept else if kept = [] then [46] else join_slash kept)"

definition filepath_Join :: "gostring \<Rightarrow> gostring \<Rightarrow> gostring" where
  "filepath_Join dir name =
     (if dir = [] then (if name = [] then [] else filepath_Clean name) else filepath_Clean (dir @ [47] @ name))"

lemma filepath_Clean_not_empty: "filepath_Clean path \<noteq> []"
proof -
  have kept: "e \<noteq> []" if "e \<in> set (clean_elements rooted es kept)" "\<forall>e\<in>set kept. e \<noteq> []" for e rooted es kept
    using that by (induction rooted es kept rule: clean_elements.induct) (auto split: if_splits dest: list.set_sel(2))
  have "join_slash es \<noteq> []" if "es \<noteq> []" "\<forall>e\<in>set es. e \<noteq> []" for es
    using that by (induction es rule: join_slash.induct) auto
  with kept [of _ _ _ "[]"] show ?thesis by (auto simp: filepath_Clean_def Let_def)
qed

section \<open>Addresses with a port\<close>

definition ParseUint16 :: "gostring \<Rightarrow> u16 option" where
  "ParseUint16 s =
     (if s = [] \<or> (\<exists>c\<in>set s. \<not> (48 \<le> c \<and> c \<le> 57)) then None
      else let v = foldl (\<lambda>v c. v * 10 + (unat c - 48)) 0 s
        in if v > 65535 then None else Some (word_of_nat v))"

text \<open>The text of the address, that of the port, and whether the address was in brackets.\<close>

definition splitAddrPort :: "gostring \<Rightarrow> (gostring \<times> gostring \<times> bool) option" where
  "splitAddrPort s =
     (let i = LastIndexByte s 58
      in if i < 0 then None
         else let ip = take (nat i) s; port = drop (nat i + 1) s
           in if ip = [] then None
              else if port = [] then None
              else if ip ! 0 = 91
              then (if length ip < 2 \<or> last ip \<noteq> 93 then None else Some (slice 1 (length ip - 1) ip, port, True))
              else Some (ip, port, False))"

definition ParseAddrPort :: "gostring \<Rightarrow> AddrPort option" where
  "ParseAddrPort s =
     (case splitAddrPort s of
        None \<Rightarrow> None
      | Some (ip, port, ipv6) \<Rightarrow>
          (case ParseUint16 port of
             None \<Rightarrow> None
           | Some port \<Rightarrow>
               (case ParseAddr ip of
                  None \<Rightarrow> None
                | Some address \<Rightarrow>
                    if ipv6 \<and> addr_Is4 address then None
                    else if \<not> ipv6 \<and> addr_Is6 address then None
                    else Some \<lparr>ap_Addr = address, ap_Port = port\<rparr>)))"

text \<open>A number as text.\<close>

fun decimal_text :: "nat \<Rightarrow> gostring" where
  "decimal_text n = (if n < 10 then [] else decimal_text (n div 10)) @ [word_of_nat (48 + n mod 10)]"

declare decimal_text.simps [simp del]

definition addr_port_text :: "bytes \<Rightarrow> u16 \<Rightarrow> gostring" where
  "addr_port_text ip port = string4 ip @ [58] @ decimal_text (unat port)"

lemma decimal_read:
  "(\<forall>c\<in>set (decimal_text n). 48 \<le> c \<and> c \<le> 57) \<and> foldl (\<lambda>v c. v * 10 + (unat c - 48)) 0 (decimal_text n) = n \<and> decimal_text n \<noteq> []"
proof (induction n rule: decimal_text.induct)
  case (1 n)
  have d: "n mod 10 < 10" by simp
  note digit = decimal_digit [OF d]
  show ?case
  proof (cases "n < 10")
    case True
    then show ?thesis using digit by (simp add: decimal_text.simps [of n] del: of_nat_add)
  next
    case False
    with 1 digit show ?thesis by (auto simp: decimal_text.simps [of n] simp del: of_nat_add)
  qed
qed

lemma ParseUint16_decimal: "ParseUint16 (decimal_text (unat port)) = Some port"
proof -
  have "unat port < 65536" using unsigned_less [of port] by simp
  then show ?thesis using decimal_read [of "unat port"] by (auto simp: ParseUint16_def)
qed

lemma ParseAddrPort_text:
  assumes "length ip = 4"
  shows "ParseAddrPort (addr_port_text ip port) = Some \<lparr>ap_Addr = Addr4 ip, ap_Port = port\<rparr>"
proof -
  have digits: "48 \<le> c \<and> c \<le> 57" if "c \<in> set (decimal_text (unat port))" for c using that decimal_read by blast
  have "58 \<notin> set (rev (decimal_text (unat port)))" using digits [of 58] by (auto simp: word_le_nat_alt)
  then have i: "LastIndexByte (addr_port_text ip port) 58 = int (length (string4 ip))"
    by (simp add: LastIndexByte_def addr_port_text_def)
  have s: "string4 ip \<noteq> []" "string4 ip ! 0 \<noteq> 91"
    using decimal_byte_digits [of "decimal_byte (ip ! 0) ! 0" "ip ! 0"]
    by (auto simp: string4_def nth_append word_le_nat_alt)
  have "splitAddrPort (addr_port_text ip port) = Some (string4 ip, decimal_text (unat port), False)"
    unfolding splitAddrPort_def i Let_def using s decimal_read [of "unat port"] by (simp add: addr_port_text_def)
  then show ?thesis by (simp add: ParseAddrPort_def ParseUint16_decimal ParseAddr_string4 [OF assms])
qed

end
