(* ===== verification/Std_Bufio.thy ===== *)
theory Std_Bufio
  imports Connection
begin

text \<open>
  The part of package bufio the router uses. A \<^verbatim>\<open>bufio.Reader\<close> holds the bytes it has read from the
  connection and not yet delivered; \<open>rd_cuts\<close> is how the network cuts the coming bytes, the number a
  coming \<^verbatim>\<open>Read\<close> of the connection delivers less one (when exhausted, a \<^verbatim>\<open>Read\<close> fills the space it is
  given). What a reader delivers is shown not to depend on the cuts.
\<close>

record bufio_reader =
  rd_buf :: bytes
  rd_stream :: go_stream
  rd_cuts :: "nat list"

definition defaultBufSize :: nat where "defaultBufSize = 4096"

definition NewReader :: "go_stream \<Rightarrow> nat list \<Rightarrow> bufio_reader" where
  "NewReader stream cuts = \<lparr>rd_buf = [], rd_stream = stream, rd_cuts = cuts\<rparr>"

text \<open>A \<^verbatim>\<open>Read\<close> of the connection into \<open>space\<close> bytes, where at least one byte has arrived.\<close>

definition raw_Read :: "nat \<Rightarrow> bufio_reader \<Rightarrow> bytes \<times> bufio_reader" where
  "raw_Read space r =
     (let n = (case rd_cuts r of [] \<Rightarrow> space | k # _ \<Rightarrow> min (Suc k) space)
      in (take n (st_bytes (rd_stream r)),
          r\<lparr>rd_stream := rd_stream r\<lparr>st_bytes := drop n (st_bytes (rd_stream r))\<rparr>, rd_cuts := tl (rd_cuts r)\<rparr>))"

definition stream_error :: "go_stream \<Rightarrow> go_error" where
  "stream_error s = (case st_end s of StreamEOF \<Rightarrow> IoErr EOF | StreamFails e \<Rightarrow> e)"

text \<open>\<^verbatim>\<open>fill\<close>: the buffered bytes are moved to the front and one \<^verbatim>\<open>Read\<close> appends to them.\<close>

definition bufio_fill :: "bufio_reader \<Rightarrow> bufio_reader" where
  "bufio_fill r = (case raw_Read (defaultBufSize - length (rd_buf r)) r of
     (bs, r) \<Rightarrow> r\<lparr>rd_buf := rd_buf r @ bs\<rparr>)"

lemma raw_Read_result:
  assumes "raw_Read space r = (bs, r')"
  shows "st_bytes (rd_stream r) = bs @ st_bytes (rd_stream r')" "st_end (rd_stream r') = st_end (rd_stream r)"
    and "rd_buf r' = rd_buf r" "length bs \<le> space" "0 < space \<Longrightarrow> st_bytes (rd_stream r) \<noteq> [] \<Longrightarrow> bs \<noteq> []"
  using assms by (auto simp: raw_Read_def Let_def split: list.splits)

text \<open>The loop of \<^verbatim>\<open>Peek\<close>: until enough bytes are buffered, the buffer is full, or the connection ends.\<close>

function fill_until :: "nat \<Rightarrow> bufio_reader \<Rightarrow> bufio_reader" where
  "fill_until n r =
     (if length (rd_buf r) < n \<and> length (rd_buf r) < defaultBufSize \<and> st_bytes (rd_stream r) \<noteq> []
      then fill_until n (bufio_fill r) else r)"
  by pat_completeness auto
termination
proof (relation "measure (\<lambda>(n, r). length (st_bytes (rd_stream r)))", simp)
  fix n and r :: bufio_reader
  assume a: "length (rd_buf r) < n \<and> length (rd_buf r) < defaultBufSize \<and> st_bytes (rd_stream r) \<noteq> []"
  obtain bs r1 where r1: "raw_Read (defaultBufSize - length (rd_buf r)) r = (bs, r1)" by (metis surj_pair)
  have "bs \<noteq> []" using raw_Read_result(5) [OF r1] a by simp
  then have "length (st_bytes (rd_stream r1)) < length (st_bytes (rd_stream r))"
    using raw_Read_result(1) [OF r1] by simp
  then show "((n, bufio_fill r), n, r) \<in> measure (\<lambda>(n, r). length (st_bytes (rd_stream r)))"
    by (simp add: bufio_fill_def r1)
qed

declare fill_until.simps [simp del]

definition Peek :: "nat \<Rightarrow> (bufio_reader, bytes) go" where
  "Peek n r =
     (let r = fill_until n r
      in if n > defaultBufSize then (Inl (Message ''bufio: buffer full''), r)
         else if length (rd_buf r) < n then (Inl (stream_error (rd_stream r)), r)
         else (Inr (take n (rd_buf r)), r))"

definition bufio_Read :: "nat \<Rightarrow> (bufio_reader, bytes) go" where
  "bufio_Read n r =
     (if n = 0 then (Inr [], r)
      else if rd_buf r = [] \<and> st_bytes (rd_stream r) = [] then (Inl (stream_error (rd_stream r)), r)
      else if rd_buf r = [] \<and> n \<ge> defaultBufSize then (case raw_Read n r of (bs, r) \<Rightarrow> (Inr bs, r))
      else let r = (if rd_buf r = [] then bufio_fill r else r)
           in (Inr (take n (rd_buf r)), r\<lparr>rd_buf := drop n (rd_buf r)\<rparr>))"

section \<open>The bytes a reader will deliver\<close>

definition reader_stream :: "bufio_reader \<Rightarrow> go_stream" where
  "reader_stream r = \<lparr>st_bytes = rd_buf r @ st_bytes (rd_stream r), st_end = st_end (rd_stream r)\<rparr>"

definition reader_ok :: "bufio_reader \<Rightarrow> bool" where
  "reader_ok r \<longleftrightarrow> length (rd_buf r) \<le> defaultBufSize"

lemma reader_stream_New [simp]: "reader_stream (NewReader s cuts) = s" "reader_ok (NewReader s cuts)"
  by (simp_all add: reader_stream_def NewReader_def reader_ok_def)

lemma bufio_fill_result:
  assumes "reader_ok r"
  shows "reader_stream (bufio_fill r) = reader_stream r" "reader_ok (bufio_fill r)"
    and "rd_buf r = [] \<Longrightarrow> st_bytes (rd_stream r) \<noteq> [] \<Longrightarrow> rd_buf (bufio_fill r) \<noteq> []"
proof -
  obtain bs r1 where r1: "raw_Read (defaultBufSize - length (rd_buf r)) r = (bs, r1)" by (metis surj_pair)
  note f = raw_Read_result [OF r1]
  show "reader_stream (bufio_fill r) = reader_stream r" "reader_ok (bufio_fill r)"
    using f(1-4) assms by (simp_all add: bufio_fill_def r1 reader_stream_def reader_ok_def)
  show "rd_buf (bufio_fill r) \<noteq> []" if "rd_buf r = []" "st_bytes (rd_stream r) \<noteq> []"
  proof -
    have "bs \<noteq> []" using f(5) that by (simp add: defaultBufSize_def)
    then show ?thesis by (simp add: bufio_fill_def r1)
  qed
qed

lemma fill_until_result:
  "reader_ok r \<Longrightarrow> reader_stream (fill_until n r) = reader_stream r \<and> reader_ok (fill_until n r) \<and>
     (n \<le> length (rd_buf (fill_until n r)) \<or> length (rd_buf (fill_until n r)) = defaultBufSize \<or>
      st_bytes (rd_stream (fill_until n r)) = [])"
proof (induction n r rule: fill_until.induct)
  case (1 n r)
  show ?case
  proof (cases "length (rd_buf r) < n \<and> length (rd_buf r) < defaultBufSize \<and> st_bytes (rd_stream r) \<noteq> []")
    case True
    with "1.IH" [OF True] bufio_fill_result [OF "1.prems"] show ?thesis by (simp add: fill_until.simps [of n r])
  next
    case False
    with "1.prems" show ?thesis by (subst (1 2 3 4 5) fill_until.simps) (auto simp: reader_ok_def)
  qed
qed

text \<open>Peeking reads the start of the stream and consumes nothing.\<close>

lemma Peek_result:
  assumes "reader_ok r" and "n \<le> defaultBufSize" and "Peek n r = (x, r')"
  shows "reader_stream r' = reader_stream r" "reader_ok r'"
    and "x = (if n \<le> length (st_bytes (reader_stream r)) then Inr (take n (st_bytes (reader_stream r)))
      else Inl (stream_error (reader_stream r)))"
proof -
  let ?r = "fill_until n r"
  note f = fill_until_result [OF assms(1), of n]
  have r': "r' = ?r" and x: "x = (if length (rd_buf ?r) < n then Inl (stream_error (rd_stream ?r)) else Inr (take n (rd_buf ?r)))"
    using assms(2,3) by (auto simp: Peek_def Let_def split: if_splits)
  show "reader_stream r' = reader_stream r" "reader_ok r'" using f r' by simp_all
  have s: "reader_stream r = \<lparr>st_bytes = rd_buf ?r @ st_bytes (rd_stream ?r), st_end = st_end (rd_stream ?r)\<rparr>"
    using f by (simp add: reader_stream_def)
  show "x = (if n \<le> length (st_bytes (reader_stream r)) then Inr (take n (st_bytes (reader_stream r)))
      else Inl (stream_error (reader_stream r)))"
  proof (cases "length (rd_buf ?r) < n")
    case True
    then have "st_bytes (rd_stream ?r) = []" using f assms(2) by (auto simp: reader_ok_def)
    with True show ?thesis unfolding x s by (simp add: stream_error_def)
  next
    case False
    then show ?thesis unfolding x s by simp
  qed
qed

lemma bufio_Read_result:
  assumes "reader_ok r" and "0 < n" and "bufio_Read n r = (x, r')"
  shows "reader_ok r'" "st_end (reader_stream r') = st_end (reader_stream r)"
    and "st_bytes (reader_stream r) = [] \<and> x = Inl (stream_error (reader_stream r)) \<and> r' = r \<or>
      (\<exists>bs. x = Inr bs \<and> bs \<noteq> [] \<and> length bs \<le> n \<and> st_bytes (reader_stream r) = bs @ st_bytes (reader_stream r'))"
proof -
  have "reader_ok r' \<and> st_end (reader_stream r') = st_end (reader_stream r) \<and>
     (st_bytes (reader_stream r) = [] \<and> x = Inl (stream_error (reader_stream r)) \<and> r' = r \<or>
      (\<exists>bs. x = Inr bs \<and> bs \<noteq> [] \<and> length bs \<le> n \<and> st_bytes (reader_stream r) = bs @ st_bytes (reader_stream r')))"
  proof (cases "rd_buf r = []")
    case True
    show ?thesis
    proof (cases "st_bytes (rd_stream r) = []")
      case True
      with \<open>rd_buf r = []\<close> assms show ?thesis
        by (auto simp: bufio_Read_def reader_stream_def stream_error_def)
    next
      case ne: False
      show ?thesis
      proof (cases "n \<ge> defaultBufSize")
        case True
        obtain bs r1 where r1: "raw_Read n r = (bs, r1)" by (metis surj_pair)
        note f = raw_Read_result [OF r1]
        have "x = Inr bs" "r' = r1" using assms \<open>rd_buf r = []\<close> ne True r1 by (auto simp: bufio_Read_def)
        with f \<open>rd_buf r = []\<close> ne assms(2) show ?thesis by (auto simp: reader_ok_def reader_stream_def)
      next
        case False
        let ?r = "bufio_fill r"
        note f = bufio_fill_result [OF assms(1)]
        have "x = Inr (take n (rd_buf ?r))" "r' = ?r\<lparr>rd_buf := drop n (rd_buf ?r)\<rparr>"
          using assms(2,3) \<open>rd_buf r = []\<close> ne False by (auto simp: bufio_Read_def Let_def)
        moreover have "take n (rd_buf ?r) \<noteq> []" using f(3) \<open>rd_buf r = []\<close> ne assms(2) by simp
        moreover have td: "take n b @ drop n b @ c = b @ c" for b c :: bytes
          by (metis append_assoc append_take_drop_id)
        ultimately show ?thesis using f(1,2) by (auto simp: reader_ok_def reader_stream_def td)
      qed
    qed
  next
    case False
    have "x = Inr (take n (rd_buf r))" "r' = r\<lparr>rd_buf := drop n (rd_buf r)\<rparr>"
      using assms(2,3) False by (auto simp: bufio_Read_def)
    with False assms(1,2) show ?thesis by (auto simp: reader_ok_def reader_stream_def)
  qed
  then show "reader_ok r'" "st_end (reader_stream r') = st_end (reader_stream r)"
    "st_bytes (reader_stream r) = [] \<and> x = Inl (stream_error (reader_stream r)) \<and> r' = r \<or>
      (\<exists>bs. x = Inr bs \<and> bs \<noteq> [] \<and> length bs \<le> n \<and> st_bytes (reader_stream r) = bs @ st_bytes (reader_stream r'))"
    by blast+
qed

section \<open>Reading\<close>

text \<open>\<^verbatim>\<open>io.ReadFull\<close> on a reader: its \<^verbatim>\<open>Read\<close> is called until the slice is full; the error of a \<^verbatim>\<open>Read\<close>
  that delivers nothing ends it. The bytes read so far are the argument \<open>got\<close>.\<close>

function io_ReadFull :: "(nat \<Rightarrow> ('r, bytes) go) \<Rightarrow> nat \<Rightarrow> bytes \<Rightarrow> ('r, bytes) go" where
  "io_ReadFull read n got r =
     (if n \<le> length got then (Inr got, r)
      else (case read (n - length got) r of
              (Inl e, r) \<Rightarrow> (Inl (if got \<noteq> [] \<and> e = IoErr EOF then IoErr ErrUnexpectedEOF else e), r)
            | (Inr bs, r) \<Rightarrow> if bs = [] then (Inr got, r) else io_ReadFull read n (got @ bs) r))"
  by pat_completeness auto
termination
  by (relation "measure (\<lambda>(read, n, got, r). n - length got)") (auto intro: diff_less_mono2)

declare io_ReadFull.simps [simp del]

text \<open>It delivers what \<^verbatim>\<open>io.ReadFull\<close> delivers on the stream of bytes, however the network cuts it.\<close>

lemma io_ReadFull_result:
  "reader_ok r \<Longrightarrow> length got \<le> n \<Longrightarrow> st_end (reader_stream r) \<noteq> StreamFails (IoErr EOF) \<Longrightarrow>
   \<exists>x r'. io_ReadFull bufio_Read n got r = (x, r') \<and> reader_ok r' \<and>
     (x, reader_stream r') = ReadFull n \<lparr>st_bytes = got @ st_bytes (reader_stream r), st_end = st_end (reader_stream r)\<rparr>"
proof (induction bufio_Read n got r rule: io_ReadFull.induct)
  case (1 n got r)
  show ?case
  proof (cases "n = length got")
    case True
    then have "io_ReadFull bufio_Read n got r = (Inr got, r)" by (subst io_ReadFull.simps) simp
    moreover have "(Inr got, reader_stream r) =
        ReadFull n \<lparr>st_bytes = got @ st_bytes (reader_stream r), st_end = st_end (reader_stream r)\<rparr>"
      using True by (simp add: ReadFull_def reader_stream_def)
    ultimately show ?thesis using "1.prems"(1) by blast
  next
    case False
    then have short: "\<not> n \<le> length got" "0 < n - length got" using "1.prems" by simp_all
    obtain x r1 where x: "bufio_Read (n - length got) r = (x, r1)" by (metis surj_pair)
    note res = bufio_Read_result [OF "1.prems"(1) short(2) x]
    from res(3) show ?thesis
    proof (elim disjE conjE exE)
      assume e: "st_bytes (reader_stream r) = []" "x = Inl (stream_error (reader_stream r))" "r1 = r"
      have "\<lparr>st_bytes = [], st_end = st_end (reader_stream r)\<rparr> = reader_stream r"
        using e(1) by (cases "reader_stream r") simp
      then show ?thesis
        using short(1) x e "1.prems" by (auto simp: io_ReadFull.simps [of bufio_Read n got r] ReadFull_def stream_error_def split: stream_end.splits)
    next
      fix bs assume b: "x = Inr bs" "bs \<noteq> []" "length bs \<le> n - length got"
        "st_bytes (reader_stream r) = bs @ st_bytes (reader_stream r1)"
      have "\<exists>y r'. io_ReadFull bufio_Read n (got @ bs) r1 = (y, r') \<and> reader_ok r' \<and>
         (y, reader_stream r') = ReadFull n \<lparr>st_bytes = (got @ bs) @ st_bytes (reader_stream r1), st_end = st_end (reader_stream r1)\<rparr>"
        by (rule "1.hyps" [OF short(1) _ b(1) b(2)]) (use x b "1.prems" res in simp_all)
      with short(1) x b res(2) show ?thesis by (simp add: io_ReadFull.simps [of bufio_Read n got r])
    qed
  qed
qed

end
