(* ===== verification/Router.thy ===== *)
theory Router
  imports Std_Bufio Auth_Handler Lobby_Login
begin

text \<open>
  \<^verbatim>\<open>internal/online/backend/router.go\<close>: one TCP port serves both servers. The router peeks at the start
  of a connection, skips a bounded number of leading control records, and hands the connection to the
  handler its first frame is for, with everything it has read put back (\<^verbatim>\<open>bufferedConn\<close>).
\<close>

definition maxLeadingControlRecords :: nat where "maxLeadingControlRecords = 32"
definition maxInitialFrameBody :: u32 where "maxInitialFrameBody = 256"
definition DefaultInitialReadTimeout :: int where "DefaultInitialReadTimeout = 10 * Second"

text \<open>A \<^verbatim>\<open>TCPHandler\<close> works on the connection and on a state of its own.\<close>

type_synonym 's tcp_handler = "conn \<times> 's \<Rightarrow> go_error option \<times> conn \<times> 's"

record 's TCPRouter =
  tr_auth :: "'s tcp_handler"
  tr_lobby :: "'s tcp_handler"
  tr_initialReadTimeout :: int

text \<open>\<open>None\<close> is a nil handler.\<close>

definition newTCPRouter :: "'s tcp_handler option \<Rightarrow> 's tcp_handler option \<Rightarrow> int \<Rightarrow> go_error + 's TCPRouter" where
  "newTCPRouter authHandler lobbyHandler initialReadTimeout =
     (if authHandler = None \<or> lobbyHandler = None
      then Inl (Message ''backend: authentication and lobby handlers are required'')
      else if initialReadTimeout < 10 * Millisecond \<or> initialReadTimeout > Minute
      then Inl (Message ''backend: initial read timeout must be between 10ms and 1m'')
      else Inr \<lparr>tr_auth = the authHandler, tr_lobby = the lobbyHandler,
                tr_initialReadTimeout = initialReadTimeout\<rparr>)"

definition NewTCPRouter :: "'s tcp_handler option \<Rightarrow> 's tcp_handler option \<Rightarrow> go_error + 's TCPRouter" where
  "NewTCPRouter authHandler lobbyHandler = newTCPRouter authHandler lobbyHandler DefaultInitialReadTimeout"

section \<open>Routing\<close>

text \<open>What the loop ends in: the error it returns, or the handler it calls.\<close>

datatype route = RouteEnds "go_error option" | RouteAuth | RouteLobby

definition unsupported :: "string \<Rightarrow> route" where
  "unsupported detail = RouteEnds (Some (Context detail (RouterErr ErrUnsupportedInitialMessage)))"

text \<open>The loop; the first argument counts the iterations left.\<close>

fun route_loop :: "nat \<Rightarrow> nat \<Rightarrow> bufio_reader \<Rightarrow> route \<times> bufio_reader" where
  "route_loop 0 offset reader = (unsupported ''too many leading control records'', reader)"
| "route_loop (Suc left) offset reader =
     (case Peek (offset + FramePrefixSize) reader of
        (Inl e, reader) \<Rightarrow> (RouteEnds (if errors_is e (IoErr EOF) then None else Some e), reader)
      | (Inr head, reader) \<Rightarrow>
          let bodySize = LE_Uint32 (slice offset (offset + FramePrefixSize) head) in
          if bodySize = LobbyKeepaliveBodyLen then route_loop left (offset + FramePrefixSize) reader
          else if unat bodySize = BufferAvailableRecordMarker then route_loop left (offset + 8) reader
          else if bodySize < 2 \<or> bodySize > maxInitialFrameBody then (unsupported ''initial frame body size'', reader)
          else (case Peek (offset + FramePrefixSize + 2) reader of
                  (Inl e, reader) \<Rightarrow> (RouteEnds (Some e), reader)
                | (Inr header, reader) \<Rightarrow>
                    let bodyOffset = offset + FramePrefixSize in
                    if header ! bodyOffset \<noteq> 0 then (unsupported ''encrypted initial frame'', reader)
                    else let messageType = header ! (bodyOffset + 1) in
                      (case Peek (offset + FramePrefixSize + unat bodySize) reader of
                         (Inl e, reader) \<Rightarrow> (RouteEnds (Some e), reader)
                       | (Inr _, reader) \<Rightarrow>
                           (if messageType = MessageCreateAccountRequest \<or> messageType = MessageAccountForMMPRequest
                            then RouteAuth
                            else if messageType = LSGServiceID then RouteLobby
                            else unsupported ''type'', reader))))"

text \<open>\<^verbatim>\<open>bufferedConn\<close>: reads go to the buffered reader, everything else to the connection.\<close>

definition bufferedConn_Read :: "nat \<Rightarrow> (bufio_reader, bytes) go" where
  "bufferedConn_Read n reader = bufio_Read n reader"

definition bufferedConn :: "conn \<Rightarrow> bufio_reader \<Rightarrow> conn" where
  "bufferedConn connection reader = connection\<lparr>cn_in := reader_stream reader\<rparr>"

text \<open>\<open>cuts\<close> says how the network cuts the bytes of the connection.\<close>

definition router_HandleTCP :: "'s TCPRouter \<Rightarrow> nat list \<Rightarrow> 's tcp_handler" where
  "router_HandleTCP router cuts st =
     (case st of (connection, s) \<Rightarrow>
       (case time_Now connection of (now, connection) \<Rightarrow>
         (case SetReadDeadline (now + tr_initialReadTimeout router) connection of
            (Inl e, connection) \<Rightarrow> (Some e, connection, s)
          | (Inr _, connection) \<Rightarrow>
              (case route_loop (Suc maxLeadingControlRecords) 0 (NewReader (cn_in connection) cuts) of
                 (RouteEnds e, reader) \<Rightarrow> (e, connection\<lparr>cn_in := rd_stream reader\<rparr>, s)
               | (RouteAuth, reader) \<Rightarrow> tr_auth router (bufferedConn connection reader, s)
               | (RouteLobby, reader) \<Rightarrow> tr_lobby router (bufferedConn connection reader, s)))))"

section \<open>The routing of a stream of bytes\<close>

text \<open>The same decision, made record by record.\<close>

fun route_of :: "nat \<Rightarrow> go_error \<Rightarrow> bytes \<Rightarrow> route" where
  "route_of 0 e bs = unsupported ''too many leading control records''"
| "route_of (Suc left) e bs =
     (if length bs < 4 then RouteEnds (if errors_is e (IoErr EOF) then None else Some e)
      else let n = unat (LE_Uint32 (take 4 bs)); body = drop 4 bs in
        if n = 0 then route_of left e body
        else if n = 200 then route_of left e (drop 4 body)
        else if n < 2 \<or> 256 < n then unsupported ''initial frame body size''
        else if length body < 2 then RouteEnds (Some e)
        else if body ! 0 \<noteq> 0 then unsupported ''encrypted initial frame''
        else if length body < n then RouteEnds (Some e)
        else if body ! 1 = 0 \<or> body ! 1 = 0x0a then RouteAuth
        else if body ! 1 = 0x07 then RouteLobby
        else unsupported ''type'')"

lemma route_consts: "FramePrefixSize = 4" "LobbyKeepaliveBodyLen = 0" "BufferAvailableRecordMarker = 200"
  "MessageCreateAccountRequest = 0" "MessageAccountForMMPRequest = 0x0a" "LSGServiceID = 0x07" "maxInitialFrameBody = 256"
  by (simp_all add: FramePrefixSize_def LobbyKeepaliveBodyLen_def BufferAvailableRecordMarker_def
      MessageCreateAccountRequest_def MessageAccountForMMPRequest_def LSGServiceID_def maxInitialFrameBody_def)

lemma route_loop_eq:
  assumes "reader_ok r" and "offset + 8 * left + 260 \<le> defaultBufSize"
  shows "\<exists>r'. route_loop left offset r =
      (route_of left (stream_error (reader_stream r)) (drop offset (st_bytes (reader_stream r))), r') \<and>
    reader_stream r' = reader_stream r \<and> reader_ok r'"
  using assms
proof (induction left arbitrary: offset r)
  case (Suc left)
  let ?bs = "st_bytes (reader_stream r)" and ?e = "stream_error (reader_stream r)"
  obtain x r1 where p1: "Peek (offset + 4) r = (x, r1)" by (metis surj_pair)
  note r1 = Peek_result [OF Suc.prems(1) _ p1]
  have o1: "offset + 4 \<le> defaultBufSize" using Suc.prems(2) by simp
  show ?case
  proof (cases "offset + 4 \<le> length ?bs")
    case False
    then have "length ?bs - offset < 4" by simp
    with False r1 [OF o1] p1 show ?thesis by (simp add: route_consts)
  next
    case True
    then have len: "offset + 4 \<le> length ?bs" "\<not> length ?bs - offset < 4" by simp_all
    have x: "x = Inr (take (offset + 4) ?bs)" "reader_stream r1 = reader_stream r" "reader_ok r1"
      using r1 [OF o1] len by simp_all
    let ?size = "LE_Uint32 (take 4 (drop offset ?bs))" and ?body = "drop (offset + 4) ?bs"
    have size: "LE_Uint32 (slice offset (offset + 4) (take (offset + 4) ?bs)) = ?size"
      by (simp add: slice_def drop_take)
    have rest: "\<exists>r'. route_loop left off r1 = (route_of left ?e (drop off ?bs), r') \<and>
        reader_stream r' = reader_stream r \<and> reader_ok r'"
      if "off \<le> offset + 8" for off
      using Suc.IH [OF x(3), of off] Suc.prems(2) that x(2) by simp
    have body: "drop 4 (drop offset ?bs) = ?body" "drop 4 ?body = drop (offset + 8) ?bs"
      by (simp_all add: add.commute)
    consider (keep) "?size = 0" | (avail) "?size \<noteq> 0" "unat ?size = 200" | (bad) "?size \<noteq> 0" "unat ?size \<noteq> 200" "unat ?size < 2 \<or> 256 < unat ?size"
      | (frame) "?size \<noteq> 0" "unat ?size \<noteq> 200" "2 \<le> unat ?size" "unat ?size \<le> 256"
      by linarith
    then show ?thesis
    proof cases
      case keep
      with rest [of "offset + 4"] p1 x len size body show ?thesis
        by (simp add: route_consts unat_eq_0)
    next
      case avail
      with rest [of "offset + 8"] p1 x len size body show ?thesis
        by (simp add: route_consts unat_eq_0)
    next
      case bad
      then have "?size < 2 \<or> ?size > 256" by (simp add: word_less_nat_alt)
      with bad p1 x len size body show ?thesis
        by (simp add: route_consts unat_eq_0)
    next
      case frame
      then have small: "\<not> ?size < 2" "\<not> ?size > 256" by (simp_all add: word_less_nat_alt)
      obtain y r2 where p2: "Peek (offset + 4 + 2) r1 = (y, r2)" by (metis surj_pair)
      have o2: "offset + 4 + 2 \<le> defaultBufSize" using Suc.prems(2) by simp
      note r2 = Peek_result [OF x(3) o2 p2]
      show ?thesis
      proof (cases "offset + 4 + 2 \<le> length ?bs")
        case False
        then have "length ?bs - (offset + 4) < 2" by simp
        with False frame small p1 p2 r2 x len size body show ?thesis
          by (simp add: route_consts unat_eq_0)
      next
        case True
        then have len2: "offset + 4 + 2 \<le> length ?bs" "\<not> length ?bs - (offset + 4) < 2" by simp_all
        have y: "y = Inr (take (offset + 4 + 2) ?bs)" "reader_stream r2 = reader_stream r" "reader_ok r2"
          using r2 len2 x by simp_all
        have hd: "take (offset + 4 + 2) ?bs ! (offset + 4) = ?body ! 0" "take (offset + 4 + 2) ?bs ! (offset + 4 + 1) = ?body ! 1"
          using len2 by simp_all
        obtain z r3 where p3: "Peek (offset + 4 + unat ?size) r2 = (z, r3)" by (metis surj_pair)
        have o3: "offset + 4 + unat ?size \<le> defaultBufSize" using Suc.prems(2) frame(4) by simp
        note r3 = Peek_result [OF y(3) o3 p3]
        have z: "z = (if offset + 4 + unat ?size \<le> length ?bs then Inr (take (offset + 4 + unat ?size) ?bs) else Inl ?e)"
          "reader_stream r3 = reader_stream r" "reader_ok r3"
          using r3 y by simp_all
        have len3: "length ?bs - (offset + 4) < unat ?size \<longleftrightarrow> \<not> offset + 4 + unat ?size \<le> length ?bs"
          using len by auto
        show ?thesis
        proof (cases "?body ! 0 = 0")
          case True
          with frame small p1 p2 p3 x y z len len2 len3 size body hd show ?thesis
            by (auto simp: route_consts unat_eq_0 Let_def)
        next
          case False
          with frame small p1 p2 x y len len2 size body hd show ?thesis
            by (simp add: route_consts unat_eq_0 Let_def)
        qed
      qed
    qed
  qed
qed (auto simp: unsupported_def)

section \<open>Which streams are handed on\<close>

definition control_record :: "TransportRecord \<Rightarrow> bool" where
  "control_record rec \<longleftrightarrow> Kind rec \<noteq> RecordKindFrame \<and> record_ok 0 rec"

definition handler_for :: "byte \<Rightarrow> route option" where
  "handler_for messageType =
     (if messageType = MessageCreateAccountRequest \<or> messageType = MessageAccountForMMPRequest then Some RouteAuth
      else if messageType = LSGServiceID then Some RouteLobby else None)"

definition opens_with :: "nat \<Rightarrow> route \<Rightarrow> bytes \<Rightarrow> bool" where
  "opens_with n h bs \<longleftrightarrow>
     (\<exists>controls body rest. bs = concat (map record_bytes controls) @ frame_bytes body @ rest \<and>
        length controls < n \<and> (\<forall>c\<in>set controls. control_record c) \<and>
        2 \<le> length body \<and> length body \<le> 256 \<and> length body \<noteq> 200 \<and> body ! 0 = 0 \<and> handler_for (body ! 1) = Some h)"

lemma length_prefix_bytes: "4 \<le> length bs \<Longrightarrow> LE_PutUint32 (LE_Uint32 (take 4 bs)) = take 4 bs"
  by (rule le_bytes_le_word) auto

lemma opens_with_frame:
  assumes "4 \<le> length bs" and "n = unat (LE_Uint32 (take 4 bs))" and "n \<le> length (drop 4 bs)"
    and "2 \<le> n" "n \<le> 256" "n \<noteq> 200" "bs ! 4 = 0" "handler_for (bs ! 5) = Some h"
  shows "opens_with (Suc k) h bs"
proof -
  let ?body = "take n (drop 4 bs)"
  have len: "length ?body = n" using assms(3) by simp
  have "word_of_nat n = LE_Uint32 (take 4 bs)" using assms(2) by simp
  then have "take 4 bs = LE_PutUint32 (word_of_nat (length ?body))"
    unfolding len by (simp only: length_prefix_bytes [OF assms(1)])
  then have "bs = concat (map record_bytes []) @ frame_bytes ?body @ drop n (drop 4 bs)"
    unfolding frame_bytes_def by (simp del: drop_drop) (metis append_take_drop_id)
  moreover have "?body ! 0 = 0" "handler_for (?body ! 1) = Some h" using assms(3-8) by simp_all
  ultimately show ?thesis
    unfolding opens_with_def using len assms(4-6) by (intro exI [of _ "[]"] exI [of _ ?body] exI [of _ "drop n (drop 4 bs)"]) simp
qed

lemma opens_with_control:
  assumes "control_record c" and "bs = record_bytes c @ later" and "opens_with k h later"
  shows "opens_with (Suc k) h bs"
proof -
  obtain controls body rest where o: "later = concat (map record_bytes controls) @ frame_bytes body @ rest"
    "length controls < k" "\<forall>c\<in>set controls. control_record c" "2 \<le> length body" "length body \<le> 256"
    "length body \<noteq> 200" "body ! 0 = 0" "handler_for (body ! 1) = Some h"
    using assms(3) unfolding opens_with_def by blast
  then show ?thesis
    unfolding opens_with_def using assms(1,2)
    by (intro exI [of _ "c # controls"] exI [of _ body] exI [of _ rest]) simp
qed

lemma opens_with_cases:
  assumes "opens_with (Suc k) h bs"
  obtains (frame) body rest where "bs = frame_bytes body @ rest" "2 \<le> length body" "length body \<le> 256"
      "length body \<noteq> 200" "body ! 0 = 0" "handler_for (body ! 1) = Some h"
    | (control) c later where "control_record c" "bs = record_bytes c @ later" "opens_with k h later"
proof -
  obtain controls body rest where o: "bs = concat (map record_bytes controls) @ frame_bytes body @ rest"
    "length controls < Suc k" "\<forall>c\<in>set controls. control_record c" "2 \<le> length body" "length body \<le> 256"
    "length body \<noteq> 200" "body ! 0 = 0" "handler_for (body ! 1) = Some h"
    using assms unfolding opens_with_def by blast
  show ?thesis
  proof (cases controls)
    case Nil
    with o frame show ?thesis by simp
  next
    case (Cons c cs)
    have "opens_with k h (concat (map record_bytes cs) @ frame_bytes body @ rest)"
      unfolding opens_with_def using o Cons by (intro exI [of _ cs] exI [of _ body] exI [of _ rest]) simp
    with o Cons control [of c] show ?thesis by simp
  qed
qed

lemma route_of_eq:
  assumes h: "h = RouteAuth \<or> h = RouteLobby"
  shows "route_of k e bs = h \<longleftrightarrow> opens_with k h bs"
proof (induction k arbitrary: bs)
  case 0
  show ?case using h by (auto simp: unsupported_def opens_with_def)
next
  case (Suc k)
  let ?n = "unat (LE_Uint32 (take 4 bs))"
  have no: "unsupported t \<noteq> h" "RouteEnds x \<noteq> h" for t x using h by (auto simp: unsupported_def)
  have hf: "handler_for m = Some h \<longleftrightarrow> (if m = 0 \<or> m = 0x0a then RouteAuth else if m = 0x07 then RouteLobby else unsupported ''type'') = h" for m
    using h by (auto simp: handler_for_def route_consts unsupported_def)
  show ?case
  proof
    assume r: "route_of (Suc k) e bs = h"
    then have len: "4 \<le> length bs" using no by (auto split: if_splits)
    show "opens_with (Suc k) h bs"
    proof (cases "?n = 0 \<or> ?n = 200")
      case True
      then show ?thesis
      proof
        assume keep: "?n = 0"
        then have "LE_Uint32 (take 4 bs) = 0" by (simp add: unat_eq_0)
        then have "take 4 bs = LE_PutUint32 0" using length_prefix_bytes [OF len] by simp
        then have bs: "bs = record_bytes \<lparr>Kind = RecordKindKeepalive, Body = [], AvailableBuffer = 0\<rparr> @ drop 4 bs"
          by (simp add: record_bytes_def) (metis append_take_drop_id)
        have "opens_with k h (drop 4 bs)" using r len keep Suc.IH by simp
        from opens_with_control [OF _ bs this] show ?thesis by (simp add: control_record_def record_ok_def)
      next
        assume avail: "?n = 200"
        have o: "opens_with k h (drop 8 bs)" using r len avail Suc.IH [of "drop 8 bs"] by simp
        then have "drop 8 bs \<noteq> []" by (auto simp: opens_with_def frame_bytes_def)
        then have len8: "8 \<le> length bs" by simp
        have "LE_Uint32 (take 4 bs) = 200" using avail by (intro word_unat_eq_iff [THEN iffD2]) simp
        then have t: "take 4 bs = LE_PutUint32 200" using length_prefix_bytes [OF len] by simp
        let ?v = "LE_Uint32 (take 4 (drop 4 bs))"
        have "take 4 (drop 4 bs) = LE_PutUint32 ?v" using length_prefix_bytes [of "drop 4 bs"] len8 by simp
        then have bs: "bs = record_bytes \<lparr>Kind = RecordKindBufferAvailable, Body = [], AvailableBuffer = ?v\<rparr> @ drop 8 bs"
          using t by (simp add: record_bytes_def) (metis append_take_drop_id append_assoc drop_drop numeral_Bit0)
        from opens_with_control [OF _ bs o] show ?thesis by (simp add: control_record_def record_ok_def)
      qed
    next
      case False
      with r len no have "2 \<le> ?n" "?n \<le> 256" "?n \<le> length (drop 4 bs)" "bs ! 4 = 0"
        "(if bs ! 5 = 0 \<or> bs ! 5 = 0x0a then RouteAuth else if bs ! 5 = 0x07 then RouteLobby else unsupported ''type'') = h"
        by (auto simp: Let_def split: if_splits)
      with opens_with_frame [OF len refl] False hf show ?thesis by blast
    qed
  next
    assume "opens_with (Suc k) h bs"
    then show "route_of (Suc k) e bs = h"
    proof (cases rule: opens_with_cases)
      case (frame body rest)
      then have "LE_Uint32 (take 4 bs) = word_of_nat (length body)" "drop 4 bs = body @ rest" "4 \<le> length bs"
        by (simp_all add: frame_bytes_def)
      moreover have "unat (word_of_nat (length body) :: u32) = length body"
        using frame(3) unfolding unat_of_nat by (intro mod_less) simp
      ultimately show ?thesis using frame hf [of "body ! 1"] by (auto simp: nth_append Let_def)
    next
      case (control c later)
      show ?thesis
      proof (cases "Kind c")
        case RecordKindKeepalive
        with control Suc.IH [of later] show ?thesis by (simp add: record_bytes_def)
      next
        case RecordKindBufferAvailable
        with control Suc.IH [of later] show ?thesis by (simp add: record_bytes_def)
      qed (use control in \<open>simp add: control_record_def\<close>)
    qed
  qed
qed

text \<open>The loop leaves the stream of bytes as it was.\<close>

lemma routed:
  assumes "route_loop (Suc maxLeadingControlRecords) 0 (NewReader stream cuts) = (h, reader)"
  shows "h = route_of 33 (stream_error stream) (st_bytes stream)" and "reader_stream reader = stream" and "reader_ok reader"
  using route_loop_eq [of "NewReader stream cuts" 0 33] assms
  by (simp_all add: maxLeadingControlRecords_def defaultBufSize_def eval_nat_numeral del: route_loop.simps route_of.simps)

lemma router_HandleTCP_eq:
  assumes "time_Now connection = (now, c1)" and "SetReadDeadline (now + tr_initialReadTimeout router) c1 = (Inr (), c)"
  shows "\<exists>c'. router_HandleTCP router cuts (connection, s) =
    (case route_of 33 (stream_error (cn_in connection)) (st_bytes (cn_in connection)) of
       RouteEnds e \<Rightarrow> (e, c', s) | RouteAuth \<Rightarrow> tr_auth router (c, s) | RouteLobby \<Rightarrow> tr_lobby router (c, s))"
proof -
  have "cn_in c1 = cn_in connection" using time_Now_fields(1) [of connection] assms(1) by simp
  then have i: "cn_in c = cn_in connection" using SetReadDeadline_result(1) [OF assms(2)] by simp
  obtain h reader where l: "route_loop (Suc maxLeadingControlRecords) 0 (NewReader (cn_in c) cuts) = (h, reader)"
    by (metis surj_pair)
  note r = routed [OF l]
  have "bufferedConn c reader = c" by (simp add: bufferedConn_def r(2))
  then show ?thesis
    using assms l r(1) i by (intro exI [of _ "c\<lparr>cn_in := rd_stream reader\<rparr>"])
      (auto simp: router_HandleTCP_def simp del: route_loop.simps route_of.simps split: route.splits)
qed

section \<open>Properties\<close>

text \<open>C15: the router hands a connection on exactly when its bytes are at most 32 control records followed by
  an unencrypted frame of 2 to 256 bytes whose message type is known, to the handler of that type and
  with all its bytes unread; otherwise no handler sees it and nothing changes but the connection,
  which is reported to be at its end or in error.\<close>

theorem router_hands_on:
  assumes "time_Now connection = (now, c1)" and "SetReadDeadline (now + tr_initialReadTimeout router) c1 = (Inr (), c)"
  shows "cn_in c = cn_in connection \<and>
    (opens_with 33 RouteAuth (st_bytes (cn_in connection)) \<longrightarrow>
       router_HandleTCP router cuts (connection, s) = tr_auth router (c, s)) \<and>
    (opens_with 33 RouteLobby (st_bytes (cn_in connection)) \<longrightarrow>
       router_HandleTCP router cuts (connection, s) = tr_lobby router (c, s)) \<and>
    (\<not> opens_with 33 RouteAuth (st_bytes (cn_in connection)) \<and> \<not> opens_with 33 RouteLobby (st_bytes (cn_in connection)) \<longrightarrow>
       (\<exists>e c'. router_HandleTCP router cuts (connection, s) = (e, c', s)))"
proof -
  let ?r = "route_of 33 (stream_error (cn_in connection)) (st_bytes (cn_in connection))"
  have o: "opens_with 33 RouteAuth (st_bytes (cn_in connection)) \<longleftrightarrow> ?r = RouteAuth"
    "opens_with 33 RouteLobby (st_bytes (cn_in connection)) \<longleftrightarrow> ?r = RouteLobby"
    using route_of_eq [of RouteAuth] route_of_eq [of RouteLobby] by blast+
  have "cn_in c1 = cn_in connection" using time_Now_fields(1) [of connection] assms(1) by simp
  then have "cn_in c = cn_in connection" using SetReadDeadline_result(1) [OF assms(2)] by simp
  with router_HandleTCP_eq [OF assms, of cuts s] show ?thesis unfolding o by (cases ?r) auto
qed

definition example_router :: "nat TCPRouter" where
  "example_router = \<lparr>tr_auth = (\<lambda>(c, s). (None, c, s + 1)), tr_lobby = (\<lambda>(c, s). (None, c, s + 2)),
     tr_initialReadTimeout = DefaultInitialReadTimeout\<rparr>"

theorem router_hands_on_witness:
  "\<exists>c. router_HandleTCP example_router [0, 3] (example_connection [0, 0, 0, 0, 2, 0, 0, 0, 0, 7], 0) = (None, c, 2) \<and>
     st_bytes (cn_in c) = [0, 0, 0, 0, 2, 0, 0, 0, 0, 7]"
proof -
  let ?c = "example_connection [0, 0, 0, 0, 2, 0, 0, 0, 0, 7]"
  have now: "time_Now ?c = (0, ?c)" by (simp add: time_Now_def example_connection_def)
  have dl: "SetReadDeadline (0 + tr_initialReadTimeout example_router) ?c = (Inr (), ?c\<lparr>cn_read_by := DefaultInitialReadTimeout\<rparr>)"
    by (simp add: SetReadDeadline_def set_deadline_def example_connection_def example_router_def)
  have "st_bytes (cn_in ?c) = concat (map record_bytes [\<lparr>Kind = RecordKindKeepalive, Body = [], AvailableBuffer = 0\<rparr>]) @
      frame_bytes [0, 7] @ []"
    by (simp add: example_connection_def record_bytes_def frame_bytes_def) code_simp
  then have "opens_with 33 RouteLobby (st_bytes (cn_in ?c))"
    unfolding opens_with_def
    by (intro exI [of _ "[\<lparr>Kind = RecordKindKeepalive, Body = [], AvailableBuffer = 0\<rparr>]"] exI [of _ "[0, 7]"] exI [of _ "[]"])
      (simp add: control_record_def record_ok_def handler_for_def route_consts)
  with router_hands_on [OF now dl, of "[0, 3]" 0] show ?thesis
    by (simp add: example_router_def) (simp add: example_connection_def)
qed

text \<open>C30: what the router has read ahead is not lost: a handler that reads the buffered connection gets
  from \<^verbatim>\<open>io.ReadFull\<close> what it would get from the connection itself before the router looked at it,
  however the network cuts the bytes.\<close>

theorem buffered_connection_is_the_stream:
  assumes "route_loop (Suc maxLeadingControlRecords) 0 (NewReader stream cuts) = (h, reader)"
    and "st_end stream \<noteq> StreamFails (IoErr EOF)"
  shows "\<exists>x reader'. io_ReadFull bufferedConn_Read n [] reader = (x, reader') \<and>
    (x, reader_stream reader') = ReadFull n stream"
proof -
  have read: "bufferedConn_Read = bufio_Read" by (simp add: bufferedConn_Read_def fun_eq_iff)
  note r = routed(2) [OF assms(1)]
  have "\<lparr>st_bytes = st_bytes stream, st_end = st_end stream\<rparr> = stream" by simp
  with io_ReadFull_result [OF routed(3) [OF assms(1)], of "[]" n] assms(2) show ?thesis by (auto simp: read r)
qed

theorem buffered_connection_is_the_stream_witness:
  "\<exists>h reader x reader'. route_loop (Suc maxLeadingControlRecords) 0
       (NewReader \<lparr>st_bytes = [0, 0, 0, 0, 2, 0, 0, 0, 0, 7], st_end = StreamEOF\<rparr> [0, 3]) = (h, reader) \<and>
     io_ReadFull bufferedConn_Read 6 [] reader = (x, reader') \<and> x = Inr [0, 0, 0, 0, 2, 0]"
proof -
  let ?s = "\<lparr>st_bytes = [0, 0, 0, 0, 2, 0, 0, 0, 0, 7], st_end = StreamEOF\<rparr> :: go_stream"
  obtain h reader where r: "route_loop (Suc maxLeadingControlRecords) 0 (NewReader ?s [0, 3]) = (h, reader)" by (metis surj_pair)
  from buffered_connection_is_the_stream [OF r, of 6] obtain x reader' where
    "io_ReadFull bufferedConn_Read 6 [] reader = (x, reader')" "(x, reader_stream reader') = ReadFull 6 ?s"
    by auto
  with r show ?thesis by (auto simp: ReadFull_def)
qed

end
