(* ===== verification/Server.thy ===== *)
theory Server
  imports Counted_Store Std_Net
begin

text \<open>
  \<^verbatim>\<open>internal/online/server\<close>: the server around the protocol handlers. It accepts TCP connections within a
  global limit and a limit per source, runs a handler for each, reads UDP datagrams, and shuts down
  gracefully. A \<^verbatim>\<open>net.Conn\<close> is a number. This theory holds the operations (\<^verbatim>\<open>config.go\<close> and
  \<^verbatim>\<open>server.go\<close>); the theory \<open>Server_Run\<close> composes them to the goroutines of a running server.
\<close>

section \<open>config.go\<close>

definition MaxTCPConnectionsLimit :: int where "MaxTCPConnectionsLimit = 1024"
definition MaxTCPConnectionsPerSourceLimit :: int where "MaxTCPConnectionsPerSourceLimit = 256"
definition MaxUDPDatagramBytes :: nat where "MaxUDPDatagramBytes = 65507"

record ServerConfig =
  svc_MaxTCPConnections :: int
  svc_MaxTCPConnectionsPerSource :: int
  svc_ShutdownTimeout :: int

text \<open>A \<^verbatim>\<open>time.Duration\<close> counts nanoseconds.\<close>

definition DefaultConfig :: ServerConfig where
  "DefaultConfig = \<lparr>svc_MaxTCPConnections = 64, svc_MaxTCPConnectionsPerSource = 8,
     svc_ShutdownTimeout = 10 * 1000000000\<rparr>"

definition normalizeConfig :: "ServerConfig \<Rightarrow> go_error + ServerConfig" where
  "normalizeConfig config =
     (let defaults = DefaultConfig;
          config = (if svc_MaxTCPConnections config = 0
                    then config\<lparr>svc_MaxTCPConnections := svc_MaxTCPConnections defaults\<rparr> else config);
          config = (if svc_MaxTCPConnectionsPerSource config = 0
                    then config\<lparr>svc_MaxTCPConnectionsPerSource := svc_MaxTCPConnectionsPerSource defaults\<rparr> else config);
          config = (if svc_ShutdownTimeout config = 0
                    then config\<lparr>svc_ShutdownTimeout := svc_ShutdownTimeout defaults\<rparr> else config)
      in if svc_MaxTCPConnections config < 1 \<or> svc_MaxTCPConnections config > MaxTCPConnectionsLimit
         then Inl (Message ''maximum TCP connections must be between 1 and %d'')
         else if svc_MaxTCPConnectionsPerSource config < 1 \<or>
           svc_MaxTCPConnectionsPerSource config > MaxTCPConnectionsPerSourceLimit
         then Inl (Message ''maximum TCP connections per source must be between 1 and %d'')
         else if svc_MaxTCPConnectionsPerSource config > svc_MaxTCPConnections config
         then Inl (Message ''maximum TCP connections per source must not exceed the global maximum'')
         else if svc_ShutdownTimeout config < 1000000000 \<or> svc_ShutdownTimeout config > 60 * 1000000000
         then Inl (Message ''shutdown timeout must be between 1s and 1m'')
         else Inr config)"

text \<open>A configuration with its zero fields replaced by the defaults.\<close>

definition filled :: "ServerConfig \<Rightarrow> ServerConfig" where
  "filled config =
     \<lparr>svc_MaxTCPConnections = (if svc_MaxTCPConnections config = 0 then 64 else svc_MaxTCPConnections config),
      svc_MaxTCPConnectionsPerSource =
        (if svc_MaxTCPConnectionsPerSource config = 0 then 8 else svc_MaxTCPConnectionsPerSource config),
      svc_ShutdownTimeout = (if svc_ShutdownTimeout config = 0 then 10000000000 else svc_ShutdownTimeout config)\<rparr>"

lemma if_Inr_eq: "(if P then Inl e else x) = Inr c \<longleftrightarrow> \<not> P \<and> x = Inr c"
  by simp

lemma normalizeConfig_filled:
  "normalizeConfig config =
     (let c = filled config in
      if svc_MaxTCPConnections c < 1 \<or> svc_MaxTCPConnections c > 1024
      then Inl (Message ''maximum TCP connections must be between 1 and %d'')
      else if svc_MaxTCPConnectionsPerSource c < 1 \<or> svc_MaxTCPConnectionsPerSource c > 256
      then Inl (Message ''maximum TCP connections per source must be between 1 and %d'')
      else if svc_MaxTCPConnectionsPerSource c > svc_MaxTCPConnections c
      then Inl (Message ''maximum TCP connections per source must not exceed the global maximum'')
      else if svc_ShutdownTimeout c < 1000000000 \<or> svc_ShutdownTimeout c > 60000000000
      then Inl (Message ''shutdown timeout must be between 1s and 1m'')
      else Inr c)"
proof -
  obtain a b t where c: "config = \<lparr>svc_MaxTCPConnections = a, svc_MaxTCPConnectionsPerSource = b, svc_ShutdownTimeout = t\<rparr>"
    by (cases config) simp
  show ?thesis
    unfolding c by (cases "a = 0"; cases "b = 0"; cases "t = 0")
      (simp_all add: normalizeConfig_def filled_def DefaultConfig_def Let_def MaxTCPConnectionsLimit_def MaxTCPConnectionsPerSourceLimit_def)
qed

section \<open>server.go: the state\<close>

text \<open>The fields of \<^verbatim>\<open>Server\<close>. \<open>sv_workers\<close> is the counter of the wait group, \<open>sv_slots\<close> the number of
  tokens in the channel \<^verbatim>\<open>connectionSlots\<close>; \<open>sv_cancelled\<close> and \<open>sv_listenersClosed\<close> say whether the
  context of the current \<^verbatim>\<open>Serve\<close> is cancelled and its two sockets are closed.\<close>

record Server =
  sv_config :: ServerConfig
  sv_serving :: bool
  sv_shuttingDown :: bool
  sv_connections :: "(nat, unit) gomap"
  sv_connectionsBySource :: "(gostring, int) gomap"
  sv_workers :: int
  sv_slots :: int
  sv_cancelled :: bool
  sv_listenersClosed :: bool

text \<open>\<open>hasHandler\<close> says that the handler is not nil.\<close>

definition server_New :: "ServerConfig \<Rightarrow> bool \<Rightarrow> go_error + Server" where
  "server_New config hasHandler =
     (if \<not> hasHandler then Inl (Message ''online protocol handler is required'')
      else (case normalizeConfig config of
              Inl e \<Rightarrow> Inl e
            | Inr normalized \<Rightarrow>
                Inr \<lparr>sv_config = normalized, sv_serving = False, sv_shuttingDown = False, sv_connections = [],
                     sv_connectionsBySource = [], sv_workers = 0, sv_slots = 0, sv_cancelled = False,
                     sv_listenersClosed = False\<rparr>))"

section \<open>server.go: connections\<close>

definition tcpSourceIdentity :: "net_addr \<Rightarrow> gostring option" where
  "tcpSourceIdentity peer =
     (let of_address = (\<lambda>address.
             let address = Unmap address
             in if \<not> addr_IsValid address \<or> addr_IsUnspecified address \<or> addr_IsMulticast address
                then None
                else (case address of
                        Addr6 ip zone \<Rightarrow> Some (prefix64_String ip)
                      | _ \<Rightarrow> Some (addr_String address)))
      in case peer of
           NilAddr \<Rightarrow> None
         | TCPAddr ip \<Rightarrow> (case AddrFromSlice ip of None \<Rightarrow> None | Some address \<Rightarrow> of_address address)
         | OtherAddr network text \<Rightarrow>
             (case SplitHostPort text of
                None \<Rightarrow> None
              | Some (host, _) \<Rightarrow> (case ParseAddr host of None \<Rightarrow> None | Some address \<Rightarrow> of_address address)))"

text \<open>The \<^verbatim>\<open>select\<close> that takes a slot if one is free.\<close>

definition acquire_slot :: "Server \<Rightarrow> bool \<times> Server" where
  "acquire_slot s =
     (if sv_slots s < svc_MaxTCPConnections (sv_config s) then (True, s\<lparr>sv_slots := sv_slots s + 1\<rparr>) else (False, s))"

definition release_slot :: "Server \<Rightarrow> Server" where
  "release_slot s = s\<lparr>sv_slots := sv_slots s - 1\<rparr>"

text \<open>The assignments that enter a connection.\<close>

definition enter_connection :: "nat \<Rightarrow> gostring \<Rightarrow> Server \<Rightarrow> Server" where
  "enter_connection connection source s =
     s\<lparr>sv_connections := AList.update connection () (sv_connections s),
       sv_connectionsBySource := AList.update source (gm_count (sv_connectionsBySource s) source + 1) (sv_connectionsBySource s),
       sv_workers := sv_workers s + 1\<rparr>"

text \<open>The part of \<^verbatim>\<open>reserveTCPConnection\<close> that holds the mutex.\<close>

definition reserve_locked :: "nat \<Rightarrow> gostring \<Rightarrow> Server \<Rightarrow> bool \<times> Server" where
  "reserve_locked connection source s =
     (if sv_shuttingDown s \<or>
         gm_count (sv_connectionsBySource s) source \<ge> svc_MaxTCPConnectionsPerSource (sv_config s)
      then (False, release_slot s) else (True, enter_connection connection source s))"

definition reserveTCPConnection :: "nat \<Rightarrow> net_addr \<Rightarrow> Server \<Rightarrow> gostring option \<times> Server" where
  "reserveTCPConnection connection peer s =
     (case tcpSourceIdentity peer of
        None \<Rightarrow> (None, s)
      | Some source \<Rightarrow>
          (case acquire_slot s of
             (False, s) \<Rightarrow> (None, s)
           | (True, s) \<Rightarrow>
               (case reserve_locked connection source s of
                  (False, s) \<Rightarrow> (None, s)
                | (True, s) \<Rightarrow> (Some source, s))))"

text \<open>The part of \<^verbatim>\<open>releaseTCPConnection\<close> that holds the mutex.\<close>

definition release_locked :: "nat \<Rightarrow> gostring \<Rightarrow> Server \<Rightarrow> Server" where
  "release_locked connection source s =
     (let s = s\<lparr>sv_connections := AList.delete connection (sv_connections s)\<rparr>;
          remaining = gm_count (sv_connectionsBySource s) source - 1
      in if remaining \<le> 0
         then s\<lparr>sv_connectionsBySource := AList.delete source (sv_connectionsBySource s)\<rparr>
         else s\<lparr>sv_connectionsBySource := AList.update source remaining (sv_connectionsBySource s)\<rparr>)"

definition releaseTCPConnection :: "nat \<Rightarrow> gostring \<Rightarrow> Server \<Rightarrow> Server" where
  "releaseTCPConnection connection source s = release_slot (release_locked connection source s)"

definition worker_Done :: "Server \<Rightarrow> Server" where
  "worker_Done s = s\<lparr>sv_workers := sv_workers s - 1\<rparr>"

text \<open>\<^verbatim>\<open>handleTCP\<close>, for a handler with a state of its own; the connections that were closed are the third
  component.\<close>

definition handleTCP :: "(nat \<Rightarrow> 'h \<Rightarrow> go_error option \<times> 'h) \<Rightarrow> nat \<Rightarrow> gostring \<Rightarrow> Server \<times> 'h \<times> nat set \<Rightarrow> Server \<times> 'h \<times> nat set" where
  "handleTCP handler connection source st =
     (case st of (s, h, closed) \<Rightarrow>
        (case handler connection h of (_, h) \<Rightarrow>
           (worker_Done (releaseTCPConnection connection source s), h, insert connection closed)))"

section \<open>server.go: serving and shutting down\<close>

text \<open>The start of \<^verbatim>\<open>Serve\<close>; the arguments say that the sockets are not nil.\<close>

definition Serve_begin :: "bool \<Rightarrow> bool \<Rightarrow> Server \<Rightarrow> go_error option \<times> Server" where
  "Serve_begin hasListener hasUDP s =
     (if \<not> hasListener \<or> \<not> hasUDP then (Some (Message ''TCP listener and UDP packet connection are required''), s)
      else if sv_serving s then (Some (ServerErr ErrAlreadyServing), s)
      else if sv_shuttingDown s then (Some (ServerErr ErrShuttingDown), s)
      else (None, s\<lparr>sv_serving := True, sv_cancelled := False, sv_listenersClosed := False\<rparr>))"

text \<open>Its end, with the results of the two loops.\<close>

definition Serve_end :: "go_error option \<Rightarrow> go_error option \<Rightarrow> Server \<Rightarrow> go_error option \<times> Server" where
  "Serve_end first second s =
     (let shuttingDown = sv_shuttingDown s; s = s\<lparr>sv_serving := False\<rparr>
      in (if shuttingDown then None else if first \<noteq> None then first else second, s))"

definition close_listeners :: "Server \<Rightarrow> Server" where
  "close_listeners s = s\<lparr>sv_cancelled := True, sv_listenersClosed := True\<rparr>"

text \<open>The part of \<^verbatim>\<open>Shutdown\<close> that holds the mutex; the result says whether it waits for \<^verbatim>\<open>Serve\<close>.\<close>

definition Shutdown_begin :: "Server \<Rightarrow> bool \<times> Server" where
  "Shutdown_begin s =
     (if \<not> sv_serving s then (False, s\<lparr>sv_shuttingDown := True\<rparr>)
      else if \<not> sv_shuttingDown s then (True, close_listeners (s\<lparr>sv_shuttingDown := True\<rparr>))
      else (True, s))"

text \<open>The connections that \<^verbatim>\<open>closeConnections\<close> closes.\<close>

definition closeConnections :: "Server \<Rightarrow> nat list" where
  "closeConnections s = map fst (sv_connections s)"

text \<open>What an error of \<^verbatim>\<open>Accept\<close> or \<^verbatim>\<open>ReadFrom\<close> makes of a loop, and where the accept loop goes after a
  connection it turned away: \<open>None\<close> is the next round.\<close>

definition loop_error :: "string \<Rightarrow> bool \<Rightarrow> go_error \<Rightarrow> go_error option" where
  "loop_error context cancelled e =
     (if cancelled \<or> errors_is e (IoErr NetErrClosed) then None else Some (Context context e))"

text \<open>The UDP loop over what the coming calls of \<^verbatim>\<open>ReadFrom\<close> return, each with whether the context is
  cancelled when it is checked; \<open>None\<close> when they are used up and the loop still runs.\<close>

datatype 'p udp_event = UdpError go_error bool | Datagram bytes 'p bool

fun serveUDP :: "('p \<Rightarrow> bytes \<Rightarrow> 'h \<Rightarrow> go_error option \<times> 'h) \<Rightarrow> 'p udp_event list \<Rightarrow> 'h \<Rightarrow>
    go_error option option \<times> 'h" where
  "serveUDP handler [] h = (None, h)"
| "serveUDP handler (UdpError e cancelled # events) h = (Some (loop_error ''read UDP datagram'' cancelled e), h)"
| "serveUDP handler (Datagram bs peer cancelled # events) h =
     (let payload = take MaxUDPDatagramBytes bs in
      case handler peer payload h of
        (None, h) \<Rightarrow> serveUDP handler events h
      | (Some e, h) \<Rightarrow>
          if \<not> cancelled then (Some (Some (Context ''handle UDP datagram'' e)), h) else serveUDP handler events h)"

section \<open>Reservations\<close>

lemma reservation_eq:
  "reserveTCPConnection connection peer s =
     (case tcpSourceIdentity peer of
        None \<Rightarrow> (None, s)
      | Some source \<Rightarrow>
          if sv_slots s < svc_MaxTCPConnections (sv_config s) \<and> \<not> sv_shuttingDown s \<and>
             gm_count (sv_connectionsBySource s) source < svc_MaxTCPConnectionsPerSource (sv_config s)
          then (Some source, enter_connection connection source (s\<lparr>sv_slots := sv_slots s + 1\<rparr>))
          else (None, s))"
proof (cases "tcpSourceIdentity peer")
  case None
  then show ?thesis by (simp add: reserveTCPConnection_def)
next
  case (Some source)
  have undo: "release_slot (s\<lparr>sv_slots := sv_slots s + 1\<rparr>) = s" by (cases s) (simp add: release_slot_def)
  show ?thesis
    unfolding reserveTCPConnection_def acquire_slot_def reserve_locked_def Some
    by (cases "sv_slots s < svc_MaxTCPConnections (sv_config s)"; cases "sv_shuttingDown s") (simp_all add: undo)
qed

text \<open>A server that has admitted nobody yet, and a peer.\<close>

definition idle_server :: Server where
  "idle_server = \<lparr>sv_config = DefaultConfig, sv_serving = False, sv_shuttingDown = False, sv_connections = [],
     sv_connectionsBySource = [], sv_workers = 0, sv_slots = 0, sv_cancelled = False, sv_listenersClosed = False\<rparr>"

lemma idle_server_New:
  "server_New \<lparr>svc_MaxTCPConnections = 0, svc_MaxTCPConnectionsPerSource = 0, svc_ShutdownTimeout = 0\<rparr> True = Inr idle_server"
  by (simp add: server_New_def normalizeConfig_filled filled_def idle_server_def DefaultConfig_def)

definition sample_peer :: net_addr where "sample_peer = TCPAddr [192, 0, 2, 7]"

lemma sample_source: "tcpSourceIdentity sample_peer = Some (ascii ''192.0.2.7'')"
  by code_simp

section \<open>Properties\<close>

text \<open>A configuration is accepted exactly when, its zero fields replaced by the defaults (64 connections,
  8 of a source, 10 seconds), its limits are within their ranges and the limit per source is not above
  the global one; and what is returned is that configuration. So the zero configuration, which the
  program uses, is the default one.\<close>

theorem normalizeConfig_exact:
  "(normalizeConfig config = Inr c \<longleftrightarrow> c = filled config \<and>
      1 \<le> svc_MaxTCPConnections c \<and> svc_MaxTCPConnections c \<le> 1024 \<and>
      1 \<le> svc_MaxTCPConnectionsPerSource c \<and> svc_MaxTCPConnectionsPerSource c \<le> 256 \<and>
      svc_MaxTCPConnectionsPerSource c \<le> svc_MaxTCPConnections c \<and>
      1000000000 \<le> svc_ShutdownTimeout c \<and> svc_ShutdownTimeout c \<le> 60000000000) \<and>
   normalizeConfig \<lparr>svc_MaxTCPConnections = 0, svc_MaxTCPConnectionsPerSource = 0, svc_ShutdownTimeout = 0\<rparr> =
     Inr DefaultConfig"
proof -
  have "normalizeConfig \<lparr>svc_MaxTCPConnections = 0, svc_MaxTCPConnectionsPerSource = 0, svc_ShutdownTimeout = 0\<rparr> =
     Inr DefaultConfig"
    by (simp add: normalizeConfig_filled filled_def DefaultConfig_def)
  moreover have "normalizeConfig config = Inr c \<longleftrightarrow> c = filled config \<and>
      1 \<le> svc_MaxTCPConnections c \<and> svc_MaxTCPConnections c \<le> 1024 \<and>
      1 \<le> svc_MaxTCPConnectionsPerSource c \<and> svc_MaxTCPConnectionsPerSource c \<le> 256 \<and>
      svc_MaxTCPConnectionsPerSource c \<le> svc_MaxTCPConnections c \<and>
      1000000000 \<le> svc_ShutdownTimeout c \<and> svc_ShutdownTimeout c \<le> 60000000000"
    unfolding normalizeConfig_filled Let_def if_Inr_eq not_less de_Morgan_disj by blast
  ultimately show ?thesis by simp
qed

text \<open>A connection is admitted exactly when its source is known, a slot is free, the server is not
  shutting down and the source is below its limit; then it is entered, under its source, with a worker
  and a slot. One that is turned away leaves the server as it was.\<close>

theorem reservation_exact:
  "reserveTCPConnection connection peer s =
     (case tcpSourceIdentity peer of
        None \<Rightarrow> (None, s)
      | Some source \<Rightarrow>
          if sv_slots s < svc_MaxTCPConnections (sv_config s) \<and> \<not> sv_shuttingDown s \<and>
             gm_count (sv_connectionsBySource s) source < svc_MaxTCPConnectionsPerSource (sv_config s)
          then (Some source, enter_connection connection source (s\<lparr>sv_slots := sv_slots s + 1\<rparr>))
          else (None, s))"
  by (rule reservation_eq)

text \<open>Releasing an admitted connection undoes its admission: its slot, its entry and its place in the
  count of its source are given back, whatever else the server holds, and the source is forgotten
  with its last connection.\<close>

theorem release_undoes_reservation:
  assumes "reserveTCPConnection connection peer s = (Some source, s')"
    and "map_of (sv_connections s) connection = None" and "0 \<le> gm_count (sv_connectionsBySource s) source"
  shows "sv_slots (releaseTCPConnection connection source s') = sv_slots s \<and>
    map_of (sv_connections (releaseTCPConnection connection source s')) = map_of (sv_connections s) \<and>
    gm_count (sv_connectionsBySource (releaseTCPConnection connection source s')) = gm_count (sv_connectionsBySource s) \<and>
    (gm_count (sv_connectionsBySource s) source = 0 \<longrightarrow>
       map_of (sv_connectionsBySource (releaseTCPConnection connection source s')) source = None)"
proof -
  have s': "s' = enter_connection connection source (s\<lparr>sv_slots := sv_slots s + 1\<rparr>)"
    using assms(1) unfolding reservation_eq by (auto split: option.splits if_splits)
  show ?thesis
    unfolding s' using assms(2,3)
    by (auto simp: releaseTCPConnection_def release_locked_def release_slot_def enter_connection_def Let_def fun_eq_iff)
qed

theorem release_undoes_reservation_witness:
  "(let source = ascii ''192.0.2.7'';
        s = releaseTCPConnection 5 source (snd (reserveTCPConnection 5 sample_peer idle_server))
    in sv_slots s = 0 \<and> map_of (sv_connectionsBySource s) source = None)"
proof -
  have "reserveTCPConnection 5 sample_peer idle_server =
      (Some (ascii ''192.0.2.7''), snd (reserveTCPConnection 5 sample_peer idle_server))"
    by (simp add: reservation_eq sample_source idle_server_def DefaultConfig_def)
  from release_undoes_reservation [OF this] show ?thesis by (simp add: Let_def idle_server_def)
qed

end
