(* ===== verification/Server_Run.thy ===== *)
theory Server_Run
  imports Server Account_Store
begin

text \<open>
  A running server: the goroutine of \<^verbatim>\<open>Serve\<close> with its two loops, the goroutines of the connections,
  and any number of calls of \<^verbatim>\<open>Shutdown\<close>, in every interleaving of their steps. What a goroutine does
  while it holds the mutex is one step; taking and giving back a slot, closing a connection and
  \<^verbatim>\<open>workers.Done\<close> are steps of their own.
\<close>

section \<open>The goroutines\<close>

text \<open>The accept loop: not started, in \<^verbatim>\<open>Accept\<close>, in \<^verbatim>\<open>reserveTCPConnection\<close> with a slot taken, or returned.\<close>

datatype acceptor = AcceptorIdle | Accepting | Reserving nat gostring | AcceptorDone "go_error option"

datatype udp_loop = UdpIdle | UdpRunning | UdpDone "go_error option"

text \<open>\<^verbatim>\<open>Serve\<close>: not running (with what the last one returned), waiting for the first result, waiting for the
  second, closing the connections, and waiting for the workers.\<close>

datatype serve_state = NotServing "go_error option" | Serving | Draining | ClosingConnections "nat list" | AwaitingWorkers

text \<open>\<open>sy_handling\<close> are the goroutines of \<^verbatim>\<open>handleTCP\<close> up to the locked part of \<^verbatim>\<open>releaseTCPConnection\<close>, each
  with its source and whether its handler has returned; \<open>sy_releasing\<close> counts those that still have
  their slot, \<open>sy_ending\<close> those that only have to call \<^verbatim>\<open>workers.Done\<close>. \<open>sy_owed\<close> are the connections
  that calls of \<^verbatim>\<open>Shutdown\<close> have collected to close.\<close>

record server_system =
  sy_server :: Server
  sy_handling :: "(nat, gostring \<times> bool) gomap"
  sy_releasing :: nat
  sy_ending :: nat
  sy_acceptor :: acceptor
  sy_udp :: udp_loop
  sy_serve :: serve_state
  sy_closed :: "nat set"
  sy_seen :: "nat set"
  sy_owed :: "nat set"

text \<open>The two steps on the connections that the mutex protects.\<close>

definition sy_put :: "nat \<Rightarrow> gostring \<times> bool \<Rightarrow> server_system \<Rightarrow> server_system" where
  "sy_put connection v y = y\<lparr>sy_server := enter_connection connection (fst v) (sy_server y),
     sy_handling := AList.update connection v (sy_handling y)\<rparr>"

definition sy_del :: "nat \<Rightarrow> gostring \<times> bool \<Rightarrow> server_system \<Rightarrow> server_system" where
  "sy_del connection v y = y\<lparr>sy_server := release_locked connection (fst v) (sy_server y),
     sy_handling := AList.delete connection (sy_handling y)\<rparr>"

interpretation source_counts:
  counted_store sy_handling "\<lambda>y. sv_connectionsBySource (sy_server y)" fst sy_put sy_del
  by unfold_locales (auto simp: sy_put_def sy_del_def enter_connection_def release_locked_def Let_def)

text \<open>A connection that is turned away is closed; the loop returns if the context is cancelled.\<close>

definition turn_away :: "nat \<Rightarrow> server_system \<Rightarrow> server_system" where
  "turn_away connection y = y\<lparr>sy_closed := insert connection (sy_closed y),
     sy_acceptor := (if sv_cancelled (sy_server y) then AcceptorDone None else Accepting)\<rparr>"

text \<open>The steps of \<^verbatim>\<open>Serve\<close>, its loops and its workers. \<open>env\<close> says whether the world outside acts: only then does
  a peer connect, a socket that is open fail, a datagram arrive whose handler fails, or a handler return
  whose connection is open. With \<open>env\<close> false the calls \<^verbatim>\<open>Accept\<close> and \<^verbatim>\<open>ReadFrom\<close> block until their socket is
  closed, and a handler, which reads and writes its connection, until that is closed.\<close>

inductive serve_step :: "bool \<Rightarrow> (nat \<Rightarrow> net_addr) \<Rightarrow> server_system \<Rightarrow> server_system \<Rightarrow> bool"
  for env peer where
  serve_starts: "sy_serve y = NotServing r \<Longrightarrow> Serve_begin True True (sy_server y) = (None, s) \<Longrightarrow>
     serve_step env peer y (y\<lparr>sy_server := s, sy_serve := Serving, sy_acceptor := Accepting, sy_udp := UdpRunning\<rparr>)"
| accept_refused: "env \<Longrightarrow> sy_acceptor y = Accepting \<Longrightarrow> connection \<notin> sy_seen y \<Longrightarrow>
     tcpSourceIdentity (peer connection) = None \<or> \<not> fst (acquire_slot (sy_server y)) \<Longrightarrow>
     serve_step env peer y (turn_away connection (y\<lparr>sy_seen := insert connection (sy_seen y)\<rparr>))"
| accept_slot: "env \<Longrightarrow> sy_acceptor y = Accepting \<Longrightarrow> connection \<notin> sy_seen y \<Longrightarrow>
     tcpSourceIdentity (peer connection) = Some source \<Longrightarrow> acquire_slot (sy_server y) = (True, s) \<Longrightarrow>
     serve_step env peer y (y\<lparr>sy_seen := insert connection (sy_seen y), sy_server := s,
       sy_acceptor := Reserving connection source\<rparr>)"
| reserve_entered: "sy_acceptor y = Reserving connection source \<Longrightarrow>
     reserve_locked connection source (sy_server y) = (True, s) \<Longrightarrow>
     serve_step env peer y ((sy_put connection (source, False) y)\<lparr>sy_acceptor := Accepting\<rparr>)"
| reserve_refused: "sy_acceptor y = Reserving connection source \<Longrightarrow>
     reserve_locked connection source (sy_server y) = (False, s) \<Longrightarrow>
     serve_step env peer y (turn_away connection (y\<lparr>sy_server := s\<rparr>))"
| accept_fails: "env \<or> sv_listenersClosed (sy_server y) \<Longrightarrow> sy_acceptor y = Accepting \<Longrightarrow>
     serve_step env peer y (y\<lparr>sy_acceptor := AcceptorDone (loop_error ''accept TCP connection'' (sv_cancelled (sy_server y)) e)\<rparr>)"
| udp_fails: "env \<or> sv_listenersClosed (sy_server y) \<Longrightarrow> sy_udp y = UdpRunning \<Longrightarrow>
     serve_step env peer y (y\<lparr>sy_udp := UdpDone (loop_error ''read UDP datagram'' (sv_cancelled (sy_server y)) e)\<rparr>)"
| udp_handler_fails: "env \<Longrightarrow> sy_udp y = UdpRunning \<Longrightarrow> \<not> sv_cancelled (sy_server y) \<Longrightarrow>
     serve_step env peer y (y\<lparr>sy_udp := UdpDone (Some (Context ''handle UDP datagram'' e))\<rparr>)"
| first_result: "sy_serve y = Serving \<Longrightarrow> sy_acceptor y = AcceptorDone e \<or> sy_udp y = UdpDone e \<Longrightarrow>
     serve_step env peer y (y\<lparr>sy_server := close_listeners (sy_server y), sy_serve := Draining\<rparr>)"
| second_result: "sy_serve y = Draining \<Longrightarrow> sy_acceptor y = AcceptorDone e \<Longrightarrow> sy_udp y = UdpDone e' \<Longrightarrow>
     serve_step env peer y (y\<lparr>sy_serve := ClosingConnections (closeConnections (sy_server y))\<rparr>)"
| serve_closes: "sy_serve y = ClosingConnections (connection # connections) \<Longrightarrow>
     serve_step env peer y (y\<lparr>sy_closed := insert connection (sy_closed y), sy_serve := ClosingConnections connections\<rparr>)"
| serve_waits: "sy_serve y = ClosingConnections [] \<Longrightarrow> serve_step env peer y (y\<lparr>sy_serve := AwaitingWorkers\<rparr>)"
| serve_returns: "sy_serve y = AwaitingWorkers \<Longrightarrow> sv_workers (sy_server y) = 0 \<Longrightarrow>
     Serve_end first second (sy_server y) = (r, s) \<Longrightarrow>
     serve_step env peer y (y\<lparr>sy_server := s, sy_serve := NotServing r, sy_acceptor := AcceptorIdle, sy_udp := UdpIdle\<rparr>)"
| handler_returns: "env \<or> connection \<in> sy_closed y \<Longrightarrow> map_of (sy_handling y) connection = Some (source, False) \<Longrightarrow>
     serve_step env peer y (y\<lparr>sy_handling := AList.update connection (source, True) (sy_handling y),
       sy_closed := insert connection (sy_closed y)\<rparr>)"
| connection_released: "map_of (sy_handling y) connection = Some (source, True) \<Longrightarrow>
     serve_step env peer y ((sy_del connection (source, True) y)\<lparr>sy_releasing := Suc (sy_releasing y)\<rparr>)"
| slot_released: "sy_releasing y = Suc n \<Longrightarrow>
     serve_step env peer y (y\<lparr>sy_server := release_slot (sy_server y), sy_releasing := n, sy_ending := Suc (sy_ending y)\<rparr>)"
| worker_ends: "sy_ending y = Suc n \<Longrightarrow>
     serve_step env peer y (y\<lparr>sy_server := worker_Done (sy_server y), sy_ending := n\<rparr>)"

inductive_cases serve_stepE: "serve_step env peer y y'"

text \<open>The steps of the callers of \<^verbatim>\<open>Shutdown\<close>.\<close>

inductive shutdown_step :: "server_system \<Rightarrow> server_system \<Rightarrow> bool" where
  shutdown_begins: "Shutdown_begin (sy_server y) = (waits, s) \<Longrightarrow> shutdown_step y (y\<lparr>sy_server := s\<rparr>)"
| shutdown_collects: "shutdown_step y (y\<lparr>sy_owed := sy_owed y \<union> set (closeConnections (sy_server y))\<rparr>)"
| shutdown_closes: "connection \<in> sy_owed y \<Longrightarrow>
     shutdown_step y (y\<lparr>sy_closed := insert connection (sy_closed y)\<rparr>)"

inductive_cases shutdown_stepE: "shutdown_step y y'"

definition server_start :: "server_system \<Rightarrow> bool" where
  "server_start y \<longleftrightarrow> (\<exists>config. server_New config True = Inr (sy_server y)) \<and> sy_handling y = [] \<and>
     sy_releasing y = 0 \<and> sy_ending y = 0 \<and> sy_acceptor y = AcceptorIdle \<and> sy_udp y = UdpIdle \<and>
     (\<exists>r. sy_serve y = NotServing r) \<and> sy_closed y = {} \<and> sy_seen y = {} \<and> sy_owed y = {}"

inductive server_reaches :: "(nat \<Rightarrow> net_addr) \<Rightarrow> server_system \<Rightarrow> server_system \<Rightarrow> bool"
  for peer where
  server_refl: "server_reaches peer y y"
| server_serves: "server_reaches peer y z \<Longrightarrow> serve_step True peer z z' \<Longrightarrow> server_reaches peer y z'"
| server_shuts: "server_reaches peer y z \<Longrightarrow> shutdown_step z z' \<Longrightarrow> server_reaches peer y z'"

section \<open>The steps make up the operations\<close>

text \<open>What can happen without the world outside can also happen with it.\<close>

lemma serve_step_env: "serve_step False peer y y' \<Longrightarrow> serve_step env peer y y'"
  by (erule serve_stepE) (auto intro: serve_step.intros)

text \<open>An accepted connection, and the end of a handler, step by step with nothing in between, are
  \<^verbatim>\<open>reserveTCPConnection\<close> and \<^verbatim>\<open>handleTCP\<close>.\<close>

lemma accept_is_reserve:
  assumes "sy_acceptor y = Accepting" and "c \<notin> sy_seen y"
    and r: "reserveTCPConnection c (peer c) (sy_server y) = (Some source, s)"
  shows "\<exists>y1 y2. serve_step True peer y y1 \<and> serve_step True peer y1 y2 \<and> sy_server y2 = s \<and> sy_acceptor y2 = Accepting \<and>
    sy_handling y2 = AList.update c (source, False) (sy_handling y)"
proof -
  obtain s1 where s1: "tcpSourceIdentity (peer c) = Some source" "acquire_slot (sy_server y) = (True, s1)"
    "reserve_locked c source s1 = (True, s)"
    using r by (auto simp: reserveTCPConnection_def split: option.splits prod.splits bool.splits)
  let ?y1 = "y\<lparr>sy_seen := insert c (sy_seen y), sy_server := s1, sy_acceptor := Reserving c source\<rparr>"
  have 1: "serve_step True peer y ?y1" by (rule accept_slot [where peer = peer, OF TrueI assms(1,2) s1(1,2)])
  have 2: "serve_step True peer ?y1 ((sy_put c (source, False) ?y1)\<lparr>sy_acceptor := Accepting\<rparr>)"
    by (rule reserve_entered [where s = s]) (use s1(3) in simp_all)
  have "s = enter_connection c source s1" using s1(3) by (auto simp: reserve_locked_def split: if_splits)
  with 1 2 show ?thesis by (intro exI conjI) (assumption, assumption, simp_all add: sy_put_def)
qed

lemma handler_is_handleTCP:
  assumes "map_of (sy_handling y) c = Some (source, False)" and "handler c h = (e, h')"
    and "handleTCP handler c source (sy_server y, h, sy_closed y) = (s, h1, closed)"
  shows "\<exists>y1 y2 y3 y4. serve_step True peer y y1 \<and> serve_step True peer y1 y2 \<and> serve_step True peer y2 y3 \<and> serve_step True peer y3 y4 \<and>
    sy_server y4 = s \<and> sy_closed y4 = closed \<and> h1 = h' \<and> sy_releasing y4 = sy_releasing y \<and> sy_ending y4 = sy_ending y"
proof -
  let ?y1 = "y\<lparr>sy_handling := AList.update c (source, True) (sy_handling y), sy_closed := insert c (sy_closed y)\<rparr>"
  let ?y2 = "(sy_del c (source, True) ?y1)\<lparr>sy_releasing := Suc (sy_releasing ?y1)\<rparr>"
  let ?y3 = "?y2\<lparr>sy_server := release_slot (sy_server ?y2), sy_releasing := sy_releasing y, sy_ending := Suc (sy_ending ?y2)\<rparr>"
  let ?y4 = "?y3\<lparr>sy_server := worker_Done (sy_server ?y3), sy_ending := sy_ending y\<rparr>"
  have 1: "serve_step True peer y ?y1" by (rule handler_returns [OF disjI1 [OF TrueI] assms(1)])
  have 2: "serve_step True peer ?y1 ?y2" by (rule connection_released) simp
  have 3: "serve_step True peer ?y2 ?y3" by (rule slot_released) simp
  have 4: "serve_step True peer ?y3 ?y4" by (rule worker_ends) (simp add: sy_del_def)
  have s: "s = worker_Done (release_slot (release_locked c source (sy_server y)))" "closed = insert c (sy_closed y)" "h1 = h'"
    using assms(2,3) by (simp_all add: handleTCP_def releaseTCPConnection_def)
  show ?thesis
    by (rule exI [of _ ?y1], rule exI [of _ ?y2], rule exI [of _ ?y3], rule exI [of _ ?y4])
      (intro conjI 1 2 3 4; simp add: s sy_del_def)
qed

section \<open>The invariant\<close>

lemma length_delete_present:
  assumes "gm_ok m" and "map_of m k = Some v"
  shows "length m = Suc (length (AList.delete k m))"
  using owned_delete [OF assms, of "\<lambda>_. ()" "()"] by (simp add: owned_def)

text \<open>The slots that are taken, and who has them.\<close>

definition slots_used :: "server_system \<Rightarrow> nat" where
  "slots_used y = length (sy_handling y) + sy_releasing y + (case sy_acceptor y of Reserving _ _ \<Rightarrow> 1 | _ \<Rightarrow> 0)"

definition sources_inv :: "Server \<Rightarrow> bool" where
  "sources_inv s \<longleftrightarrow>
     (\<forall>x. 0 \<le> gm_count (sv_connectionsBySource s) x \<and>
        gm_count (sv_connectionsBySource s) x \<le> svc_MaxTCPConnectionsPerSource (sv_config s)) \<and>
     (\<forall>x n. map_of (sv_connectionsBySource s) x = Some n \<longrightarrow> 0 < n)"

definition same_keys :: "server_system \<Rightarrow> bool" where
  "same_keys y \<longleftrightarrow> (\<forall>c. map_of (sv_connections (sy_server y)) c = None \<longleftrightarrow> map_of (sy_handling y) c = None)"

definition slots_inv :: "server_system \<Rightarrow> bool" where
  "slots_inv y \<longleftrightarrow> sv_slots (sy_server y) = int (slots_used y) \<and>
     sv_slots (sy_server y) \<le> svc_MaxTCPConnections (sv_config (sy_server y)) \<and>
     sv_workers (sy_server y) = int (length (sy_handling y) + sy_releasing y + sy_ending y)"

definition counts_inv :: "server_system \<Rightarrow> bool" where
  "counts_inv y \<longleftrightarrow> source_counts.counted y \<and> sources_inv (sy_server y) \<and> same_keys y \<and> slots_inv y"

text \<open>A connection is accepted once, and closed before it is released.\<close>

definition seen_inv :: "server_system \<Rightarrow> bool" where
  "seen_inv y \<longleftrightarrow>
     (\<forall>c v. map_of (sy_handling y) c = Some v \<longrightarrow> c \<in> sy_seen y \<and> (snd v \<longrightarrow> c \<in> sy_closed y)) \<and>
     (\<forall>c source. sy_acceptor y = Reserving c source \<longrightarrow> c \<in> sy_seen y \<and> map_of (sy_handling y) c = None)"

text \<open>What holds in each phase of \<^verbatim>\<open>Serve\<close>.\<close>

definition phase_inv :: "server_system \<Rightarrow> bool" where
  "phase_inv y \<longleftrightarrow>
     (case sy_serve y of
        NotServing _ \<Rightarrow> \<not> sv_serving (sy_server y) \<and> sy_acceptor y = AcceptorIdle \<and> sy_udp y = UdpIdle \<and>
          sy_handling y = [] \<and> sy_releasing y = 0 \<and> sy_ending y = 0
      | Serving \<Rightarrow> sv_serving (sy_server y) \<and> sy_acceptor y \<noteq> AcceptorIdle \<and> sy_udp y \<noteq> UdpIdle
      | Draining \<Rightarrow> sv_serving (sy_server y) \<and> sv_cancelled (sy_server y) \<and> sy_acceptor y \<noteq> AcceptorIdle \<and> sy_udp y \<noteq> UdpIdle
      | ClosingConnections cs \<Rightarrow> sv_serving (sy_server y) \<and> (\<exists>e. sy_acceptor y = AcceptorDone e) \<and> (\<exists>e. sy_udp y = UdpDone e) \<and>
          (\<forall>c v. map_of (sy_handling y) c = Some v \<longrightarrow> c \<in> sy_closed y \<or> c \<in> set cs)
      | AwaitingWorkers \<Rightarrow> sv_serving (sy_server y) \<and> (\<exists>e. sy_acceptor y = AcceptorDone e) \<and> (\<exists>e. sy_udp y = UdpDone e) \<and>
          (\<forall>c v. map_of (sy_handling y) c = Some v \<longrightarrow> c \<in> sy_closed y))"

text \<open>A shutdown during \<^verbatim>\<open>Serve\<close> has cancelled its context and closed its sockets.\<close>

definition stop_inv :: "Server \<Rightarrow> bool" where
  "stop_inv s \<longleftrightarrow> (sv_shuttingDown s \<longrightarrow> sv_serving s \<longrightarrow> sv_cancelled s \<and> sv_listenersClosed s)"

definition server_inv :: "server_system \<Rightarrow> bool" where
  "server_inv y \<longleftrightarrow> counts_inv y \<and> seen_inv y \<and> phase_inv y \<and> stop_inv (sy_server y)"

text \<open>A state with the same connections and counters.\<close>

lemma counts_inv_same:
  assumes i: "counts_inv y" and h: "sy_handling y' = sy_handling y"
    and c: "sv_connections (sy_server y') = sv_connections (sy_server y)"
    and n: "sv_connectionsBySource (sy_server y') = sv_connectionsBySource (sy_server y)"
    and g: "sv_config (sy_server y') = sv_config (sy_server y)" and sl: "slots_inv y'"
  shows "counts_inv y'"
  unfolding counts_inv_def source_counts.counted_def sources_inv_def same_keys_def h c n g
  using i sl unfolding counts_inv_def source_counts.counted_def sources_inv_def same_keys_def by (elim conjE, intro conjI)

lemma sources_inv_enter:
  "sources_inv s \<Longrightarrow> gm_count (sv_connectionsBySource s) source < svc_MaxTCPConnectionsPerSource (sv_config s) \<Longrightarrow>
   sources_inv (enter_connection c source s)"
  by (auto simp: sources_inv_def enter_connection_def add_pos_nonneg intro: add_nonneg_pos)

lemma sources_inv_release:
  assumes "sources_inv s"
  shows "sources_inv (release_locked c source s)"
proof -
  let ?m = "sv_connectionsBySource s" and ?limit = "svc_MaxTCPConnectionsPerSource (sv_config s)"
  have "0 \<le> gm_count ?m x" "gm_count ?m x \<le> ?limit" "\<And>n. map_of ?m x = Some n \<Longrightarrow> 0 < n" for x
    using assms by (auto simp: sources_inv_def)
  moreover from this(1,2) [of source] have "0 \<le> ?limit" "gm_count ?m source - 1 \<le> ?limit" by linarith+
  ultimately show ?thesis
    by (simp add: sources_inv_def release_locked_def Let_def not_le delete_conv map_of_update)
qed

lemma counts_inv_put:
  assumes i: "counts_inv y" and a: "sy_acceptor y = Reserving connection source"
    and n: "map_of (sy_handling y) connection = None"
    and r: "reserve_locked connection source (sy_server y) = (True, s)"
  shows "counts_inv ((sy_put connection (source, False) y)\<lparr>sy_acceptor := Accepting\<rparr>)"
proof -
  let ?y = "sy_put connection (source, False) y"
  have c: "source_counts.counted ?y" "sy_handling ?y = sy_handling y @ [(connection, source, False)]"
    using source_counts.counted_put [OF _ n, of "(source, False)"] i by (simp_all add: counts_inv_def)
  have "gm_count (sv_connectionsBySource (sy_server y)) source < svc_MaxTCPConnectionsPerSource (sv_config (sy_server y))"
    using r by (auto simp: reserve_locked_def split: if_splits)
  then have "sources_inv (sy_server ?y)" using i sources_inv_enter by (simp add: counts_inv_def sy_put_def)
  moreover have "same_keys ?y"
    using i by (auto simp: counts_inv_def same_keys_def sy_put_def enter_connection_def)
  moreover have "slots_inv (?y\<lparr>sy_acceptor := Accepting\<rparr>)"
    using i c(2) a by (simp add: counts_inv_def slots_inv_def slots_used_def) (simp add: sy_put_def enter_connection_def)
  ultimately show ?thesis using c(1) by (simp add: counts_inv_def source_counts.counted_def same_keys_def)
qed

lemma counts_inv_del:
  assumes i: "counts_inv y" and m: "map_of (sy_handling y) connection = Some (source, b)"
  shows "counts_inv ((sy_del connection (source, b) y)\<lparr>sy_releasing := Suc (sy_releasing y)\<rparr>)"
proof -
  let ?y = "sy_del connection (source, b) y"
  have c: "source_counts.counted ?y" using source_counts.counted_del [OF _ m] i by (simp add: counts_inv_def)
  have "gm_ok (sy_handling y)" using i by (simp add: counts_inv_def source_counts.counted_def)
  then have len: "length (sy_handling y) = Suc (length (sy_handling ?y))"
    using length_delete_present [OF _ m] by (simp add: sy_del_def)
  have "sources_inv (sy_server ?y)" using i sources_inv_release by (simp add: counts_inv_def sy_del_def)
  moreover have "same_keys ?y"
    using i by (auto simp: counts_inv_def same_keys_def sy_del_def release_locked_def Let_def)
  moreover have "sv_slots (sy_server ?y) = sv_slots (sy_server y)" "sv_workers (sy_server ?y) = sv_workers (sy_server y)"
    "sv_config (sy_server ?y) = sv_config (sy_server y)" "sy_acceptor ?y = sy_acceptor y" "sy_ending ?y = sy_ending y"
    "sy_releasing ?y = sy_releasing y"
    by (simp_all add: sy_del_def release_locked_def Let_def)
  then have "slots_inv (?y\<lparr>sy_releasing := Suc (sy_releasing y)\<rparr>)"
    using i len by (simp add: counts_inv_def slots_inv_def slots_used_def)
  ultimately show ?thesis using c by (simp add: counts_inv_def source_counts.counted_def same_keys_def)
qed

section \<open>The invariant is kept\<close>

lemma counts_inv_returned:
  assumes i: "counts_inv y" and m: "map_of (sy_handling y) connection = Some (source, False)"
  shows "counts_inv (y\<lparr>sy_handling := AList.update connection (source, True) (sy_handling y), sy_closed := closed\<rparr>)"
    (is "counts_inv ?y")
proof -
  have "source_counts.counted ?y"
    by (rule source_counts.counted_replace [OF _ m, of "(source, True)"]) (use i in \<open>simp_all add: counts_inv_def\<close>)
  moreover have "length (AList.update connection (source, True) (sy_handling y)) = length (sy_handling y)"
    using m by (rule length_update_old)
  then have "slots_inv ?y" using i by (simp add: counts_inv_def slots_inv_def slots_used_def)
  moreover have "same_keys ?y" using i m by (auto simp: counts_inv_def same_keys_def)
  moreover have "sources_inv (sy_server ?y)" using i by (simp add: counts_inv_def)
  ultimately show ?thesis by (simp only: counts_inv_def)
qed

lemma server_fields [simp]:
  "sv_config (release_slot s) = sv_config s" "sv_config (worker_Done s) = sv_config s" "sv_config (close_listeners s) = sv_config s"
  "sv_connections (release_slot s) = sv_connections s" "sv_connections (worker_Done s) = sv_connections s"
  "sv_connections (close_listeners s) = sv_connections s"
  "sv_connectionsBySource (release_slot s) = sv_connectionsBySource s"
  "sv_connectionsBySource (worker_Done s) = sv_connectionsBySource s"
  "sv_connectionsBySource (close_listeners s) = sv_connectionsBySource s"
  "sv_workers (release_slot s) = sv_workers s" "sv_workers (close_listeners s) = sv_workers s"
  "sv_slots (worker_Done s) = sv_slots s" "sv_slots (close_listeners s) = sv_slots s"
  "sv_serving (release_slot s) = sv_serving s" "sv_serving (worker_Done s) = sv_serving s" "sv_serving (close_listeners s) = sv_serving s"
  "sv_shuttingDown (release_slot s) = sv_shuttingDown s" "sv_shuttingDown (worker_Done s) = sv_shuttingDown s"
  "sv_shuttingDown (close_listeners s) = sv_shuttingDown s"
  "sv_cancelled (release_slot s) = sv_cancelled s" "sv_cancelled (worker_Done s) = sv_cancelled s" "sv_cancelled (close_listeners s)"
  "sv_listenersClosed (release_slot s) = sv_listenersClosed s" "sv_listenersClosed (worker_Done s) = sv_listenersClosed s"
  "sv_listenersClosed (close_listeners s)"
  by (simp_all add: release_slot_def worker_Done_def close_listeners_def)

lemma turn_away_fields [simp]:
  "sy_handling (turn_away c y) = sy_handling y" "sy_server (turn_away c y) = sy_server y"
  "sy_releasing (turn_away c y) = sy_releasing y" "sy_ending (turn_away c y) = sy_ending y"
  "sy_seen (turn_away c y) = sy_seen y" "sy_serve (turn_away c y) = sy_serve y" "sy_udp (turn_away c y) = sy_udp y"
  "sy_closed (turn_away c y) = insert c (sy_closed y)"
  "sy_acceptor (turn_away c y) = (if sv_cancelled (sy_server y) then AcceptorDone None else Accepting)"
  by (simp_all add: turn_away_def)

lemma begin_fields:
  assumes "Serve_begin True True s = (None, s')"
  shows "sv_config s' = sv_config s" "sv_connections s' = sv_connections s" "sv_slots s' = sv_slots s"
    "sv_connectionsBySource s' = sv_connectionsBySource s" "sv_workers s' = sv_workers s"
    "sv_shuttingDown s' = sv_shuttingDown s" "\<not> sv_shuttingDown s" "\<not> sv_serving s" "sv_serving s'"
  using assms by (auto simp: Serve_begin_def split: if_splits)

lemma end_fields:
  assumes "Serve_end first second s = (r, s')"
  shows "s' = s\<lparr>sv_serving := False\<rparr>" "r = (if sv_shuttingDown s then None else if first \<noteq> None then first else second)"
  using assms by (auto simp: Serve_end_def Let_def)

lemma refused_slot: "reserve_locked c source s = (False, s') \<Longrightarrow> s' = release_slot s"
  by (auto simp: reserve_locked_def split: if_splits)

lemma entered_slot:
  "reserve_locked c source s = (True, s') \<Longrightarrow> s' = enter_connection c source s \<and> \<not> sv_shuttingDown s"
  by (auto simp: reserve_locked_def split: if_splits)

lemma acquired_slot:
  "acquire_slot s = (True, s') \<Longrightarrow> s' = s\<lparr>sv_slots := sv_slots s + 1\<rparr> \<and> sv_slots s < svc_MaxTCPConnections (sv_config s)"
  by (auto simp: acquire_slot_def split: if_splits)

text \<open>Steps that do not touch the connections keep the counters.\<close>

lemma counts_inv_quiet:
  assumes i: "counts_inv y" and "sy_handling y' = sy_handling y" "sy_server y' = sy_server y"
    "sy_releasing y' = sy_releasing y" "sy_ending y' = sy_ending y" "slots_used y' = slots_used y"
  shows "counts_inv y'"
proof (rule counts_inv_same [OF i])
  show "slots_inv y'" using assms by (simp add: counts_inv_def slots_inv_def)
qed (use assms in simp_all)

lemma counts_inv_step:
  assumes "serve_step env peer y y'" and i: "counts_inv y" and seen: "seen_inv y" and phase: "phase_inv y"
  shows "counts_inv y'"
  using assms(1)
proof cases
  case (serve_starts r s)
  have idle: "sy_acceptor y = AcceptorIdle" using phase serve_starts(2) by (simp add: phase_inv_def)
  show ?thesis
    by (rule counts_inv_same [OF i])
      (use i idle begin_fields [OF serve_starts(3)] in
        \<open>simp_all add: serve_starts(1) counts_inv_def slots_inv_def slots_used_def\<close>)
next
  case (accept_slot connection source s)
  show ?thesis
    by (rule counts_inv_same [OF i])
      (use i accept_slot(3) acquired_slot [OF accept_slot(6)] in
        \<open>simp_all add: accept_slot(1) counts_inv_def slots_inv_def slots_used_def\<close>)
next
  case (reserve_entered connection source s)
  then show ?thesis using counts_inv_put [OF i reserve_entered(2) _ reserve_entered(3)] seen by (simp add: seen_inv_def)
next
  case (reserve_refused connection source s)
  show ?thesis
    by (rule counts_inv_same [OF i])
      (use i reserve_refused(2) refused_slot [OF reserve_refused(3)] in
        \<open>simp_all add: reserve_refused(1) counts_inv_def slots_inv_def slots_used_def release_slot_def\<close>)
next
  case (first_result e)
  show ?thesis
    by (rule counts_inv_same [OF i]) (use i in \<open>simp_all add: first_result(1) counts_inv_def slots_inv_def slots_used_def\<close>)
next
  case (serve_returns first second r s)
  have over: "\<exists>e. sy_acceptor y = AcceptorDone e" using phase serve_returns(2) by (simp add: phase_inv_def)
  show ?thesis
    by (rule counts_inv_same [OF i])
      (use i over end_fields(1) [OF serve_returns(4)] in
        \<open>auto simp add: serve_returns(1) counts_inv_def slots_inv_def slots_used_def\<close>)
next
  case (handler_returns connection source)
  then show ?thesis using counts_inv_returned [OF i handler_returns(3)] by simp
next
  case (connection_released connection source)
  then show ?thesis using counts_inv_del [OF i connection_released(2)] by simp
next
  case (slot_released n)
  show ?thesis
    by (rule counts_inv_same [OF i])
      (use i slot_released(2) in
        \<open>simp_all add: slot_released(1) counts_inv_def slots_inv_def slots_used_def release_slot_def\<close>)
next
  case (worker_ends n)
  show ?thesis
    by (rule counts_inv_same [OF i])
      (use i worker_ends(2) in \<open>simp_all add: worker_ends(1) counts_inv_def slots_inv_def slots_used_def worker_Done_def\<close>)
qed (rule counts_inv_quiet [OF i]; simp add: slots_used_def)+

lemma seen_inv_step:
  assumes "serve_step env peer y y'" and i: "seen_inv y"
  shows "seen_inv y'"
  using assms(1)
proof cases
  case (reserve_entered connection source s)
  then show ?thesis using i by (auto simp: seen_inv_def sy_put_def)
next
  case (handler_returns connection source)
  then show ?thesis using i by (auto simp: seen_inv_def split: if_splits)
next
  case (connection_released connection source)
  then show ?thesis using i by (auto simp: seen_inv_def sy_del_def delete_conv)
next
  case (accept_slot connection source s)
  moreover have "map_of (sy_handling y) connection = None"
    using accept_slot(4) i by (cases "map_of (sy_handling y) connection") (auto simp: seen_inv_def)
  ultimately show ?thesis using i by (auto simp: seen_inv_def)
qed (use i in \<open>auto simp: seen_inv_def split: if_splits\<close>)

lemma locked_fields [simp]:
  "sv_serving (enter_connection c source s) = sv_serving s" "sv_cancelled (enter_connection c source s) = sv_cancelled s"
  "sv_shuttingDown (enter_connection c source s) = sv_shuttingDown s"
  "sv_listenersClosed (enter_connection c source s) = sv_listenersClosed s"
  "sv_serving (release_locked c source s) = sv_serving s" "sv_cancelled (release_locked c source s) = sv_cancelled s"
  "sv_shuttingDown (release_locked c source s) = sv_shuttingDown s"
  "sv_listenersClosed (release_locked c source s) = sv_listenersClosed s"
  by (simp_all add: enter_connection_def release_locked_def Let_def)

lemma stop_inv_step:
  assumes "serve_step env peer y y'" and i: "stop_inv (sy_server y)"
  shows "stop_inv (sy_server y')"
  using assms(1)
proof cases
  case (serve_starts r s)
  then show ?thesis using begin_fields [OF serve_starts(3)] by (simp add: stop_inv_def)
next
  case (accept_slot connection source s)
  then show ?thesis using i acquired_slot [OF accept_slot(6)] by (simp add: stop_inv_def)
next
  case (reserve_refused connection source s)
  then show ?thesis using i refused_slot [OF reserve_refused(3)] by (simp add: stop_inv_def)
next
  case (serve_returns first second r s)
  then show ?thesis using end_fields(1) [OF serve_returns(4)] by (simp add: stop_inv_def)
qed (use i in \<open>simp_all add: stop_inv_def sy_put_def sy_del_def\<close>)

lemma phase_inv_step:
  assumes "serve_step env peer y y'" and i: "phase_inv y" and c: "counts_inv y"
  shows "phase_inv y'"
  using assms(1)
proof cases
  case (serve_starts r s)
  then show ?thesis using begin_fields [OF serve_starts(3)] by (simp add: phase_inv_def)
next
  case (accept_refused connection)
  then show ?thesis using i by (auto simp: phase_inv_def split: serve_state.splits)
next
  case (accept_slot connection source s)
  then show ?thesis using i acquired_slot [OF accept_slot(6)] by (auto simp: phase_inv_def split: serve_state.splits)
next
  case (reserve_entered connection source s)
  then show ?thesis using i by (auto simp: phase_inv_def sy_put_def split: serve_state.splits)
next
  case (reserve_refused connection source s)
  then show ?thesis using i refused_slot [OF reserve_refused(3)] by (auto simp: phase_inv_def split: serve_state.splits)
next
  case (second_result e e')
  have "c' \<in> set (closeConnections (sy_server y))" if "map_of (sy_handling y) c' = Some v" for c' v
  proof -
    have "map_of (sv_connections (sy_server y)) c' \<noteq> None"
      using c that by (auto simp: counts_inv_def same_keys_def)
    then show ?thesis by (simp add: closeConnections_def map_of_eq_None_iff)
  qed
  then show ?thesis using second_result i by (simp add: phase_inv_def)
next
  case (serve_returns first second r s)
  have "int (length (sy_handling y) + sy_releasing y + sy_ending y) = 0"
    using c serve_returns(3) by (simp only: counts_inv_def slots_inv_def)
  then have "length (sy_handling y) = 0" "sy_releasing y = 0" "sy_ending y = 0" by linarith+
  then show ?thesis using serve_returns(1) end_fields(1) [OF serve_returns(4)] by (simp add: phase_inv_def)
next
  case (handler_returns connection source)
  then show ?thesis using i by (auto simp: phase_inv_def split: serve_state.splits if_splits)
next
  case (connection_released connection source)
  then show ?thesis using i by (auto simp: phase_inv_def sy_del_def delete_conv split: serve_state.splits)
qed (use i in \<open>auto simp: phase_inv_def split: serve_state.splits\<close>)

lemma shutdown_fields:
  assumes "Shutdown_begin s = (waits, s')"
  shows "sv_config s' = sv_config s" "sv_connections s' = sv_connections s" "sv_slots s' = sv_slots s"
    "sv_connectionsBySource s' = sv_connectionsBySource s" "sv_workers s' = sv_workers s"
    "sv_shuttingDown s'" "sv_serving s' = sv_serving s" "sv_cancelled s \<Longrightarrow> sv_cancelled s'"
    "stop_inv s \<Longrightarrow> stop_inv s'"
  using assms by (auto simp: Shutdown_begin_def stop_inv_def split: if_splits)

lemma server_inv_shutdown:
  assumes "shutdown_step y y'" and i: "server_inv y"
  shows "server_inv y'"
  using assms(1)
proof cases
  case (shutdown_begins waits s)
  note f = shutdown_fields [OF shutdown_begins(2)]
  have "counts_inv y'"
    by (rule counts_inv_same [of y])
      (use i f in \<open>simp_all add: shutdown_begins(1) server_inv_def counts_inv_def slots_inv_def slots_used_def\<close>)
  moreover have "seen_inv y'" using i by (simp add: shutdown_begins(1) server_inv_def seen_inv_def)
  moreover have "phase_inv y'" using i f by (auto simp: shutdown_begins(1) server_inv_def phase_inv_def split: serve_state.splits)
  moreover have "stop_inv (sy_server y')" using i f by (simp add: shutdown_begins(1) server_inv_def)
  ultimately show ?thesis by (simp add: server_inv_def)
next
  case shutdown_collects
  have "counts_inv y'" by (rule counts_inv_quiet [of y]) (use i in \<open>simp_all add: shutdown_collects server_inv_def slots_used_def\<close>)
  moreover have "seen_inv y'" using i by (simp add: shutdown_collects server_inv_def seen_inv_def)
  moreover have "phase_inv y'" using i by (auto simp: shutdown_collects server_inv_def phase_inv_def split: serve_state.splits)
  ultimately show ?thesis using i by (simp add: shutdown_collects server_inv_def)
next
  case (shutdown_closes connection)
  have "counts_inv y'" by (rule counts_inv_quiet [of y]) (use i in \<open>simp_all add: shutdown_closes(1) server_inv_def slots_used_def\<close>)
  moreover have "seen_inv y'" using i by (auto simp: shutdown_closes(1) server_inv_def seen_inv_def)
  moreover have "phase_inv y'" using i by (auto simp: shutdown_closes(1) server_inv_def phase_inv_def split: serve_state.splits)
  ultimately show ?thesis using i by (simp add: shutdown_closes(1) server_inv_def)
qed

lemma server_inv_serve: "serve_step env peer y y' \<Longrightarrow> server_inv y \<Longrightarrow> server_inv y'"
  using counts_inv_step seen_inv_step phase_inv_step stop_inv_step unfolding server_inv_def by metis

lemma New_fields:
  assumes "server_New config True = Inr s"
  shows "sv_serving s = False" "sv_shuttingDown s = False" "sv_connections s = []" "sv_connectionsBySource s = []"
    "sv_workers s = 0" "sv_slots s = 0" "normalizeConfig config = Inr (sv_config s)"
  using assms by (auto simp: server_New_def split: sum.splits)

lemma server_inv_start:
  assumes "server_start y"
  shows "server_inv y"
proof -
  obtain config r where n: "server_New config True = Inr (sy_server y)" and r: "sy_serve y = NotServing r"
    using assms by (auto simp: server_start_def)
  note f = New_fields [OF n]
  have "1 \<le> svc_MaxTCPConnectionsPerSource (sv_config (sy_server y))" "1 \<le> svc_MaxTCPConnections (sv_config (sy_server y))"
    using f(7) by (auto simp: normalizeConfig_filled Let_def split: if_splits)
  then show ?thesis
    using assms f r
    by (simp add: server_start_def server_inv_def counts_inv_def source_counts.counted_def sources_inv_def same_keys_def
        slots_inv_def slots_used_def seen_inv_def phase_inv_def stop_inv_def)
qed

lemma server_inv_reach: "server_reaches peer y y' \<Longrightarrow> server_inv y \<Longrightarrow> server_inv y'"
  by (induction rule: server_reaches.induct) (auto intro: server_inv_serve server_inv_shutdown)

lemma config_kept: "server_reaches peer y y' \<Longrightarrow> sv_config (sy_server y') = sv_config (sy_server y)"
proof (induction rule: server_reaches.induct)
  case (server_serves y z z')
  have "sv_config (sy_server z') = sv_config (sy_server z)"
    using server_serves.hyps(2)
  proof cases
    case (serve_returns first second r s)
    then show ?thesis using end_fields(1) [OF serve_returns(4)] by simp
  qed (auto simp: begin_fields acquired_slot sy_put_def sy_del_def enter_connection_def release_locked_def Let_def
      dest!: acquired_slot refused_slot)
  with server_serves show ?case by simp
next
  case (server_shuts y z z')
  from server_shuts.hyps(2) have "sv_config (sy_server z') = sv_config (sy_server z)"
    by cases (simp_all add: shutdown_fields)
  with server_shuts show ?case by simp
qed simp

section \<open>Shutting down\<close>

text \<open>After a call of \<^verbatim>\<open>Shutdown\<close> no step adds a connection.\<close>

lemma handled_shrinks:
  assumes "serve_step env peer y y'" and "sv_shuttingDown (sy_server y)"
  shows "sv_shuttingDown (sy_server y') \<and> set (map fst (sy_handling y')) \<subseteq> set (map fst (sy_handling y))"
  using assms(1)
proof cases
  case (serve_starts r s)
  then show ?thesis using begin_fields [OF serve_starts(3)] assms(2) by simp
next
  case (accept_slot connection source s)
  then show ?thesis using acquired_slot [OF accept_slot(6)] assms(2) by simp
next
  case (reserve_entered connection source s)
  then show ?thesis using entered_slot [OF reserve_entered(3)] assms(2) by simp
next
  case (reserve_refused connection source s)
  then show ?thesis using refused_slot [OF reserve_refused(3)] assms(2) by simp
next
  case (serve_returns first second r s)
  then show ?thesis using end_fields(1) [OF serve_returns(4)] assms(2) by simp
next
  case (handler_returns connection source)
  then show ?thesis using assms(2) by (auto simp: dom_update rev_image_eqI dest!: map_of_SomeD)
next
  case (connection_released connection source)
  then show ?thesis using assms(2) by (auto simp: sy_del_def AList.delete_eq)
qed (use assms(2) in simp_all)

lemma handled_shrinks_run:
  assumes "server_reaches peer y y'" and "sv_shuttingDown (sy_server y)"
  shows "sv_shuttingDown (sy_server y') \<and> set (map fst (sy_handling y')) \<subseteq> set (map fst (sy_handling y))"
  using assms
proof (induction rule: server_reaches.induct)
  case (server_serves y z z')
  then show ?case using handled_shrinks [of True peer z z'] by blast
next
  case (server_shuts y z z')
  from server_shuts.hyps(2) have "sy_handling z' = sy_handling z \<and> (sv_shuttingDown (sy_server z) \<longrightarrow> sv_shuttingDown (sy_server z'))"
    by cases (simp_all add: shutdown_fields)
  with server_shuts show ?case by simp
qed simp

text \<open>How much \<^verbatim>\<open>Serve\<close> has left to do: its phase, and the work within the phase.\<close>

definition shutdown_rank :: "server_system \<Rightarrow> nat \<times> nat" where
  "shutdown_rank y =
     (case sy_serve y of NotServing _ \<Rightarrow> 0 | AwaitingWorkers \<Rightarrow> 1 | ClosingConnections _ \<Rightarrow> 2 | Draining \<Rightarrow> 3 | Serving \<Rightarrow> 4,
      (case sy_acceptor y of Accepting \<Rightarrow> 2 | Reserving _ _ \<Rightarrow> 1 | _ \<Rightarrow> 0) +
      (case sy_udp y of UdpRunning \<Rightarrow> 1 | _ \<Rightarrow> 0) +
      (case sy_serve y of ClosingConnections cs \<Rightarrow> length cs | _ \<Rightarrow> 0) +
      3 * length (sy_handling y) + owned snd (sy_handling y) False + 2 * sy_releasing y + sy_ending y)"

definition stopping :: "server_system \<Rightarrow> bool" where
  "stopping y \<longleftrightarrow> sv_shuttingDown (sy_server y) \<and> (\<forall>r. sy_serve y = NotServing r \<longrightarrow> r = None)"

lemma owned_update_less:
  "map_of m k = Some v \<Longrightarrow> owner v = x \<Longrightarrow> owner w \<noteq> x \<Longrightarrow> Suc (owned owner (AList.update k w m) x) = owned owner m x"
  by (induction m) (auto simp: owned_Cons split: if_splits)

lemma cancelled_when_stopping:
  assumes "server_inv y" and "stopping y" and "sy_acceptor y \<noteq> AcceptorIdle"
  shows "sv_cancelled (sy_server y)"
proof -
  have "sv_serving (sy_server y)"
    using assms(1,3) by (auto simp: server_inv_def phase_inv_def split: serve_state.splits)
  then show ?thesis using assms(1,2) by (auto simp: server_inv_def stop_inv_def stopping_def)
qed

lemma rank_decreases:
  assumes "serve_step env peer y y'" and i: "server_inv y" and s: "stopping y"
  shows "(shutdown_rank y', shutdown_rank y) \<in> less_than <*lex*> less_than"
  using assms(1)
proof cases
  case (serve_starts r s')
  then show ?thesis using begin_fields(7) [OF serve_starts(3)] s by (simp add: stopping_def)
next
  case (accept_refused connection)
  then show ?thesis using cancelled_when_stopping [OF i s] by (simp add: shutdown_rank_def)
next
  case (reserve_entered connection source s')
  then show ?thesis using entered_slot [OF reserve_entered(3)] s by (simp add: stopping_def)
next
  case (reserve_refused connection source s')
  then show ?thesis
    using cancelled_when_stopping [OF i s] refused_slot [OF reserve_refused(3)] by (simp add: shutdown_rank_def)
next
  case (handler_returns connection source)
  then show ?thesis
    using owned_update_less [OF handler_returns(3), of snd False "(source, True)"]
    by (simp add: shutdown_rank_def length_update_old)
next
  case (connection_released connection source)
  have ok: "gm_ok (sy_handling y)" using i by (simp add: server_inv_def counts_inv_def source_counts.counted_def)
  show ?thesis
    using connection_released length_delete_present [OF ok connection_released(2)]
      owned_delete [OF ok connection_released(2), of snd False]
    by (simp add: shutdown_rank_def sy_del_def)
qed (use i in \<open>auto simp: shutdown_rank_def server_inv_def phase_inv_def\<close>)

lemma stopping_step:
  assumes "serve_step env peer y y'" and s: "stopping y"
  shows "stopping y'"
proof -
  have "sv_shuttingDown (sy_server y')" using handled_shrinks [OF assms(1)] s by (simp add: stopping_def)
  moreover have "r = None" if "sy_serve y' = NotServing r" for r
    using assms(1)
  proof cases
    case (serve_returns first second r' s')
    then show ?thesis using that end_fields(2) [OF serve_returns(4)] s by (simp add: stopping_def)
  qed (use s that in \<open>auto simp: stopping_def sy_put_def sy_del_def\<close>)
  ultimately show ?thesis by (simp add: stopping_def)
qed

lemma stopping_shutdown:
  assumes "shutdown_step y y'" and "stopping y"
  shows "stopping y'"
proof -
  from assms(1) have "sy_serve y' = sy_serve y" "sv_shuttingDown (sy_server y) \<Longrightarrow> sv_shuttingDown (sy_server y')"
    by (cases; simp add: shutdown_fields)+
  with assms(2) show ?thesis by (simp add: stopping_def)
qed

lemma stopping_run:
  assumes "server_reaches peer y y'" and "stopping y"
  shows "stopping y'"
  using assms
proof (induction rule: server_reaches.induct)
  case (server_serves y z z')
  show ?case by (rule stopping_step [OF server_serves.hyps(2) server_serves.IH [OF server_serves.prems]])
next
  case (server_shuts y z z')
  show ?case by (rule stopping_shutdown [OF server_shuts.hyps(2) server_shuts.IH [OF server_shuts.prems]])
qed

lemma rank_shutdown_step: "shutdown_step y y' \<Longrightarrow> shutdown_rank y' = shutdown_rank y"
  by (erule shutdown_stepE) (simp_all add: shutdown_rank_def)

text \<open>Until \<^verbatim>\<open>Serve\<close> has returned some goroutine can go on, whatever the world outside does: what it waits for
  has been closed.\<close>

lemma workers_progress:
  assumes "sy_serve y = AwaitingWorkers" and i: "server_inv y"
  shows "\<exists>y'. serve_step False peer y y'"
proof -
  consider (entry) c source b m where "sy_handling y = (c, source, b) # m"
    | (slot) n where "sy_releasing y = Suc n" | (worker) n where "sy_ending y = Suc n"
    | (none) "sy_handling y = []" "sy_releasing y = 0" "sy_ending y = 0"
    by (cases "sy_handling y"; cases "sy_releasing y"; cases "sy_ending y") auto
  then show ?thesis
  proof cases
    case (entry c source b m)
    then have m: "map_of (sy_handling y) c = Some (source, b)" by simp
    moreover from m have "c \<in> sy_closed y" using assms(1) i by (simp add: server_inv_def phase_inv_def)
    ultimately show ?thesis
      using handler_returns [of False c y source] connection_released [of y c source] by (cases b) auto
  next
    case none
    then have "sv_workers (sy_server y) = 0" using i by (simp add: server_inv_def counts_inv_def slots_inv_def)
    then show ?thesis
      using serve_returns [OF assms(1) _ prod.collapse [symmetric], where first = None and second = None] by blast
  next
    case (slot n)
    then show ?thesis using slot_released [of y n False] by blast
  next
    case (worker n)
    then show ?thesis using worker_ends [of y n False] by blast
  qed
qed

lemma loops_progress:
  assumes "sy_serve y = Serving \<or> sy_serve y = Draining" and i: "server_inv y" and s: "stopping y"
  shows "\<exists>y'. serve_step False peer y y'"
proof -
  have idle: "sy_acceptor y \<noteq> AcceptorIdle" "sy_udp y \<noteq> UdpIdle"
    using assms by (auto simp: server_inv_def phase_inv_def)
  have closed: "sv_listenersClosed (sy_server y)"
    using assms by (auto simp: server_inv_def phase_inv_def stop_inv_def stopping_def)
  show ?thesis
  proof (cases "sy_acceptor y")
    case (Reserving c source)
    obtain b s where "reserve_locked c source (sy_server y) = (b, s)" by fastforce
    then show ?thesis
      using reserve_entered [OF Reserving, of s] reserve_refused [OF Reserving, of s] by (cases b) auto
  next
    case (AcceptorDone e)
    show ?thesis
    proof (cases "sy_udp y")
      case UdpRunning
      then show ?thesis using udp_fails closed by blast
    next
      case (UdpDone e')
      show ?thesis
        using assms(1) first_result [of y e] second_result [of y, OF _ AcceptorDone UdpDone] AcceptorDone by blast
    qed (use idle in simp)
  next
    case Accepting
    then show ?thesis using accept_fails closed by blast
  qed (use idle in simp)
qed

lemma serve_progress:
  assumes "server_inv y" and "stopping y"
  shows "(sy_serve y \<noteq> NotServing None \<longrightarrow> (\<exists>y'. serve_step False peer y y')) \<and>
    (sy_serve y = NotServing None \<longrightarrow> (\<forall>y'. \<not> serve_step True peer y y'))"
proof (cases "sy_serve y")
  case (NotServing r)
  have "\<not> serve_step True peer y y'" for y'
  proof
    assume "serve_step True peer y y'"
    then show False
      using assms NotServing
      by cases (auto simp: server_inv_def phase_inv_def stopping_def dest: begin_fields(7))
  qed
  then show ?thesis using NotServing assms(2) by (auto simp: stopping_def)
next
  case (ClosingConnections cs)
  then show ?thesis by (cases cs) (auto intro: serve_closes serve_waits)
qed (use loops_progress workers_progress assms in auto)

section \<open>Properties\<close>

lemma no_entries: "(\<And>k. map_of m k = None) \<Longrightarrow> m = []"
proof (rule ccontr)
  assume none: "\<And>k. map_of m k = None" and "m \<noteq> []"
  then obtain k v m' where "m = (k, v) # m'" by (metis list.exhaust surj_pair)
  then show False using none [of k] by simp
qed

lemma running_server_inv: "server_start z \<Longrightarrow> server_reaches peer z y \<Longrightarrow> server_inv y"
  using server_inv_reach server_inv_start by blast

text \<open>A running server with one connection and one more on its way, and the same after a call of \<^verbatim>\<open>Shutdown\<close>.\<close>

definition sample_start :: server_system where
  "sample_start = \<lparr>sy_server = idle_server, sy_handling = [], sy_releasing = 0, sy_ending = 0, sy_acceptor = AcceptorIdle,
     sy_udp = UdpIdle, sy_serve = NotServing None, sy_closed = {}, sy_seen = {}, sy_owed = {}\<rparr>"

definition sample_entered :: server_system where
  "sample_entered = sample_start\<lparr>sy_serve := Serving, sy_udp := UdpRunning, sy_acceptor := Accepting, sy_seen := {5},
     sy_handling := [(5, ascii ''192.0.2.7'', False)],
     sy_server := idle_server\<lparr>sv_serving := True, sv_slots := 1, sv_workers := 1, sv_connections := [(5, ())],
       sv_connectionsBySource := [(ascii ''192.0.2.7'', 1)]\<rparr>\<rparr>"

definition sample_stopped :: server_system where
  "sample_stopped = sample_entered\<lparr>sy_server := snd (Shutdown_begin (sy_server sample_entered))\<rparr>"

lemma sample_start_ok: "server_start sample_start"
  using idle_server_New by (auto simp: server_start_def sample_start_def)

lemma sample_entered_reached: "server_reaches (\<lambda>_. sample_peer) sample_start sample_entered"
proof -
  let ?p = "\<lambda>_::nat. sample_peer" and ?source = "ascii ''192.0.2.7''"
  let ?s = "idle_server\<lparr>sv_serving := True\<rparr>"
  let ?y1 = "sample_start\<lparr>sy_server := ?s, sy_serve := Serving, sy_acceptor := Accepting, sy_udp := UdpRunning\<rparr>"
  let ?y2 = "?y1\<lparr>sy_seen := insert 5 (sy_seen ?y1), sy_server := ?s\<lparr>sv_slots := 1\<rparr>, sy_acceptor := Reserving 5 ?source\<rparr>"
  have 1: "serve_step True ?p sample_start ?y1"
    by (rule serve_starts [where r = None]) (simp_all add: sample_start_def Serve_begin_def idle_server_def)
  have 2: "serve_step True ?p ?y1 ?y2"
    by (rule accept_slot)
      (simp_all add: sample_start_def sample_source acquire_slot_def idle_server_def DefaultConfig_def)
  have 3: "serve_step True ?p ?y2 ((sy_put 5 (?source, False) ?y2)\<lparr>sy_acceptor := Accepting\<rparr>)"
    by (rule reserve_entered) (simp_all add: reserve_locked_def sample_start_def idle_server_def DefaultConfig_def)
  have 4: "(sy_put 5 (?source, False) ?y2)\<lparr>sy_acceptor := Accepting\<rparr> = sample_entered"
    by (simp add: sy_put_def enter_connection_def sample_entered_def sample_start_def idle_server_def)
  show ?thesis by (rule server_serves [OF server_serves [OF server_serves [OF server_refl 1] 2] 3, unfolded 4])
qed

lemma sample_stopped_reached: "server_reaches (\<lambda>_. sample_peer) sample_start sample_stopped"
  unfolding sample_stopped_def
  by (rule server_shuts [OF sample_entered_reached shutdown_begins [OF prod.collapse [symmetric]]])

text \<open>\<^verbatim>\<open>Serve\<close> goes on from there: both loops return, the connection is closed, and it waits for the worker.\<close>

definition sample_waiting :: server_system where
  "sample_waiting = sample_stopped\<lparr>sy_acceptor := AcceptorDone None, sy_udp := UdpDone None,
     sy_server := close_listeners (sy_server sample_stopped), sy_closed := {5}, sy_serve := AwaitingWorkers\<rparr>"

lemma server_reaches_trans: "server_reaches peer y z \<Longrightarrow> server_reaches peer x y \<Longrightarrow> server_reaches peer x z"
  by (induction rule: server_reaches.induct) (auto intro: server_serves server_shuts)

lemmas sample_defs = sample_stopped_def sample_entered_def sample_start_def idle_server_def DefaultConfig_def
  Shutdown_begin_def close_listeners_def loop_error_def

lemma sample_waiting_reached: "server_reaches (\<lambda>_. sample_peer) sample_start sample_waiting"
proof -
  let ?p = "\<lambda>_::nat. sample_peer" and ?e = "IoErr NetErrClosed"
  let ?y1 = "sample_stopped\<lparr>sy_acceptor := AcceptorDone None\<rparr>"
  let ?y2 = "?y1\<lparr>sy_udp := UdpDone None\<rparr>"
  let ?y3 = "?y2\<lparr>sy_server := close_listeners (sy_server sample_stopped), sy_serve := Draining\<rparr>"
  let ?y4 = "?y3\<lparr>sy_serve := ClosingConnections [5]\<rparr>"
  let ?y5 = "?y4\<lparr>sy_closed := {5}, sy_serve := ClosingConnections []\<rparr>"
  have 1: "serve_step True ?p sample_stopped ?y1"
    using accept_fails [of True sample_stopped ?p ?e] by (simp add: sample_defs)
  have 2: "serve_step True ?p ?y1 ?y2" using udp_fails [of True ?y1 ?p ?e] by (simp add: sample_defs)
  have 3: "serve_step True ?p ?y2 ?y3" using first_result [of ?y2 None True ?p] by (simp add: sample_defs)
  have 4: "serve_step True ?p ?y3 ?y4"
    using second_result [of ?y3 None None True ?p] by (simp add: sample_defs closeConnections_def)
  have 5: "serve_step True ?p ?y4 ?y5" using serve_closes [of ?y4 5 "[]" True ?p] by (simp add: sample_defs)
  have 6: "serve_step True ?p ?y5 sample_waiting"
    using serve_waits [of ?y5 True ?p] by (simp add: sample_waiting_def)
  show ?thesis
    by (intro server_serves [OF _ 6] server_serves [OF _ 5] server_serves [OF _ 4] server_serves [OF _ 3]
        server_serves [OF _ 2] server_serves [OF _ 1] sample_stopped_reached)
qed

lemma sample_ended_reached:
  "\<exists>y. server_reaches (\<lambda>_. sample_peer) sample_waiting y \<and> sy_serve y = NotServing None \<and> sy_seen y = {5}"
proof -
  let ?p = "\<lambda>_::nat. sample_peer" and ?source = "ascii ''192.0.2.7''"
  let ?y1 = "sample_waiting\<lparr>sy_handling := AList.update 5 (?source, True) (sy_handling sample_waiting),
    sy_closed := insert 5 (sy_closed sample_waiting)\<rparr>"
  let ?y2 = "(sy_del 5 (?source, True) ?y1)\<lparr>sy_releasing := Suc (sy_releasing ?y1)\<rparr>"
  let ?y3 = "?y2\<lparr>sy_server := release_slot (sy_server ?y2), sy_releasing := 0, sy_ending := Suc (sy_ending ?y2)\<rparr>"
  let ?y4 = "?y3\<lparr>sy_server := worker_Done (sy_server ?y3), sy_ending := 0\<rparr>"
  let ?e = "Serve_end None None (sy_server ?y4)"
  let ?y5 = "?y4\<lparr>sy_server := snd ?e, sy_serve := NotServing (fst ?e), sy_acceptor := AcceptorIdle, sy_udp := UdpIdle\<rparr>"
  note defs = sample_waiting_def sample_defs sy_del_def release_locked_def Let_def worker_Done_def release_slot_def
  have 1: "serve_step True ?p sample_waiting ?y1" by (rule handler_returns) (simp_all add: defs)
  have 2: "serve_step True ?p ?y1 ?y2" by (rule connection_released) simp
  have 3: "serve_step True ?p ?y2 ?y3" by (rule slot_released) (simp add: defs)
  have 4: "serve_step True ?p ?y3 ?y4" by (rule worker_ends) (simp add: defs)
  have 5: "serve_step True ?p ?y4 ?y5"
    by (rule serve_returns [OF _ _ prod.collapse [symmetric]]) (simp_all add: defs)
  have "server_reaches ?p sample_waiting ?y5"
    by (intro server_serves [OF _ 5] server_serves [OF _ 4] server_serves [OF _ 3] server_serves [OF _ 2]
        server_serves [OF _ 1] server_refl)
  moreover have "sy_serve ?y5 = NotServing None" "sy_seen ?y5 = {5}" by (simp_all add: defs Serve_end_def)
  ultimately show ?thesis by blast
qed

text \<open>C8: whatever the peers and the callers of \<^verbatim>\<open>Shutdown\<close> do, a running server never handles more connections
  than its limit, and never more of one source than the limit per source; its counters, its set of
  connections and the slots of its semaphore agree exactly with the connections that are handled.\<close>

theorem connection_limits:
  assumes "server_start z" and "server_reaches peer z y"
  shows "sv_config (sy_server y) = sv_config (sy_server z) \<and>
    int (length (sy_handling y)) \<le> svc_MaxTCPConnections (sv_config (sy_server y)) \<and>
    (\<forall>source. int (owned fst (sy_handling y) source) \<le> svc_MaxTCPConnectionsPerSource (sv_config (sy_server y)) \<and>
       gm_count (sv_connectionsBySource (sy_server y)) source = int (owned fst (sy_handling y) source)) \<and>
    (\<forall>c. map_of (sv_connections (sy_server y)) c = None \<longleftrightarrow> map_of (sy_handling y) c = None) \<and>
    sv_slots (sy_server y) = int (slots_used y)"
proof -
  have i: "counts_inv y" using running_server_inv [OF assms] by (simp add: server_inv_def)
  have c: "gm_count (sv_connectionsBySource (sy_server y)) source = int (owned fst (sy_handling y) source)" for source
    using i by (simp add: counts_inv_def source_counts.counted_def)
  have "int (owned fst (sy_handling y) source) \<le> svc_MaxTCPConnectionsPerSource (sv_config (sy_server y))" for source
    using i c [of source] unfolding counts_inv_def sources_inv_def by metis
  moreover have "int (length (sy_handling y)) \<le> svc_MaxTCPConnections (sv_config (sy_server y))"
    using i by (simp add: counts_inv_def slots_inv_def slots_used_def split: acceptor.splits)
  ultimately show ?thesis
    using i c config_kept [OF assms(2)] by (simp add: counts_inv_def same_keys_def slots_inv_def)
qed

theorem connection_limits_witness:
  "int (length (sy_handling sample_entered)) \<le> 64 \<and> length (sy_handling sample_entered) = 1"
  using connection_limits [OF sample_start_ok sample_entered_reached]
  by (simp add: sample_entered_def sample_start_def idle_server_def DefaultConfig_def)

text \<open>C17: once \<^verbatim>\<open>Shutdown\<close> has been called no further connection is admitted, not even one that had its slot
  already, and the server stays shut down.\<close>

theorem no_admission_after_shutdown:
  assumes "sv_shuttingDown (sy_server y)" and "server_reaches peer y y'"
  shows "sv_shuttingDown (sy_server y') \<and> (\<forall>c. map_of (sy_handling y') c \<noteq> None \<longrightarrow> map_of (sy_handling y) c \<noteq> None)"
  using handled_shrinks_run [OF assms(2,1)] by (auto simp: map_of_eq_None_iff)

theorem no_admission_after_shutdown_witness:
  "\<exists>y'. serve_step True (\<lambda>_. sample_peer) sample_stopped y' \<and> sv_shuttingDown (sy_server y') \<and>
     map_of (sy_handling sample_stopped) 5 \<noteq> None \<and> map_of (sy_handling y') 6 = None"
proof -
  have s: "sv_shuttingDown (sy_server sample_stopped)" by (simp add: sample_stopped_def sample_entered_def Shutdown_begin_def close_listeners_def)
  have h: "sy_handling sample_stopped = [(5, ascii ''192.0.2.7'', False)]" "sy_acceptor sample_stopped = Accepting"
    by (simp_all add: sample_stopped_def sample_entered_def)
  obtain y' where y': "serve_step True (\<lambda>_. sample_peer) sample_stopped y'" using accept_fails [OF disjI1 [OF TrueI] h(2)] by blast
  have "server_reaches (\<lambda>_. sample_peer) sample_stopped y'" by (rule server_serves [OF server_refl y'])
  from no_admission_after_shutdown [OF s this] have "sv_shuttingDown (sy_server y')" "map_of (sy_handling y') 6 = None"
    by (simp_all add: h(1)) (metis num.distinct(5) numeral_eq_iff option.distinct(1) option.exhaust surj_pair)
  with y' show ?thesis using h(1) by auto
qed

text \<open>C16: when \<^verbatim>\<open>Serve\<close> waits for its workers, every connection that is still handled has been closed; when it
  has returned none is left: no connection, no slot, no worker, and no source is counted.\<close>

theorem serve_returns_clean:
  assumes "server_start z" and "server_reaches peer z y"
  shows "(sy_serve y = AwaitingWorkers \<longrightarrow> (\<forall>c v. map_of (sy_handling y) c = Some v \<longrightarrow> c \<in> sy_closed y)) \<and>
    (\<forall>r. sy_serve y = NotServing r \<longrightarrow> sy_handling y = [] \<and> sv_slots (sy_server y) = 0 \<and> sv_workers (sy_server y) = 0 \<and>
       sv_connections (sy_server y) = [] \<and> sv_connectionsBySource (sy_server y) = [])"
proof -
  note i = running_server_inv [OF assms]
  have "sy_handling y = [] \<and> sv_slots (sy_server y) = 0 \<and> sv_workers (sy_server y) = 0 \<and>
       sv_connections (sy_server y) = [] \<and> sv_connectionsBySource (sy_server y) = []" if "sy_serve y = NotServing r" for r
  proof -
    have q: "sy_handling y = []" "sy_releasing y = 0" "sy_ending y = 0" "sy_acceptor y = AcceptorIdle"
      using i that by (simp_all add: server_inv_def phase_inv_def)
    have "map_of (sv_connections (sy_server y)) c = None" for c
      using i q(1) by (simp add: server_inv_def counts_inv_def same_keys_def)
    moreover have "map_of (sv_connectionsBySource (sy_server y)) x = None" for x
    proof -
      have "gm_count (sv_connectionsBySource (sy_server y)) x = 0"
        using i q(1) by (simp add: server_inv_def counts_inv_def source_counts.counted_def)
      then show ?thesis using i
        by (auto simp: server_inv_def counts_inv_def sources_inv_def gm_count_def split: option.splits)
    qed
    ultimately show ?thesis
      using i q by (simp add: no_entries server_inv_def counts_inv_def slots_inv_def slots_used_def)
  qed
  moreover have "c \<in> sy_closed y" if "sy_serve y = AwaitingWorkers" "map_of (sy_handling y) c = Some v" for c v
    using i that by (auto simp: server_inv_def phase_inv_def)
  ultimately show ?thesis by blast
qed

theorem serve_returns_clean_witness:
  "sy_serve sample_waiting = AwaitingWorkers \<and> map_of (sy_handling sample_waiting) 5 \<noteq> None \<and> 5 \<in> sy_closed sample_waiting \<and>
   (\<exists>y. server_reaches (\<lambda>_. sample_peer) sample_waiting y \<and> sy_serve y = NotServing None \<and> sy_seen y = {5} \<and>
      sy_handling y = [] \<and> sv_connections (sy_server y) = [])"
proof -
  obtain y where y: "server_reaches (\<lambda>_. sample_peer) sample_waiting y" "sy_serve y = NotServing None" "sy_seen y = {5}"
    using sample_ended_reached by blast
  have w: "sy_serve sample_waiting = AwaitingWorkers" "map_of (sy_handling sample_waiting) 5 = Some (ascii ''192.0.2.7'', False)"
    by (simp_all add: sample_waiting_def sample_stopped_def sample_entered_def)
  show ?thesis
    using serve_returns_clean [OF sample_start_ok sample_waiting_reached]
      serve_returns_clean [OF sample_start_ok server_reaches_trans [OF y(1) sample_waiting_reached]] y w by blast
qed

text \<open>C9: a shutdown ends. Once it has been called during \<^verbatim>\<open>Serve\<close>, each step of \<^verbatim>\<open>Serve\<close>, its loops and its workers,
  whatever the peers do, brings it nearer to the end in a well-founded order, and the steps of other callers
  of \<^verbatim>\<open>Shutdown\<close> do not take it back. As long as \<^verbatim>\<open>Serve\<close> has not returned, with a nil error, some goroutine can
  go on even when no peer does anything and nothing fails any more: \<^verbatim>\<open>Accept\<close> and \<^verbatim>\<open>ReadFrom\<close> only return because
  their sockets were closed, and a handler only because its connection was.\<close>

theorem shutdown_terminates:
  assumes "server_start z" and "server_reaches peer z y" and "sv_shuttingDown (sy_server y)" and "sv_serving (sy_server y)"
    and "server_reaches peer y x"
  shows "(\<forall>x'. serve_step True peer x x' \<longrightarrow> (shutdown_rank x', shutdown_rank x) \<in> less_than <*lex*> less_than) \<and>
    (\<forall>x'. shutdown_step x x' \<longrightarrow> shutdown_rank x' = shutdown_rank x) \<and>
    (sy_serve x \<noteq> NotServing None \<longrightarrow> (\<exists>x'. serve_step False peer x x')) \<and>
    (sy_serve x = NotServing None \<longrightarrow> (\<forall>x'. \<not> serve_step True peer x x'))"
proof -
  have i: "server_inv y" by (rule running_server_inv [OF assms(1,2)])
  have "stopping y" using i assms(3,4) by (auto simp: stopping_def server_inv_def phase_inv_def)
  then have s: "stopping x" by (rule stopping_run [OF assms(5)])
  have "server_inv x" by (rule server_inv_reach [OF assms(5) i])
  then show ?thesis using rank_decreases serve_progress s rank_shutdown_step by blast
qed

theorem shutdown_terminates_witness:
  "shutdown_rank sample_stopped = (4, 7) \<and> (\<exists>x'. serve_step False (\<lambda>_. sample_peer) sample_stopped x' \<and>
     (shutdown_rank x', (4, 7)) \<in> less_than <*lex*> less_than)"
proof -
  have s: "sv_shuttingDown (sy_server sample_stopped)" "sv_serving (sy_server sample_stopped)"
    by (simp_all add: sample_stopped_def sample_entered_def Shutdown_begin_def close_listeners_def)
  have q: "sy_serve sample_stopped = Serving" "shutdown_rank sample_stopped = (4, 7)"
    by (simp_all add: sample_stopped_def sample_entered_def shutdown_rank_def sample_start_def owned_Cons)
  note t = shutdown_terminates [OF sample_start_ok sample_stopped_reached s server_refl]
  from t q(1) obtain x' where x': "serve_step False (\<lambda>_. sample_peer) sample_stopped x'" by auto
  then have "serve_step True (\<lambda>_. sample_peer) sample_stopped x'" by (rule serve_step_env)
  with t have "(shutdown_rank x', (4, 7)) \<in> less_than <*lex*> less_than" by (simp only: q(2))
  with x' q(2) show ?thesis by blast
qed

text \<open>C39: the server and the account store identify the source of a connection in the same way: a peer that the
  server admits is known to the account store under the same name, and one it turns away is invalid
  for the store too, unless its address has no port, which a TCP peer's has.\<close>

theorem source_identities_agree:
  "accountSourceIdentity peer =
     (case tcpSourceIdentity peer of
        Some source \<Rightarrow> Inr source
      | None \<Rightarrow>
          (case peer of
             OtherAddr network text \<Rightarrow>
               if SplitHostPort text = None \<and> network \<noteq> [] \<and> text \<noteq> [] then Inr (network @ [58] @ text)
               else Inl (AccountStoreErr ErrInvalidAccountSource)
           | _ \<Rightarrow> Inl (AccountStoreErr ErrInvalidAccountSource)))"
proof (cases peer)
  case (OtherAddr network name)
  note defs = accountSourceIdentity_def tcpSourceIdentity_def Let_def OtherAddr
  show ?thesis
  proof (cases "SplitHostPort name")
    case (Some p)
    obtain host port where p: "p = (host, port)" by (cases p)
    show ?thesis
      using Some p by (cases "ParseAddr host") (auto simp: defs split: netip_addr.split)
  qed (auto simp: defs)
qed (auto simp: accountSourceIdentity_def tcpSourceIdentity_def Let_def split: option.split netip_addr.split)

end
