(* ===== verification/Server_Main.thy ===== *)
theory Server_Main
  imports Std_Main Router Lobby_System Server_Run "HOL-Library.Sublist"
begin

text \<open>
  \<^verbatim>\<open>cmd/codboz-online-server/main.go\<close>: the program. It reads its options, builds the stores, the two
  protocol handlers, the router, the STUN responder and the server, and serves until a signal. The
  sockets, the signal and the results of \<^verbatim>\<open>Serve\<close> and \<^verbatim>\<open>Shutdown\<close> are what the environment answers; log
  lines are left out.
\<close>

section \<open>Options\<close>

record options =
  opt_tcpAddress :: gostring
  opt_udpAddress :: gostring
  opt_stunSource :: AddrPort
  opt_dataDir :: gostring

definition stun_config :: "AddrPort \<Rightarrow> ResponderConfig" where
  "stun_config source = \<lparr>cfg_SourceAddress = source, cfg_ChangedAddress = source\<rparr>"

definition assignSTUNSource :: "options \<Rightarrow> gostring \<Rightarrow> go_error + options" where
  "assignSTUNSource opts sourceText =
     (case ParseAddrPort sourceText of
        None \<Rightarrow> Inl (Context ''parse --stun-source-address'' (Message ''netip.ParseAddrPort''))
      | Some parsedSource \<Rightarrow>
          let opts = opts\<lparr>opt_stunSource := parsedSource\<rparr>
          in case NewResponder (stun_config (opt_stunSource opts)) of
               Inl e \<Rightarrow> Inl e
             | Inr _ \<Rightarrow> Inr opts)"

text \<open>The flags with their defaults.\<close>

definition server_flags :: "(gostring, gostring) gomap" where
  "server_flags = [(ascii ''tcp-listen'', ascii '':3074''), (ascii ''udp-listen'', ascii '':3478''),
     (ascii ''data-dir'', ascii ''data''), (ascii ''stun-source-address'', [])]"

definition parseOptions :: "gostring list \<Rightarrow> go_error + options" where
  "parseOptions args =
     (case flag_Parse server_flags args of
        Inl e \<Rightarrow> Inl e
      | Inr (flags, rest) \<Rightarrow>
          let flag = (\<lambda>name. the (map_of flags (ascii name)));
              opts = \<lparr>opt_tcpAddress = flag ''tcp-listen'', opt_udpAddress = flag ''udp-listen'',
                opt_stunSource = \<lparr>ap_Addr = AddrInvalid, ap_Port = 0\<rparr>, opt_dataDir = flag ''data-dir''\<rparr>;
              stunSourceText = flag ''stun-source-address''
          in if rest \<noteq> [] then Inl (Message ''unexpected positional arguments; use flags only'')
             else if opt_tcpAddress opts = [] \<or> opt_udpAddress opts = []
             then Inl (Message ''TCP and UDP listen addresses must not be empty'')
             else if opt_dataDir opts = [] then Inl (Message ''data directory must not be empty'')
             else if stunSourceText = [] then Inl (Message ''--stun-source-address is required'')
             else assignSTUNSource opts stunSourceText)"

section \<open>The handlers\<close>

text \<open>The state the handlers share: the stores and the active clients, the disk and the randomness of the
  authentication handler, and the number of the next lobby client.\<close>

record runtime =
  rt_system :: lobby_system
  rt_random :: go_stream
  rt_next :: nat

text \<open>\<^verbatim>\<open>HandleTCP\<close> of the two protocol handlers, as handlers of the router. The fuel of the lobby handler is
  more than the bytes its connection still has.\<close>

definition service_auth :: "AuthHandlerConfig \<Rightarrow> runtime tcp_handler" where
  "service_auth config st =
     (case st of (connection, rt) \<Rightarrow>
        let y = rt_system rt in
        (case auth_HandleTCP config (auth_view (sys_world y) (sys_disk y) (rt_random rt) connection) of
           (e, a) \<Rightarrow>
             (e, aw_conn a,
              rt\<lparr>rt_system := y\<lparr>sys_world := (sys_world y)\<lparr>lw_accounts := aw_accounts a, lw_sessions := aw_sessions a\<rparr>,
                   sys_disk := aw_disk a\<rparr>,
                 rt_random := aw_random a\<rparr>)))"

definition service_lobby :: "LobbyHandlerConfig \<Rightarrow> runtime tcp_handler" where
  "service_lobby config st =
     (case st of (connection, rt) \<Rightarrow>
        let y = rt_system rt; h = rt_next rt in
        (case lsg_HandleTCP (Suc (unread connection)) config h connection (sys_world y) of
           None \<Rightarrow> (None, connection, rt)
         | Some (r, w) \<Rightarrow>
             (r, lc_connection (lw_clients w h), rt\<lparr>rt_system := y\<lparr>sys_world := w\<rparr>, rt_next := Suc h\<rparr>)))"

record runtimeHandler =
  rh_tcp :: "runtime TCPRouter"
  rh_stun :: ResponderConfig

text \<open>\<open>cuts\<close> says how the network cuts the bytes of the connection.\<close>

definition runtime_HandleTCP :: "runtimeHandler \<Rightarrow> nat list \<Rightarrow> runtime tcp_handler" where
  "runtime_HandleTCP handler cuts st = router_HandleTCP (rh_tcp handler) cuts st"

text \<open>A response that cannot be sent is not an error of the service. \<open>stopped\<close> is whether the context is done.\<close>

definition runtime_HandleUDP :: "runtimeHandler \<Rightarrow> bool \<Rightarrow> udp_peer \<Rightarrow> bytes \<Rightarrow> packet_conn \<Rightarrow> go_error option \<times> packet_conn" where
  "runtime_HandleUDP handler stopped peer payload pc =
     (case HandleUDP (rh_stun handler) stopped peer payload (Some pc) of (_, pc') \<Rightarrow> (None, the pc'))"

section \<open>Construction\<close>

record service =
  sc_runtime :: runtime
  sc_auth :: AuthHandlerConfig
  sc_lobby :: LobbyHandlerConfig
  sc_handler :: runtimeHandler
  sc_server :: Server

text \<open>The zero configurations of \<^verbatim>\<open>run\<close>.\<close>

definition zero_auth_config :: AuthHandlerConfig where
  "zero_auth_config = \<lparr>ahc_MaxRecords = 0, ahc_HandshakeTimeout = 0, ahc_WriteTimeout = 0, ahc_SessionLife = 0, ahc_Random = None\<rparr>"

definition zero_lobby_config :: LobbyHandlerConfig where
  "zero_lobby_config = \<lparr>lhc_MaxRecords = 0, lhc_MaxProvisionalControlRecords = 0, lhc_ReadTimeout = 0, lhc_WriteTimeout = 0,
     lhc_ProofTimeout = 0, lhc_Random = None\<rparr>"

definition zero_server_config :: ServerConfig where
  "zero_server_config = \<lparr>svc_MaxTCPConnections = 0, svc_MaxTCPConnectionsPerSource = 0, svc_ShutdownTimeout = 0\<rparr>"

text \<open>What an address of the table holds before it is a client; nothing reads it.\<close>

definition no_conn :: conn where
  "no_conn = \<lparr>cn_in = \<lparr>st_bytes = [], st_end = StreamEOF\<rparr>, cn_out = \<lparr>w_script = [], w_out = []\<rparr>, cn_peer = NilAddr, cn_clock = [],
     cn_now = [], cn_ctx = [], cn_deadlines = [], cn_read_by = 0, cn_closed = True\<rparr>"

text \<open>The constructors that \<^verbatim>\<open>run\<close> calls, in its order. \<open>random1\<close> and \<open>random2\<close> are what the two handlers read
  of the system's randomness.\<close>

definition configure :: "options \<Rightarrow> go_stream \<Rightarrow> go_stream \<Rightarrow> (disk, service) go" where
  "configure opts random1 random2 d =
     (case NewAccountStore \<lparr>acfg_MaxAccounts = 0, acfg_MaxAccountsPerSource = 0,
             acfg_StateFile = filepath_Join (opt_dataDir opts) (ascii ''accounts.json'')\<rparr> d of
        (Inl e, d) \<Rightarrow> (Inl (Context ''configure account store'' e), d)
      | (Inr accounts, d) \<Rightarrow>
     (case NewLobbySessionStore 0 0 of
        Inl e \<Rightarrow> (Inl (Context ''configure lobby session store'' e), d)
      | Inr sessions \<Rightarrow>
     (case NewMatchmakingStore 0 0 of
        Inl e \<Rightarrow> (Inl (Context ''configure matchmaking store'' e), d)
      | Inr matches \<Rightarrow>
     (case NewAuthHandler random1 zero_auth_config (Some accounts) (Some sessions) of
        Inl e \<Rightarrow> (Inl (Context ''configure auth handler'' e), d)
      | Inr auth \<Rightarrow>
     (case NewLobbyHandler random2 zero_lobby_config (Some accounts) (Some sessions) (Some matches) of
        Inl e \<Rightarrow> (Inl (Context ''configure lobby handler'' e), d)
      | Inr lobby \<Rightarrow>
     (case NewTCPRouter (Some (service_auth auth)) (Some (service_lobby lobby)) of
        Inl e \<Rightarrow> (Inl (Context ''configure TCP router'' e), d)
      | Inr router \<Rightarrow>
     (case NewResponder (stun_config (opt_stunSource opts)) of
        Inl e \<Rightarrow> (Inl (Context ''configure STUN responder'' e), d)
      | Inr stun \<Rightarrow>
     (case server_New zero_server_config True of
        Inl e \<Rightarrow> (Inl (Context ''configure online server'' e), d)
      | Inr server \<Rightarrow>
          (Inr \<lparr>sc_runtime =
                  \<lparr>rt_system = \<lparr>sys_world = \<lparr>lw_accounts = accounts, lw_sessions = sessions, lw_matches = matches, lw_byAccount = [],
                       lw_nextID = 0, lw_random = the (lhc_Random lobby), lw_clients = (\<lambda>_. new_client no_conn)\<rparr>,
                     sys_disk = d, sys_locals = (\<lambda>_. None)\<rparr>,
                   rt_random = the (ahc_Random auth), rt_next = 0\<rparr>,
                sc_auth = auth, sc_lobby = lobby, sc_handler = \<lparr>rh_tcp = router, rh_stun = stun\<rparr>, sc_server = server\<rparr>, d)))))))))"

section \<open>Running\<close>

text \<open>What ends \<^verbatim>\<open>serveUntilSignal\<close>: \<^verbatim>\<open>Serve\<close> returns by itself, or a signal comes, with what \<^verbatim>\<open>Shutdown\<close> and
  then \<^verbatim>\<open>Serve\<close> return.\<close>

datatype served = ServeReturned "go_error option" | Signalled "go_error option" "go_error option"

fun serveUntilSignal :: "served \<Rightarrow> go_error option" where
  "serveUntilSignal (ServeReturned e) = e"
| "serveUntilSignal (Signalled (Some e) _) = Some (Context ''graceful shutdown'' e)"
| "serveUntilSignal (Signalled None e) = e"

text \<open>\<open>tcp\<close> and \<open>udp\<close> are the errors of opening the two sockets.\<close>

definition run :: "gostring list \<Rightarrow> go_stream \<Rightarrow> go_stream \<Rightarrow> go_error option \<Rightarrow> go_error option \<Rightarrow> served \<Rightarrow> disk \<Rightarrow>
    go_error option \<times> disk" where
  "run args random1 random2 tcp udp outcome d =
     (case parseOptions args of
        Inl e \<Rightarrow> (Some e, d)
      | Inr opts \<Rightarrow>
          (case configure opts random1 random2 d of
             (Inl e, d) \<Rightarrow> (Some e, d)
           | (Inr service, d) \<Rightarrow>
               (case tcp of
                  Some e \<Rightarrow> (Some (Context ''listen for native TCP'' e), d)
                | None \<Rightarrow>
                    (case udp of
                       Some e \<Rightarrow> (Some (Context ''listen for native UDP'' e), d)
                     | None \<Rightarrow> (serveUntilSignal outcome, d)))))"

text \<open>The exit status.\<close>

definition main_exit :: "go_error option \<Rightarrow> nat" where
  "main_exit result = (case result of None \<Rightarrow> 0 | Some e \<Rightarrow> if errors_is e ErrHelp then 0 else 1)"

section \<open>The zero configurations are accepted\<close>

lemma NewResponder_endpoint:
  assumes "NewResponder config = Inr c"
  shows "c = config \<and> endpoint_ok (cfg_SourceAddress config) \<and> endpoint_ok (cfg_ChangedAddress config)"
  using assms
  by (auto simp: NewResponder_def BuildBindingResponse_def validateEndpoint_None split: sum.splits option.splits)

lemma assigned:
  assumes "assignSTUNSource opts name = Inr opts'"
  shows "opts' = opts\<lparr>opt_stunSource := opt_stunSource opts'\<rparr> \<and> ParseAddrPort name = Some (opt_stunSource opts') \<and>
    NewResponder (stun_config (opt_stunSource opts')) = Inr (stun_config (opt_stunSource opts')) \<and> endpoint_ok (opt_stunSource opts')"
proof -
  obtain p c where p: "ParseAddrPort name = Some p" "NewResponder (stun_config p) = Inr c" "opts' = opts\<lparr>opt_stunSource := p\<rparr>"
    using assms by (auto simp: assignSTUNSource_def Let_def split: option.splits sum.splits)
  then show ?thesis using NewResponder_endpoint [OF p(2)] by (simp add: stun_config_def)
qed

lemma options_accepted:
  assumes "parseOptions args = Inr opts"
  shows "opt_tcpAddress opts \<noteq> [] \<and> opt_udpAddress opts \<noteq> [] \<and> opt_dataDir opts \<noteq> [] \<and>
    NewResponder (stun_config (opt_stunSource opts)) = Inr (stun_config (opt_stunSource opts)) \<and> endpoint_ok (opt_stunSource opts)"
proof -
  obtain flags where f: "flag_Parse server_flags args = Inr (flags, [])"
    using assms by (auto simp: parseOptions_def Let_def split: sum.splits if_splits)
  define flag where "flag name = the (map_of flags (ascii name))" for name
  let ?o = "\<lparr>opt_tcpAddress = flag ''tcp-listen'', opt_udpAddress = flag ''udp-listen'',
    opt_stunSource = \<lparr>ap_Addr = AddrInvalid, ap_Port = 0\<rparr>, opt_dataDir = flag ''data-dir''\<rparr>"
  have o: "opt_tcpAddress ?o \<noteq> []" "opt_udpAddress ?o \<noteq> []" "opt_dataDir ?o \<noteq> []"
    "assignSTUNSource ?o (flag ''stun-source-address'') = Inr opts"
    using assms f by (auto simp: parseOptions_def Let_def flag_def split: if_splits)
  note a = assigned [OF o(4)]
  have "opt_tcpAddress opts = opt_tcpAddress ?o" "opt_udpAddress opts = opt_udpAddress ?o" "opt_dataDir opts = opt_dataDir ?o"
    using a [THEN conjunct1] by (metis options.select_convs options.update_convs)+
  with o a show ?thesis by simp
qed

definition auth_defaults :: "go_stream \<Rightarrow> AuthHandlerConfig" where
  "auth_defaults random = \<lparr>ahc_MaxRecords = 16, ahc_HandshakeTimeout = 10 * Second, ahc_WriteTimeout = 5 * Second,
     ahc_SessionLife = Hour, ahc_Random = Some random\<rparr>"

definition lobby_defaults :: "go_stream \<Rightarrow> LobbyHandlerConfig" where
  "lobby_defaults random = \<lparr>lhc_MaxRecords = 0, lhc_MaxProvisionalControlRecords = 8, lhc_ReadTimeout = 2 * Minute,
     lhc_WriteTimeout = 5 * Second, lhc_ProofTimeout = 10 * Second, lhc_Random = Some random\<rparr>"

lemma zero_configs:
  "NewAuthHandler random zero_auth_config (Some accounts) (Some sessions) = Inr (auth_defaults random)"
  "NewLobbyHandler random zero_lobby_config (Some accounts) (Some sessions) (Some matches) = Inr (lobby_defaults random)"
  "NewTCPRouter (Some f) (Some g) = Inr \<lparr>tr_auth = f, tr_lobby = g, tr_initialReadTimeout = 10 * Second\<rparr>"
  "server_New zero_server_config True = Inr idle_server"
  "\<exists>s. NewLobbySessionStore 0 0 = Inr s" "\<exists>m. NewMatchmakingStore 0 0 = Inr m"
  by (simp_all add: NewAuthHandler_def zero_auth_config_def auth_defaults_def DefaultMaxRecords_def DefaultWriteTimeout_def
      DefaultHandshakeTimeout_def DefaultSessionLife_def NewLobbyHandler_def zero_lobby_config_def lobby_defaults_def
      LobbyDefaultMaxRecords_def LobbyDefaultWriteTimeout_def DefaultReadTimeout_def DefaultProofTimeout_def
      DefaultMaxProvisionalControlRecords_def NewTCPRouter_def newTCPRouter_def DefaultInitialReadTimeout_def
      zero_server_config_def idle_server_New NewLobbySessionStore_def NewMatchmakingStore_def
      DefaultMaxLobbySessions_def DefaultMaxLobbySessionsPerAccount_def DefaultMaxMatchmakingSessions_def
      DefaultMaxMatchmakingSessionsPerOwner_def Millisecond_def Second_def Minute_def Hour_def Let_def)

lemma configure_eq:
  assumes "NewResponder (stun_config (opt_stunSource opts)) = Inr stun"
    and "NewAccountStore \<lparr>acfg_MaxAccounts = 0, acfg_MaxAccountsPerSource = 0,
             acfg_StateFile = filepath_Join (opt_dataDir opts) (ascii ''accounts.json'')\<rparr> d = (Inr accounts, d')"
  shows "\<exists>sc. configure opts random1 random2 d = (Inr sc, d') \<and> system_start (rt_system (sc_runtime sc)) \<and>
    rt_next (sc_runtime sc) = 0 \<and> lw_accounts (sys_world (rt_system (sc_runtime sc))) = accounts \<and>
    sc_auth sc = auth_defaults random1 \<and> sc_lobby sc = lobby_defaults random2 \<and> sc_server sc = idle_server \<and>
    sc_handler sc = \<lparr>rh_tcp = \<lparr>tr_auth = service_auth (sc_auth sc), tr_lobby = service_lobby (sc_lobby sc),
      tr_initialReadTimeout = 10 * Second\<rparr>, rh_stun = stun\<rparr>"
proof -
  obtain sessions matches where s: "NewLobbySessionStore 0 0 = Inr sessions" "NewMatchmakingStore 0 0 = Inr matches"
    using zero_configs(5,6) by blast
  then show ?thesis
    using assms by (auto simp: configure_def zero_configs(1-4) system_start_def)
qed

section \<open>Connections one after another\<close>

text \<open>A connection that is handled alone is a run of the system of connections: the authentication server's
  records are its \<open>step_auth\<close>, a lobby connection is opened, its records are handled, and it ends.\<close>

definition auth_back :: "auth_world \<Rightarrow> lobby_system \<Rightarrow> lobby_system" where
  "auth_back a y = y\<lparr>sys_world := (sys_world y)\<lparr>lw_accounts := aw_accounts a, lw_sessions := aw_sessions a\<rparr>, sys_disk := aw_disk a\<rparr>"

definition auth_of :: "lobby_system \<Rightarrow> auth_world \<Rightarrow> bool" where
  "auth_of y a \<longleftrightarrow> aw_accounts a = lw_accounts (sys_world y) \<and> aw_sessions a = lw_sessions (sys_world y) \<and> aw_disk a = sys_disk y"

lemma auth_of_view: "auth_of y a \<longleftrightarrow> a = auth_view (sys_world y) (sys_disk y) (aw_random a) (aw_conn a)"
  by (cases a) (auto simp: auth_of_def auth_view_def)

lemma auth_of_conn: "on_conn f a = (x, a') \<Longrightarrow> auth_of y a' \<longleftrightarrow> auth_of y a"
  by (auto simp: on_conn_def auth_of_def split: prod.splits)

lemma auth_of_back [simp]: "auth_of (auth_back a y) a" "sys_locals (auth_back a y) = sys_locals y"
  "auth_back b (auth_back a y) = auth_back b y"
  by (simp_all add: auth_of_def auth_back_def)

lemma auth_back_same: "auth_of y a \<Longrightarrow> auth_back a y = y"
  by (simp add: auth_of_def auth_back_def)

lemma auth_records_reach:
  assumes "auth_records n ac a = (e, a')" and "auth_of y a" and "system_reaches ac lc y0 k y"
  shows "\<exists>m. system_reaches ac lc y0 m (auth_back a' y)"
  using assms
proof (induction n arbitrary: a y k)
  case 0
  then show ?case using auth_back_same [of y a] by auto
next
  case (Suc n)
  obtain stop a1 where 1: "on_conn ctx_done a = (stop, a1)" by (metis surj_pair)
  have v1: "auth_of y a1" using auth_of_conn [OF 1] Suc.prems(2) by blast
  obtain r a2 where 2: "on_conn (conn_ReadRecord DefaultMaxFrameBody) a1 = (r, a2)" by (metis surj_pair)
  have v2: "auth_of y a2" using auth_of_conn [OF 2] v1 by blast
  have stay: "\<exists>m. system_reaches ac lc y0 m (auth_back b y)" if "auth_of y b" for b
    using auth_back_same [OF that] Suc.prems(3) by auto
  show ?case
  proof (cases stop)
    case True
    with Suc.prems(1) 1 v1 stay show ?thesis by simp
  next
    case False
    show ?thesis
    proof (cases r)
      case (Inl e')
      obtain stop' a3 where 3: "on_conn ctx_done a2 = (stop', a3)" by (metis surj_pair)
      have "a' = a3" using Suc.prems(1) 1 2 3 False Inl by (auto split: if_splits)
      then show ?thesis using stay auth_of_conn [OF 3] v2 by blast
    next
      case (Inr rec)
      obtain r' a3 where 3: "auth_record ac rec a2 = (r', a3)" by (metis surj_pair)
      have "auth_record ac rec (auth_view (sys_world y) (sys_disk y) (aw_random a2) (aw_conn a2)) = (r', a3)"
        using 3 v2 unfolding auth_of_view by simp
      from reach_step [OF Suc.prems(3) step_auth [OF this]]
      have reach: "system_reaches ac lc y0 (Suc k) (auth_back a3 y)" by (simp add: auth_back_def)
      show ?thesis
      proof (cases r')
        case (Inl e')
        then have "a' = a3" using Suc.prems(1) 1 2 3 False Inr by simp
        with reach show ?thesis by blast
      next
        case r': (Inr u)
        then have "auth_records n ac a3 = (e, a')" using Suc.prems(1) 1 2 3 False Inr by simp
        from Suc.IH [OF this _ reach] show ?thesis by simp
      qed
    qed
  qed
qed

lemma auth_HandleTCP_reach:
  assumes "auth_HandleTCP ac a = (e, a')" and "auth_of y a" and "system_reaches ac lc y0 k y"
  shows "\<exists>m. system_reaches ac lc y0 m (auth_back a' y)"
proof -
  obtain now a1 where 1: "on_conn time_Now a = (now, a1)" by (metis surj_pair)
  obtain r a2 where 2: "on_conn (SetReadDeadline (now + ahc_HandshakeTimeout ac)) a1 = (r, a2)" by (metis surj_pair)
  have v: "auth_of y a2" using auth_of_conn [OF 1] auth_of_conn [OF 2] assms(2) by blast
  show ?thesis
  proof (cases r)
    case (Inl e')
    with assms(1) 1 2 have "a' = a2" by (simp add: auth_HandleTCP_def)
    then show ?thesis using auth_back_same [OF v] assms(3) by auto
  next
    case (Inr u)
    with assms(1) 1 2 have "auth_records (nat (ahc_MaxRecords ac)) ac a2 = (e, a')" by (simp add: auth_HandleTCP_def)
    from auth_records_reach [OF this v assms(3)] show ?thesis .
  qed
qed

lemma lsg_loop_reach:
  assumes "lsg_loop fuel lc h (s, w) = Some (r, s', w')" and "sys_locals y h = Some s" and "sys_world y = w"
    and "system_reaches ac lc y0 k y"
  shows "\<exists>m. system_reaches ac lc y0 m (y\<lparr>sys_world := lsg_deferred h (s', w'), sys_locals := (sys_locals y)(h := None)\<rparr>)"
  using assms
proof (induction fuel arbitrary: s w y k)
  case (Suc fuel)
  obtain out s1 w1 where it: "lsg_iteration lc h (s, w) = (out, s1, w1)" by (metis surj_pair)
  note it' = it [folded Suc.prems(3)]
  show ?case
  proof (cases out)
    case Continue
    let ?y = "y\<lparr>sys_world := w1, sys_locals := (sys_locals y)(h \<mapsto> s1)\<rparr>"
    have "system_reaches ac lc y0 (Suc k) ?y"
      using reach_step [OF Suc.prems(4) step_record [OF Suc.prems(2) it' [unfolded Continue]]] .
    moreover have "lsg_loop fuel lc h (s1, w1) = Some (r, s', w')" using Suc.prems(1) it Continue by simp
    ultimately obtain m where m: "system_reaches ac lc y0 m
        (?y\<lparr>sys_world := lsg_deferred h (s', w'), sys_locals := (sys_locals ?y)(h := None)\<rparr>)"
      using Suc.IH [of s1 w1 ?y "Suc k"] by (simp del: fun_upd_apply add: fun_upd_same) blast
    have "?y\<lparr>sys_world := lsg_deferred h (s', w'), sys_locals := (sys_locals ?y)(h := None)\<rparr> =
        y\<lparr>sys_world := lsg_deferred h (s', w'), sys_locals := (sys_locals y)(h := None)\<rparr>" by simp
    then show ?thesis using m by metis
  next
    case (Return r')
    then have "s' = s1" "w' = w1" using Suc.prems(1) it by simp_all
    then show ?thesis
      using reach_step [OF Suc.prems(4) step_return [OF Suc.prems(2) it' [unfolded Return]]] by blast
  qed
qed simp

lemma service_reach:
  assumes "service_auth ac (c, rt) = (e, c', rt') \<or> service_lobby lc (c, rt) = (e, c', rt')"
    and "system_reaches ac lc y0 k (rt_system rt)" and "sys_locals (rt_system rt) = (\<lambda>_. None)"
  shows "\<exists>m. system_reaches ac lc y0 m (rt_system rt') \<and> sys_locals (rt_system rt') = (\<lambda>_. None)"
  using assms(1)
proof
  assume s: "service_auth ac (c, rt) = (e, c', rt')"
  let ?y = "rt_system rt" and ?a = "auth_view (sys_world (rt_system rt)) (sys_disk (rt_system rt)) (rt_random rt) c"
  obtain e' a where a: "auth_HandleTCP ac ?a = (e', a)" by (metis surj_pair)
  have "auth_of ?y ?a" by (simp add: auth_of_def auth_view_def)
  from auth_HandleTCP_reach [OF a this assms(2)] obtain m where "system_reaches ac lc y0 m (auth_back a ?y)" by blast
  moreover have "rt_system rt' = auth_back a ?y" using s a by (auto simp: service_auth_def auth_back_def Let_def)
  ultimately show ?thesis using assms(3) by auto
next
  assume s: "service_lobby lc (c, rt) = (e, c', rt')"
  let ?y = "rt_system rt" and ?h = "rt_next rt"
  let ?w = "lw_set_client ?h (new_client c) (sys_world ?y)"
  have "unread (lc_connection (lw_clients ?w ?h)) < Suc (unread c)" by (simp add: new_client_def)
  from lsg_loop_returns [OF _ this, of lsg_start lc] obtain r s' w' where
    l: "lsg_loop (Suc (unread c)) lc ?h (lsg_start, ?w) = Some (r, s', w')"
    by (auto simp: lsg_ok_def lsg_start_def)
  let ?y1 = "?y\<lparr>sys_world := ?w, sys_locals := (sys_locals ?y)(?h \<mapsto> lsg_start)\<rparr>"
  have "system_reaches ac lc y0 (Suc k) ?y1" using reach_step [OF assms(2) step_connect] assms(3) by simp
  from lsg_loop_reach [OF l _ _ this] obtain m where
    "system_reaches ac lc y0 m (?y1\<lparr>sys_world := lsg_deferred ?h (s', w'), sys_locals := (sys_locals ?y1)(?h := None)\<rparr>)"
    by auto
  moreover have "rt_system rt' = ?y\<lparr>sys_world := lsg_deferred ?h (s', w')\<rparr>"
    using s l by (auto simp: service_lobby_def lsg_HandleTCP_def Let_def simp del: lsg_loop.simps)
  moreover have "(\<lambda>_. None)(?h := None) = (\<lambda>_. None)" by auto
  moreover have "?y\<lparr>sys_world := x\<rparr> = ?y\<lparr>sys_world := x, sys_locals := (\<lambda>_. None)\<rparr>" for x
    using assms(3) by (cases ?y) simp
  ultimately show ?thesis using assms(3) by (intro exI [of _ m]) simp
qed

text \<open>The connections of a list, one after another.\<close>

definition serve_all :: "runtimeHandler \<Rightarrow> (nat list \<times> conn) list \<Rightarrow> runtime \<Rightarrow> runtime" where
  "serve_all handler conns rt = fold (\<lambda>(cuts, c) rt. snd (snd (runtime_HandleTCP handler cuts (c, rt)))) conns rt"

lemma routed_reach:
  assumes "router_HandleTCP \<lparr>tr_auth = service_auth ac, tr_lobby = service_lobby lc, tr_initialReadTimeout = t\<rparr> cuts (c, rt) = (e, c', rt')"
    and "system_reaches ac lc y0 k (rt_system rt)" and "sys_locals (rt_system rt) = (\<lambda>_. None)"
  shows "\<exists>m. system_reaches ac lc y0 m (rt_system rt') \<and> sys_locals (rt_system rt') = (\<lambda>_. None)"
proof -
  have "rt' = rt \<or> (\<exists>c1. service_auth ac (c1, rt) = (e, c', rt') \<or> service_lobby lc (c1, rt) = (e, c', rt'))"
    using assms(1) by (auto simp: router_HandleTCP_def simp del: route_loop.simps split: prod.splits sum.splits route.splits)
  then show ?thesis using service_reach [OF _ assms(2,3)] assms(2,3) by blast
qed

lemma serve_all_reach:
  assumes "rh_tcp handler = \<lparr>tr_auth = service_auth ac, tr_lobby = service_lobby lc, tr_initialReadTimeout = t\<rparr>"
    and "system_reaches ac lc y0 k (rt_system rt)" and "sys_locals (rt_system rt) = (\<lambda>_. None)"
  shows "\<exists>m. system_reaches ac lc y0 m (rt_system (serve_all handler conns rt)) \<and>
    sys_locals (rt_system (serve_all handler conns rt)) = (\<lambda>_. None)"
  using assms(2,3)
proof (induction conns arbitrary: rt k)
  case (Cons p conns)
  obtain cuts c where p: "p = (cuts, c)" by (cases p)
  obtain e c' rt' where r: "runtime_HandleTCP handler cuts (c, rt) = (e, c', rt')" by (metis surj_pair)
  have r': "router_HandleTCP \<lparr>tr_auth = service_auth ac, tr_lobby = service_lobby lc, tr_initialReadTimeout = t\<rparr> cuts (c, rt) =
      (e, c', rt')" using r assms(1) by (simp add: runtime_HandleTCP_def)
  obtain m where m: "system_reaches ac lc y0 m (rt_system rt')" "sys_locals (rt_system rt') = (\<lambda>_. None)"
    using routed_reach [OF r' Cons.prems] by blast
  from Cons.IH [OF m] show ?case using p r by (simp add: serve_all_def)
qed (auto simp: serve_all_def)

lemma no_owner_no_match:
  assumes "owners_inv (\<lambda>_. None) w"
  shows "mms_byID (lw_matches w) = []"
proof (cases "mms_byID (lw_matches w)")
  case (Cons p m)
  then have "(fst p, snd p) \<in> matches_of w" by simp
  then show ?thesis using assms unfolding owners_inv_def by blast
qed simp

section \<open>Datagrams\<close>

lemma HandleUDP_sent:
  assumes "HandleUDP config stopped peer payload (Some pc) = (e, r)"
  shows "\<exists>pc'. r = Some pc' \<and> (pc_sent pc' = pc_sent pc \<or> (\<exists>x. pc_sent pc' = pc_sent pc @ [(x, peer)]))"
  using assms
  by (auto simp: HandleUDP_def WriteTo_def Let_def split: if_splits sum.splits option.splits prod.splits list.splits)

text \<open>The UDP loop with the handler of the service; with each datagram comes whether the context is done while it
  is handled.\<close>

definition runtime_serveUDP :: "runtimeHandler \<Rightarrow> (udp_peer \<times> bool) udp_event list \<Rightarrow> packet_conn \<Rightarrow>
    go_error option option \<times> packet_conn" where
  "runtime_serveUDP handler = serveUDP (\<lambda>(peer, stopped) payload pc. runtime_HandleUDP handler stopped peer payload pc)"

definition datagram_peers :: "(udp_peer \<times> bool) udp_event list \<Rightarrow> udp_peer list" where
  "datagram_peers events = concat (map (\<lambda>ev. case ev of UdpError _ _ \<Rightarrow> [] | Datagram _ p _ \<Rightarrow> [fst p]) events)"

lemma runtime_serveUDP_run:
  assumes "\<forall>ev\<in>set events. \<exists>bs p cancelled. ev = Datagram bs p cancelled"
  shows "\<exists>pc' sent. runtime_serveUDP handler events pc = (None, pc') \<and> pc_sent pc' = pc_sent pc @ sent \<and>
    subseq (map snd sent) (datagram_peers events)"
  using assms
proof (induction events arbitrary: pc)
  case (Cons ev events)
  obtain bs peer stopped cancelled where ev: "ev = Datagram bs (peer, stopped) cancelled" using Cons.prems by auto
  obtain e r where h: "HandleUDP (rh_stun handler) stopped peer (take MaxUDPDatagramBytes bs) (Some pc) = (e, r)" by (metis surj_pair)
  from HandleUDP_sent [OF h] obtain pc1 x where
    1: "r = Some pc1" "pc_sent pc1 = pc_sent pc \<or> pc_sent pc1 = pc_sent pc @ [(x, peer)]" by blast
  obtain pc' sent where 2: "runtime_serveUDP handler events pc1 = (None, pc')" "pc_sent pc' = pc_sent pc1 @ sent"
    "subseq (map snd sent) (datagram_peers events)"
    using Cons.IH [of pc1] Cons.prems by auto
  have run: "runtime_serveUDP handler (ev # events) pc = (None, pc')"
    using ev h 1(1) 2(1) by (simp add: runtime_serveUDP_def runtime_HandleUDP_def Let_def)
  from 1(2) show ?case
  proof
    assume "pc_sent pc1 = pc_sent pc"
    with run 2 show ?thesis by (auto simp: ev datagram_peers_def intro: exI [of _ sent])
  next
    assume "pc_sent pc1 = pc_sent pc @ [(x, peer)]"
    with run 2 show ?thesis by (intro exI [of _ pc'] exI [of _ "(x, peer) # sent"]) (simp add: ev datagram_peers_def)
  qed
qed (simp add: runtime_serveUDP_def datagram_peers_def)

section \<open>Properties\<close>

definition default_options :: "bytes \<Rightarrow> u16 \<Rightarrow> options" where
  "default_options ip port = \<lparr>opt_tcpAddress = ascii '':3074'', opt_udpAddress = ascii '':3478'',
     opt_stunSource = \<lparr>ap_Addr = Addr4 ip, ap_Port = port\<rparr>, opt_dataDir = ascii ''data''\<rparr>"

definition sample_random :: go_stream where
  "sample_random = \<lparr>st_bytes = replicate 64 7, st_end = StreamEOF\<rparr>"

definition sample_handler :: runtimeHandler where
  "sample_handler = \<lparr>rh_tcp = \<lparr>tr_auth = service_auth (auth_defaults sample_random),
       tr_lobby = service_lobby (lobby_defaults sample_random), tr_initialReadTimeout = DefaultInitialReadTimeout\<rparr>,
     rh_stun = stun_config \<lparr>ap_Addr = Addr4 [203, 0, 113, 9], ap_Port = 3478\<rparr>\<rparr>"

lemma parse_stun_flag:
  "v \<noteq> [] \<Longrightarrow> parseOptions [ascii ''--stun-source-address'', v] =
     assignSTUNSource \<lparr>opt_tcpAddress = ascii '':3074'', opt_udpAddress = ascii '':3478'',
       opt_stunSource = \<lparr>ap_Addr = AddrInvalid, ap_Port = 0\<rparr>, opt_dataDir = ascii ''data''\<rparr> v"
proof -
  assume v: "v \<noteq> []"
  have s: "split_flag (ascii ''stun-source-address'') = (ascii ''stun-source-address'', None)" by code_simp
  have n: "drop 2 (ascii ''--stun-source-address'') = ascii ''stun-source-address''" by code_simp
  have h: "ascii ''--stun-source-address'' ! 0 = 45" "ascii ''--stun-source-address'' ! 1 = 45"
    "\<not> length (ascii ''--stun-source-address'') < 2" "ascii ''--stun-source-address'' \<noteq> [45, 45]"
    "ascii ''stun-source-address'' ! 0 \<noteq> 45" "ascii ''stun-source-address'' ! 0 \<noteq> 61"
    by code_simp+
  have ne: "ascii ''stun-source-address'' \<noteq> ascii ''tcp-listen''" "ascii ''stun-source-address'' \<noteq> ascii ''udp-listen''"
    "ascii ''stun-source-address'' \<noteq> ascii ''data-dir''" "ascii ''udp-listen'' \<noteq> ascii ''tcp-listen''"
    "ascii ''data-dir'' \<noteq> ascii ''tcp-listen''" "ascii ''data-dir'' \<noteq> ascii ''udp-listen''" "ascii '':3074'' \<noteq> []" "ascii '':3478'' \<noteq> []"
    "ascii ''data'' \<noteq> []"
    by code_simp+
  have "flag_Parse server_flags [ascii ''--stun-source-address'', v] =
      Inr (AList.update (ascii ''stun-source-address'') v server_flags, [])"
    unfolding flag_Parse.simps Let_def using h s n ne by (simp add: server_flags_def)
  then show ?thesis unfolding parseOptions_def Let_def using v ne by (simp add: server_flags_def)
qed

lemma NewResponder_accepts:
  assumes "length ip = 4" and e: "endpoint_ok \<lparr>ap_Addr = Addr4 ip, ap_Port = port\<rparr>"
  shows "NewResponder (stun_config \<lparr>ap_Addr = Addr4 ip, ap_Port = port\<rparr>) = Inr (stun_config \<lparr>ap_Addr = Addr4 ip, ap_Port = port\<rparr>)"
proof -
  let ?ep = "\<lparr>ap_Addr = Addr4 ip, ap_Port = port\<rparr>"
  let ?r = "\<lparr>TransactionID = replicate transactionIDSize 0, ChangeIP = False, ChangePort = False\<rparr>"
  let ?m = "\<lparr>MappedAddress = \<lparr>ap_Addr = Addr4 [192, 0, 2, 1], ap_Port = 1\<rparr>, SourceAddress = ?ep, ChangedAddress = ?ep\<rparr>"
  have ok: "endpoint_ok \<lparr>ap_Addr = Addr4 [192, 0, 2, 1], ap_Port = 1\<rparr>" by code_simp
  have "BuildBindingResponse ?r ?m = Inr (response_bytes (TransactionID ?r) ?m)"
    by (rule BuildBindingResponse_eq [THEN iffD2]) (use assms ok in \<open>simp_all add: transactionIDSize_def\<close>)
  then show ?thesis by (simp add: NewResponder_def stun_config_def)
qed

text \<open>C40: the address a server advertises can be given as it is printed. For an IPv4 address and a port the
  single flag \<^verbatim>\<open>--stun-source-address a.b.c.d:port\<close> is accepted, with the default ports and data
  directory, exactly when STUN may advertise the address: then the option is that address and port.\<close>

theorem stun_address_accepted:
  assumes "length ip = 4"
  shows "parseOptions [ascii ''--stun-source-address'', addr_port_text ip port] = Inr opts \<longleftrightarrow>
    validateEndpoint [] \<lparr>ap_Addr = Addr4 ip, ap_Port = port\<rparr> = None \<and> opts = default_options ip port"
proof -
  let ?ep = "\<lparr>ap_Addr = Addr4 ip, ap_Port = port\<rparr>"
  have v: "addr_port_text ip port \<noteq> []" by (simp add: addr_port_text_def)
  have "(\<exists>c. NewResponder (stun_config ?ep) = Inr c) \<longleftrightarrow> endpoint_ok ?ep"
    using NewResponder_accepts [OF assms] NewResponder_endpoint [of "stun_config ?ep"] by (auto simp: stun_config_def)
  then show ?thesis
    unfolding parse_stun_flag [OF v] assignSTUNSource_def ParseAddrPort_text [OF assms]
    by (auto simp: endpoint_ok_def default_options_def Let_def split: sum.splits)
qed

theorem stun_address_accepted_witness:
  "parseOptions [ascii ''--stun-source-address'', ascii ''203.0.113.9:3478''] = Inr (default_options [203, 0, 113, 9] 3478)"
proof -
  have "addr_port_text [203, 0, 113, 9] 3478 = ascii ''203.0.113.9:3478''"
    "validateEndpoint [] \<lparr>ap_Addr = Addr4 [203, 0, 113, 9], ap_Port = 3478\<rparr> = None" by code_simp+
  with stun_address_accepted [of "[203, 0, 113, 9]" 3478 "default_options [203, 0, 113, 9] 3478"] show ?thesis by simp
qed

text \<open>C31: with options that were accepted the program starts unless its account store cannot be opened: every
  other constructor accepts the configuration \<^verbatim>\<open>run\<close> gives it. The service then starts with the loaded
  accounts and empty stores, the default limits, an idle server, and a router to its two handlers.\<close>

theorem accepted_options_configure:
  assumes "parseOptions args = Inr opts"
  shows "case NewAccountStore \<lparr>acfg_MaxAccounts = 0, acfg_MaxAccountsPerSource = 0,
             acfg_StateFile = filepath_Join (opt_dataDir opts) (ascii ''accounts.json'')\<rparr> d of
      (Inl e, d') \<Rightarrow> configure opts random1 random2 d = (Inl (Context ''configure account store'' e), d')
    | (Inr accounts, d') \<Rightarrow>
        (\<exists>sc. configure opts random1 random2 d = (Inr sc, d') \<and> system_start (rt_system (sc_runtime sc)) \<and>
          lw_accounts (sys_world (rt_system (sc_runtime sc))) = accounts \<and>
          sc_auth sc = auth_defaults random1 \<and> sc_lobby sc = lobby_defaults random2 \<and> sc_server sc = idle_server \<and>
          sc_handler sc = \<lparr>rh_tcp = \<lparr>tr_auth = service_auth (sc_auth sc), tr_lobby = service_lobby (sc_lobby sc),
            tr_initialReadTimeout = 10 * Second\<rparr>, rh_stun = stun_config (opt_stunSource opts)\<rparr>)"
proof -
  have "NewResponder (stun_config (opt_stunSource opts)) = Inr (stun_config (opt_stunSource opts))"
    using options_accepted [OF assms] by simp
  note eq = configure_eq [OF this]
  obtain r d' where n: "NewAccountStore \<lparr>acfg_MaxAccounts = 0, acfg_MaxAccountsPerSource = 0,
      acfg_StateFile = filepath_Join (opt_dataDir opts) (ascii ''accounts.json'')\<rparr> d = (r, d')" by (metis surj_pair)
  show ?thesis
  proof (cases r)
    case (Inl e)
    then show ?thesis using n by (simp add: configure_def)
  next
    case (Inr accounts)
    then show ?thesis using n eq [of d accounts d'] by auto
  qed
qed

lemma sample_options:
  "parseOptions [ascii ''--stun-source-address'', addr_port_text [203, 0, 113, 9] 3478] = Inr (default_options [203, 0, 113, 9] 3478)"
  "NewResponder (stun_config \<lparr>ap_Addr = Addr4 [203, 0, 113, 9], ap_Port = 3478\<rparr>) =
     Inr (stun_config \<lparr>ap_Addr = Addr4 [203, 0, 113, 9], ap_Port = 3478\<rparr>)"
proof -
  have v: "addr_port_text [203, 0, 113, 9] 3478 \<noteq> []" by (simp add: addr_port_text_def)
  have "endpoint_ok \<lparr>ap_Addr = Addr4 [203, 0, 113, 9], ap_Port = 3478\<rparr>" by code_simp
  then show n: "NewResponder (stun_config \<lparr>ap_Addr = Addr4 [203, 0, 113, 9], ap_Port = 3478\<rparr>) =
     Inr (stun_config \<lparr>ap_Addr = Addr4 [203, 0, 113, 9], ap_Port = 3478\<rparr>)"
    by (intro NewResponder_accepts) simp_all
  show "parseOptions [ascii ''--stun-source-address'', addr_port_text [203, 0, 113, 9] 3478] = Inr (default_options [203, 0, 113, 9] 3478)"
    unfolding parse_stun_flag [OF v] assignSTUNSource_def ParseAddrPort_text [of "[203, 0, 113, 9]", simplified]
    using n by (simp add: default_options_def)
qed

lemma sample_accounts:
  "\<exists>accounts. NewAccountStore \<lparr>acfg_MaxAccounts = 0, acfg_MaxAccountsPerSource = 0,
     acfg_StateFile = filepath_Join (ascii ''data'') (ascii ''accounts.json'')\<rparr> empty_disk = (Inr accounts, empty_disk)"
proof -
  have "filepath_Join (ascii ''data'') (ascii ''accounts.json'') \<noteq> []"
    by (simp add: filepath_Join_def filepath_Clean_not_empty ascii_def)
  then show ?thesis
    by (simp add: NewAccountStore_def empty_store_def Let_def DefaultMaxAccounts_def DefaultMaxAccountsPerSource_def
        go_bind_def ensureAccountFileDirectory_def go_wrap_def syscall_def readAccountFile_def empty_disk_def)
qed

theorem accepted_options_configure_witness:
  "\<exists>sc. configure (default_options [203, 0, 113, 9] 3478) sample_random sample_random empty_disk = (Inr sc, empty_disk) \<and>
     sc_server sc = idle_server"
proof -
  obtain accounts where "NewAccountStore \<lparr>acfg_MaxAccounts = 0, acfg_MaxAccountsPerSource = 0,
      acfg_StateFile = filepath_Join (ascii ''data'') (ascii ''accounts.json'')\<rparr> empty_disk = (Inr accounts, empty_disk)"
    using sample_accounts by blast
  with accepted_options_configure [OF sample_options(1), where d = empty_disk and ?random1.0 = sample_random and ?random2.0 = sample_random] show ?thesis
    by (auto simp: default_options_def)
qed

text \<open>C32: no datagram stops the service. However many datagrams arrive, whatever they hold and whether or not the
  responses can be sent, the UDP loop goes on, and it sends no more than one datagram for each it has
  received, to its sender and in the order of their arrival.\<close>

theorem datagrams_never_stop_the_service:
  assumes "\<forall>ev\<in>set events. \<exists>bs p cancelled. ev = Datagram bs p cancelled"
  shows "\<exists>pc' sent. runtime_serveUDP handler events pc = (None, pc') \<and> pc_sent pc' = pc_sent pc @ sent \<and>
    subseq (map snd sent) (datagram_peers events)"
  by (rule runtime_serveUDP_run [OF assms])

theorem datagrams_never_stop_the_service_witness:
  "\<exists>pc'. runtime_serveUDP sample_handler
     [Datagram [1, 2, 3] (NotUDPAddr, False) False, Datagram [] (UDPAddr [203, 0, 113, 9] 50117, True) True]
     \<lparr>pc_script = [], pc_sent = []\<rparr> = (None, pc')"
proof -
  have "\<forall>ev\<in>set [Datagram [1, 2, 3] (NotUDPAddr, False) False, Datagram [] (UDPAddr [203, 0, 113, 9] 50117, True) True].
      \<exists>bs p cancelled. ev = Datagram bs p cancelled" by auto
  from datagrams_never_stop_the_service [OF this] show ?thesis by blast
qed

text \<open>C6: the program as it is configured refines the system of connections: whatever connections it handles, one
  after another, its stores are those of a state the two servers reach from their start, so the
  properties of the reachable states hold of them; and once no connection is open no match is listed.\<close>

theorem service_refines_system:
  assumes "configure opts random1 random2 d = (Inr sc, d')"
  shows "let rt = serve_all (sc_handler sc) conns (sc_runtime sc) in
    (\<exists>n. system_reaches (sc_auth sc) (sc_lobby sc) (rt_system (sc_runtime sc)) n (rt_system rt)) \<and>
    mms_byID (lw_matches (sys_world (rt_system rt))) = []"
proof -
  let ?rt = "serve_all (sc_handler sc) conns (sc_runtime sc)" and ?y0 = "rt_system (sc_runtime sc)"
  obtain accounts d1 where a: "NewAccountStore \<lparr>acfg_MaxAccounts = 0, acfg_MaxAccountsPerSource = 0,
      acfg_StateFile = filepath_Join (opt_dataDir opts) (ascii ''accounts.json'')\<rparr> d = (Inr accounts, d1)"
    using assms by (auto simp: configure_def split: prod.splits sum.splits)
  obtain stun where st: "NewResponder (stun_config (opt_stunSource opts)) = Inr stun"
    using assms by (auto simp: configure_def split: prod.splits sum.splits)
  from configure_eq [OF st a, of random1 random2] assms have
    c: "system_start ?y0" "sc_handler sc = \<lparr>rh_tcp = \<lparr>tr_auth = service_auth (sc_auth sc), tr_lobby = service_lobby (sc_lobby sc),
      tr_initialReadTimeout = 10 * Second\<rparr>, rh_stun = stun\<rparr>"
    by auto
  have start: "system_reaches (sc_auth sc) (sc_lobby sc) ?y0 0 ?y0" by (rule reach_start [OF c(1)])
  have none: "sys_locals ?y0 = (\<lambda>_. None)" using c(1) by (simp add: system_start_def)
  have h: "rh_tcp (sc_handler sc) = \<lparr>tr_auth = service_auth (sc_auth sc), tr_lobby = service_lobby (sc_lobby sc),
      tr_initialReadTimeout = 10 * Second\<rparr>" using c(2) by simp
  obtain n where n: "system_reaches (sc_auth sc) (sc_lobby sc) ?y0 n (rt_system ?rt)" "sys_locals (rt_system ?rt) = (\<lambda>_. None)"
    using serve_all_reach [OF h start none] by blast
  have "owners_inv (\<lambda>_. None) (sys_world (rt_system ?rt))" using conn_inv_reach [OF n(1)] n(2) by (simp add: conn_inv_def)
  then have "mms_byID (lw_matches (sys_world (rt_system ?rt))) = []" by (rule no_owner_no_match)
  with n(1) show ?thesis unfolding Let_def by blast
qed

theorem service_refines_system_witness:
  "\<exists>sc n. configure (default_options [203, 0, 113, 9] 3478) sample_random sample_random empty_disk = (Inr sc, empty_disk) \<and>
     system_reaches (sc_auth sc) (sc_lobby sc) (rt_system (sc_runtime sc)) n
       (rt_system (serve_all (sc_handler sc) [([0], example_connection [0, 0, 0, 0])] (sc_runtime sc)))"
proof -
  obtain accounts where a: "NewAccountStore \<lparr>acfg_MaxAccounts = 0, acfg_MaxAccountsPerSource = 0,
      acfg_StateFile = filepath_Join (opt_dataDir (default_options [203, 0, 113, 9] 3478)) (ascii ''accounts.json'')\<rparr> empty_disk =
      (Inr accounts, empty_disk)"
    using sample_accounts by (auto simp: default_options_def)
  have "opt_stunSource (default_options [203, 0, 113, 9] 3478) = \<lparr>ap_Addr = Addr4 [203, 0, 113, 9], ap_Port = 3478\<rparr>"
    by (simp add: default_options_def)
  from configure_eq [OF sample_options(2) [folded this] a, of sample_random sample_random]
  obtain sc where sc: "configure (default_options [203, 0, 113, 9] 3478) sample_random sample_random empty_disk = (Inr sc, empty_disk)" by blast
  from service_refines_system [OF sc, of "[([0], example_connection [0, 0, 0, 0])]"] sc show ?thesis
    unfolding Let_def by blast
qed

end
