(* ===== verification/Spec2Isabelle.thy ===== *)
theory Spec2Isabelle
  imports Bit_Buffer Lobby_Journey Server_Main
begin

text \<open>
  A model of the online server of the repository: the program of
  \<^verbatim>\<open>src/cmd/codboz-online-server/main.go\<close> and the packages of \<^verbatim>\<open>src/internal/online\<close>, with the theorems
  that make it correct.

  The program. One TCP port serves two protocols. \<^verbatim>\<open>server\<close> accepts connections within a global limit and
  a limit per source and runs a handler for each; \<^verbatim>\<open>backend\<close> peeks at the first frame and hands the
  connection to the authentication server (\<^verbatim>\<open>auth\<close>) or the lobby server (\<^verbatim>\<open>lobby\<close>). A client registers
  an account, asks the authentication server for a ticket, for which a pending lobby session is
  reserved, logs in to the lobby with the seed of the ticket, and is served once a request sealed with the
  session key has proved that it can decrypt the ticket. It then lists, changes and finds matches and
  sends messages to other clients. One UDP port answers STUN requests (\<^verbatim>\<open>stun\<close>). \<^verbatim>\<open>bitdemon\<close> has the wire
  formats and the cryptography.

  How the code is read. Byte slices and strings are lists of 8-bit words; integers of a fixed width are
  words, Go's \<^verbatim>\<open>int\<close> and \<^verbatim>\<open>time.Duration\<close> are \<open>int\<close> (nanoseconds). A function with an error result returns
  a sum, \<open>Inl\<close> the error; a method with a receiver takes and returns its record. A map is an
  association list with distinct keys (\<open>gomap\<close>), \<^verbatim>\<open>range\<close> over it visits the list, so what is proved does
  not depend on an order unless it says so. The text that \<^verbatim>\<open>%v\<close> and \<^verbatim>\<open>%d\<close> add to an error is dropped, what
  \<^verbatim>\<open>%w\<close> wraps is kept. What the environment does (the bytes of a peer, the outcomes of writes, deadlines,
  system calls, the clock, the random source, cancellation) is data in the state that the operations
  consume, so the theorems hold for every behaviour of it.

  The theories, in the order of the code:

    \<^item> \<open>Go_Prelude\<close>: errors, the error-or-value operations, byte orders, slices, maps; \<open>Stream_Reader\<close>:
      the interface of a reader that accepts exactly an encoding (locale \<open>stream_reader\<close>, interpreted by
      both buffers; \<open>Byte_Buffer\<close> adds \<open>wire_field\<close> for the types of a field); \<open>Go_IO\<close>, \<open>Std_Net\<close>,
      \<open>Std_SHA1\<close>, \<open>Std_DES\<close>, \<open>Std_Bufio\<close>, \<open>Std_Main\<close>: what the source uses of the standard library;
      \<open>Counted_Store\<close>: entries with a counter per owner (locale \<open>counted_store\<close>, interpreted by the
      session store, the matchmaking store and the connections of the server).
    \<^item> \<open>Byte_Buffer\<close>, \<open>Bit_Buffer\<close>, \<open>Framing\<close> (\<^verbatim>\<open>bytebuffer.go\<close>, \<^verbatim>\<open>bitbuffer.go\<close>, \<^verbatim>\<open>frame.go\<close>): readers and
      writers, with exactness, bounds and round trips. \<open>Tiger_Tables\<close>, \<open>Tiger\<close>, \<open>Crypto\<close> (\<^verbatim>\<open>tiger.go\<close>,
      \<^verbatim>\<open>crypto.go\<close>): the hash, 3DES-CBC and the truncated HMAC; decryption inverts encryption.
    \<^item> \<open>Stun\<close> (\<^verbatim>\<open>stun\<close>): the responder answers plain requests, their sender only.
    \<^item> \<open>Auth_Messages\<close>, \<open>Account_File\<close>, \<open>Account_Store\<close>, \<open>Lobby_Session\<close>, \<open>Connection\<close>, \<open>Auth_Handler\<close>
      (\<^verbatim>\<open>auth\<close>): messages are accepted exactly when they are encodings; the indexes, limits and the
      file of the accounts; pending sessions are used once and by their peer; the handler serves a bounded
      number of records and leaves a session behind exactly for the tickets it sent without an error.
    \<^item> \<open>Lobby_Messages\<close>, \<open>Matchmaking\<close>, \<open>Matchmaking_Store\<close>, \<open>Lobby_Client\<close>, \<open>Lobby_Login\<close>,
      \<open>Lobby_Handler\<close>, \<open>Lobby_Service\<close> (\<^verbatim>\<open>lobby\<close>): sealed requests, matches and their owners, the table of
      active clients, the loop of \<^verbatim>\<open>lsg.go\<close> as an iteration over the connection's variables (\<open>lsg_state\<close>)
      and the shared state (\<open>lobby_world\<close>): no service before the proof, and every connection returns.
    \<^item> \<open>Lobby_System\<close>, \<open>Lobby_Identity\<close>, \<open>Lobby_Journey\<close>: the two servers together. A step opens a lobby
      connection, handles one record of any connection, or ends one; the invariants of the reachable states
      say whose the matches are, who a connection stands for, and that nothing is shared or left behind;
      and any client that follows the protocol gets from a registration to a listed match.
    \<^item> \<open>Router\<close> (\<^verbatim>\<open>backend/router.go\<close>): exactly which byte streams reach which handler, with every byte unread.
    \<^item> \<open>Server\<close>, \<open>Server_Run\<close> (\<^verbatim>\<open>server\<close>): the operations, and the goroutines of \<^verbatim>\<open>Serve\<close>, its loops, the
      handlers and the callers of \<^verbatim>\<open>Shutdown\<close> in every interleaving of their steps: limits, exact
      counters, no admission after a shutdown, and that a shutdown ends and leaves nothing. A parameter of
      \<open>serve_step\<close> says whether the world outside acts; without it \<^verbatim>\<open>Accept\<close>, \<^verbatim>\<open>ReadFrom\<close> and the handlers block
      until their socket or connection is closed, and that is how a shutdown is shown to go on. That the two
      handlers return then is \<open>closed_connection_returns\<close> (lobby) and \<open>closed_connection_stops\<close> (authentication).
    \<^item> \<open>Server_Main\<close> (\<^verbatim>\<open>main.go\<close>): options, construction, the runtime handler, exit status; the configured
      program refines the system of the two servers.

  Bounds and fuel. \<open>lsg_loop\<close> has fuel because the code's loop has no bound by default: one more than the
  unread bytes of the connection is enough (\<open>lsg_loop_returns\<close>), which is what \<open>service_lobby\<close>
  gives it. The router's loop runs 33 rounds as in the code. \<open>enough_numbers\<close> says that the 64-bit counters of
  tokens, identifiers and accounts do not wrap within a run; each step uses at most 17 of a counter
  (16 attempts to reserve a seed, and one). Claims about a single store say so in their own hypotheses.

  Not modelled. The effect of log lines; the text of error messages beyond what wraps; TLS, sockets and
  the scheduler below the steps named above; the JSON and file-system libraries (a file is what
  decoding it returns, and a script of outcomes for the system calls; the text written is modelled to
  bound its size). Records of one connection are handled without interleaving with another's in the
  systems of the two servers: the stores' own theories cover every order of their mutexed operations. In
  \<open>service_refines_system\<close> connections are served one after another; \<open>Lobby_System\<close> itself
  interleaves them. Tests, scripts and the client patches of the repository are not the program.
\<close>

end
